(* ===== verification/Prelude.thy ===== *)
theory Prelude
  imports Main "HOL-Library.Word" "HOL-Library.Monad_Syntax"
begin

text \<open>
  What the components share.

  \<^item> Panics. A Go function that can panic returns an \<open>option\<close>; \<open>None\<close> is the
    panic. The functions are written in the option monad, so the first panic ends the
    computation, as it does in the program.
  \<^item> Randomness. \<^verbatim>\<open>randGen\<close> embeds \<^verbatim>\<open>*rand.Rand\<close>. A run of the generator is determined by the
    results of its draws, so the source of randomness is a tape of choices, consumed from
    the left. \<open>Intn n\<close> takes the next choice modulo \<open>n\<close>, hence every value below \<open>n\<close> is
    the result for some tape, and a statement for all tapes is a statement for all runs.
    An exhausted tape yields \<open>0\<close>. As in \<^verbatim>\<open>math/rand\<close>, \<open>Intn 0\<close> panics.
  \<^item> Formatting. \<open>fmt_d\<close>, \<open>fmt_nat\<close> and \<open>fmt_x\<close> are the verbs \<^verbatim>\<open>%d\<close> (of an integer and of a
    non-negative one) and \<^verbatim>\<open>%x\<close> of \<^verbatim>\<open>fmt.Sprintf\<close>.
\<close>

subsection \<open>Machine integers\<close>

type_synonym uint64 = "64 word"
type_synonym byte = "8 word"

lemma uint64_lt: "unat (x :: uint64) < 2 ^ 64"
  using unsigned_less [where 'a = nat, of x] by simp

lemma unat_of_nat64: "n < 2 ^ 64 \<Longrightarrow> unat (of_nat n :: uint64) = n"
  by (simp add: unat_of_nat take_bit_eq_mod)

subsection \<open>The choice tape\<close>

type_synonym rng = "nat list"

definition Intn :: "nat \<Rightarrow> rng \<Rightarrow> (nat \<times> rng) option" where
  "Intn n r =
     (if n = 0 then None
      else case r of [] \<Rightarrow> Some (0, []) | c # cs \<Rightarrow> Some (c mod n, cs))"

definition bin :: "rng \<Rightarrow> (bool \<times> rng) option" where
  "bin r = do { (k, r) \<leftarrow> Intn 2 r; Some (k = 0, r) }"

definition oneOf :: "nat \<Rightarrow> rng \<Rightarrow> (bool \<times> rng) option" where
  "oneOf n r = do { (k, r) \<leftarrow> Intn n r; Some (k = 0, r) }"

definition rand :: "nat \<Rightarrow> rng \<Rightarrow> (uint64 \<times> rng) option" where
  "rand n r = do { (k, r) \<leftarrow> Intn n r; Some (of_nat k, r) }"

lemma Intn_Some_lt: "Intn n r = Some (k, r') \<Longrightarrow> k < n"
  by (auto simp: Intn_def split: if_splits list.splits)

lemma Intn_total: "0 < n \<Longrightarrow> \<exists>k r'. Intn n r = Some (k, r') \<and> k < n"
  by (cases r) (auto simp: Intn_def)

lemma Intn_surj: "k < n \<Longrightarrow> Intn n (k # r) = Some (k, r)"
  by (simp add: Intn_def)

lemma bin_total: "\<exists>b r'. bin r = Some (b, r')"
  using Intn_total [of 2 r] by (auto simp: bin_def)

lemma oneOf_total: "0 < n \<Longrightarrow> \<exists>b r'. oneOf n r = Some (b, r')"
  using Intn_total [of n r] by (auto simp: oneOf_def)

lemma nth_in_set_Intn: "Intn (length xs) r = Some (k, r') \<Longrightarrow> xs ! k \<in> set xs"
  by (auto dest: Intn_Some_lt)

text \<open>Inversion of a monadic run: one rule per shape of bound value.\<close>

lemma bind_someE:
  assumes "Option.bind m f = Some y"
  obtains x where "m = Some x" and "f x = Some y"
  using assms by (cases m) auto

lemma bind_pairE:
  assumes "Option.bind m (\<lambda>(a, b). f a b) = Some y"
  obtains a b where "m = Some (a, b)" and "f a b = Some y"
  using assms by (cases m) auto

lemma bind_tripleE:
  assumes "Option.bind m (\<lambda>(a, b, c). f a b c) = Some y"
  obtains a b c where "m = Some (a, b, c)" and "f a b c = Some y"
  using assms by (cases m) auto

declare Option.bind_cong [fundef_cong]

subsection \<open>Binary search\<close>

text \<open>\<^verbatim>\<open>sort.Search\<close>: the least index below \<open>n\<close> at which a monotone predicate holds, and \<open>n\<close> if there is none.\<close>

function searchLoop :: "(nat \<Rightarrow> bool) \<Rightarrow> nat \<Rightarrow> nat \<Rightarrow> nat" where
  "searchLoop f i j =
     (if i < j then
        let h = (i + j) div 2 in if \<not> f h then searchLoop f (h + 1) j else searchLoop f i h
      else i)"
  by pat_completeness auto
termination by (relation "measure (\<lambda>(f, i, j). j - i)") auto

declare searchLoop.simps [simp del]

definition sortSearch :: "nat \<Rightarrow> (nat \<Rightarrow> bool) \<Rightarrow> nat" where
  "sortSearch n f = searchLoop f 0 n"

lemma searchLoop_range: "i \<le> j \<Longrightarrow> i \<le> searchLoop f i j \<and> searchLoop f i j \<le> j"
proof (induction f i j rule: searchLoop.induct)
  case (1 f i j)
  show ?case
  proof (cases "i < j")
    case True
    define h where "h = (i + j) div 2"
    have h: "i \<le> h" "h < j" using True by (auto simp: h_def)
    have "searchLoop f i j = (if f h then searchLoop f i h else searchLoop f (h + 1) j)"
      using True by (subst searchLoop.simps) (simp add: h_def Let_def)
    then show ?thesis using "1.IH" [OF True h_def] h by (cases "f h") simp_all
  next
    case False
    then have "searchLoop f i j = i" by (subst searchLoop.simps) simp
    with False 1 show ?thesis by simp
  qed
qed

lemma searchLoop_spec:
  assumes "\<And>a b. a \<le> b \<Longrightarrow> b < n \<Longrightarrow> f a \<Longrightarrow> f b" and "i \<le> j" and "j \<le> n"
    and "\<And>a. a < i \<Longrightarrow> \<not> f a" and "j < n \<Longrightarrow> f j"
  shows "(\<forall>a < searchLoop f i j. \<not> f a) \<and> (searchLoop f i j < n \<longrightarrow> f (searchLoop f i j))"
  using assms
proof (induction f i j rule: searchLoop.induct)
  case (1 f i j)
  show ?case
  proof (cases "i < j")
    case True
    define h where "h = (i + j) div 2"
    have h: "i \<le> h" "h < j" using True by (auto simp: h_def)
    show ?thesis
    proof (cases "f h")
      case True
      then have "searchLoop f i j = searchLoop f i h"
        using \<open>i < j\<close> by (subst searchLoop.simps) (simp add: h_def Let_def)
      moreover have "(\<forall>a < searchLoop f i h. \<not> f a) \<and> (searchLoop f i h < n \<longrightarrow> f (searchLoop f i h))"
        by (rule "1.IH"(2) [OF \<open>i < j\<close> h_def _ "1.prems"(1)]) (use True h "1.prems"(3,4) in auto)
      ultimately show ?thesis by simp
    next
      case False
      then have "searchLoop f i j = searchLoop f (h + 1) j"
        using \<open>i < j\<close> by (subst searchLoop.simps) (simp add: h_def Let_def)
      moreover have "\<not> f a" if "a < h + 1" for a
        using "1.prems"(1) [of a h] "1.prems"(3) False h that by auto
      then have "(\<forall>a < searchLoop f (h + 1) j. \<not> f a) \<and> (searchLoop f (h + 1) j < n \<longrightarrow> f (searchLoop f (h + 1) j))"
        by (intro "1.IH"(1) [OF \<open>i < j\<close> h_def False "1.prems"(1)]) (use h "1.prems"(3,5) in auto)
      ultimately show ?thesis by simp
    qed
  next
    case False
    then have "searchLoop f i j = i" by (subst searchLoop.simps) simp
    with False "1.prems"(2,4,5) show ?thesis by auto
  qed
qed

lemma sortSearch_le: "sortSearch n f \<le> n"
  using searchLoop_range [of 0 n f] by (simp add: sortSearch_def)

lemma sortSearch_least:
  assumes "\<And>a b. a \<le> b \<Longrightarrow> b < n \<Longrightarrow> f a \<Longrightarrow> f b"
  shows "sortSearch n f = k \<longleftrightarrow> k \<le> n \<and> (\<forall>a < k. \<not> f a) \<and> (k < n \<longrightarrow> f k)"
proof -
  have "(\<forall>a < sortSearch n f. \<not> f a) \<and> (sortSearch n f < n \<longrightarrow> f (sortSearch n f))"
    unfolding sortSearch_def by (rule searchLoop_spec [OF assms]) simp_all
  note spec = conjI [OF sortSearch_le [of n f] this]
  show ?thesis
  proof
    assume k: "k \<le> n \<and> (\<forall>a < k. \<not> f a) \<and> (k < n \<longrightarrow> f k)"
    have "\<not> sortSearch n f < k" using spec k by auto
    moreover have "\<not> k < sortSearch n f" using spec k by auto
    ultimately show "sortSearch n f = k" by simp
  qed (use spec in blast)
qed

subsection \<open>Formatting of numbers\<close>

definition digit_char :: "nat \<Rightarrow> char" where
  "digit_char d = (if d < 10 then char_of (48 + d) else char_of (87 + d))"

fun digits :: "nat \<Rightarrow> nat \<Rightarrow> nat list" where
  "digits b n = (if b \<le> 1 \<or> n < b then [n] else digits b (n div b) @ [n mod b])"

declare digits.simps [simp del]

definition fmt_nat :: "nat \<Rightarrow> string" where
  "fmt_nat n = map digit_char (digits 10 n)"

definition fmt_x :: "nat \<Rightarrow> string" where
  "fmt_x n = map digit_char (digits 16 n)"

definition fmt_d :: "int \<Rightarrow> string" where
  "fmt_d z = (if z < 0 then ''-'' @ fmt_nat (nat (- z)) else fmt_nat (nat z))"

definition undigits :: "nat \<Rightarrow> nat list \<Rightarrow> nat" where
  "undigits b ds = foldl (\<lambda>acc d. acc * b + d) 0 ds"

lemma undigits_snoc: "undigits b (ds @ [d]) = undigits b ds * b + d"
  by (simp add: undigits_def)

lemma undigits_digits: "undigits b (digits b n) = n"
proof (induction b n rule: digits.induct)
  case (1 b n)
  show ?case
  proof (cases "b \<le> 1 \<or> n < b")
    case True
    then show ?thesis by (subst digits.simps) (simp add: undigits_def)
  next
    case False
    with 1 show ?thesis by (subst digits.simps) (simp add: undigits_snoc)
  qed
qed

lemma digits_inj: "digits b m = digits b n \<Longrightarrow> m = n"
  by (metis undigits_digits)

lemma digits_lt: "1 < b \<Longrightarrow> d \<in> set (digits b n) \<Longrightarrow> d < b"
proof (induction b n rule: digits.induct)
  case (1 b n)
  show ?case
  proof (cases "n < b")
    case True
    with 1 show ?thesis by (subst (asm) (2) digits.simps) simp
  next
    case False
    with 1 show ?thesis by (subst (asm) (2) digits.simps) auto
  qed
qed

lemma digits_nonempty: "digits b n \<noteq> []"
  by (subst digits.simps) simp

lemma length_digits_le: "1 < b \<Longrightarrow> n < b ^ k \<Longrightarrow> 0 < k \<Longrightarrow> length (digits b n) \<le> k"
proof (induction k arbitrary: n)
  case (Suc k)
  show ?case
  proof (cases "n < b")
    case True
    then show ?thesis by (subst digits.simps) simp
  next
    case False
    with Suc.prems have k: "0 < k" by (cases k) auto
    have "n div b < b ^ k"
      using Suc.prems by (simp add: less_mult_imp_div_less mult.commute)
    with Suc.IH Suc.prems(1) k have "length (digits b (n div b)) \<le> k" by blast
    with False Suc.prems(1) show ?thesis by (subst digits.simps) simp
  qed
qed simp

lemma digit_char_inj:
  assumes "d < 16" "e < 16" "digit_char d = digit_char e"
  shows "d = e"
proof -
  have code: "of_char (digit_char k) = (if k < 10 then 48 + k else 87 + k)" if "k < 16" for k :: nat
    using that by (simp add: digit_char_def)
  from assms(3) have "(of_char (digit_char d) :: nat) = of_char (digit_char e)"
    by simp
  with assms(1,2) show ?thesis
    by (simp add: code split: if_splits)
qed

lemma map_digit_char_inj:
  assumes "\<forall>d \<in> set ds. d < 16" "\<forall>e \<in> set es. e < 16" "map digit_char ds = map digit_char es"
  shows "ds = es"
  using assms(3)
proof (rule map_inj_on)
  show "inj_on digit_char (set ds \<union> set es)"
    using assms(1,2) by (intro inj_onI digit_char_inj) auto
qed

lemma fmt_nat_inj [simp]: "fmt_nat m = fmt_nat n \<longleftrightarrow> m = n"
proof
  have small: "\<forall>d \<in> set (digits 10 k). d < 16" for k
    using digits_lt [of 10 _ k] by fastforce
  assume "fmt_nat m = fmt_nat n"
  then have "digits 10 m = digits 10 n"
    unfolding fmt_nat_def using small by (blast intro: map_digit_char_inj)
  then show "m = n" by (rule digits_inj)
qed simp

lemma fmt_x_inj [simp]: "fmt_x m = fmt_x n \<longleftrightarrow> m = n"
proof
  have small: "\<forall>d \<in> set (digits 16 k). d < 16" for k
    using digits_lt [of 16 _ k] by fastforce
  assume "fmt_x m = fmt_x n"
  then have "digits 16 m = digits 16 n"
    unfolding fmt_x_def using small by (blast intro: map_digit_char_inj)
  then show "m = n" by (rule digits_inj)
qed simp

definition is_dec :: "char \<Rightarrow> bool" where
  "is_dec c = (48 \<le> (of_char c :: nat) \<and> (of_char c :: nat) \<le> 57)"

lemma fmt_nat_is_dec: "c \<in> set (fmt_nat n) \<Longrightarrow> is_dec c"
  by (fastforce simp: fmt_nat_def digit_char_def is_dec_def dest: digits_lt [rotated])

lemma fmt_nat_nonempty [simp]: "fmt_nat n \<noteq> []"
  by (simp add: fmt_nat_def digits_nonempty)

end
