(* ===== verification/StructOps_Model.thy ===== *)
theory StructOps_Model
  imports Prelude
begin

text \<open>
  The data of the MPTCP struct_ops scheduler generator (\<^verbatim>\<open>src/prog/brf_structops.go\<close>): the kfunc
  model, the writable context fields, the statements of a generated callback body, the
  per-program model, and the typed-value pool from which kfunc arguments are drawn.

  C types and C expressions are strings, as in the program. A \<^verbatim>\<open>StructOpsStmt\<close> is a Go struct
  tagged by \<^verbatim>\<open>Kind\<close>, of which only the fields valid for the kind are ever set or read; it is a
  datatype with one constructor per kind and those fields as its arguments.
\<close>

definition schedNameMax :: nat where
  "schedNameMax = 16"

record BpfKfunc =
  kf_Name :: string
  kf_CDecl :: string
  kf_RetType :: string
  kf_ArgTypes :: "string list"
  kf_IsPtrRet :: bool
  kf_RetNull :: bool

definition needsNullGuard :: "BpfKfunc \<Rightarrow> bool" where
  "needsNullGuard kf = (kf_IsPtrRet kf \<and> kf_RetNull kf)"

text \<open>Line breaks and tabs of the declaration texts.\<close>

abbreviation NL :: string where "NL \<equiv> [CHR 0x0A]"
abbreviation TAB :: string where "TAB \<equiv> [CHR 0x09]"
abbreviation DQ :: string where "DQ \<equiv> [CHR 0x22]"

definition mptcpSchedKfuncs :: "BpfKfunc list" where
  "mptcpSchedKfuncs =
    [\<lparr>kf_Name = ''bpf_mptcp_subflow_ctx'',
      kf_CDecl = ''extern struct mptcp_subflow_context *'' @ NL @
        ''bpf_mptcp_subflow_ctx(const struct sock *sk) __ksym;'',
      kf_RetType = ''struct mptcp_subflow_context *'',
      kf_ArgTypes = [''const struct sock *''],
      kf_IsPtrRet = True, kf_RetNull = True\<rparr>,
     \<lparr>kf_Name = ''mptcp_subflow_set_scheduled'',
      kf_CDecl = ''extern void'' @ NL @
        ''mptcp_subflow_set_scheduled(struct mptcp_subflow_context *subflow,'' @ NL @
        TAB @ TAB @ TAB @ ''    bool scheduled) __ksym;'',
      kf_RetType = [],
      kf_ArgTypes = [''struct mptcp_subflow_context *'', ''bool''],
      kf_IsPtrRet = False, kf_RetNull = False\<rparr>,
     \<lparr>kf_Name = ''bpf_mptcp_subflow_tcp_sock'',
      kf_CDecl = ''extern struct sock *'' @ NL @
        ''bpf_mptcp_subflow_tcp_sock(const struct mptcp_subflow_context *subflow) __ksym;'',
      kf_RetType = ''struct sock *'',
      kf_ArgTypes = [''const struct mptcp_subflow_context *''],
      kf_IsPtrRet = True, kf_RetNull = True\<rparr>,
     \<lparr>kf_Name = ''bpf_sk_stream_memory_free'',
      kf_CDecl = ''extern bool'' @ NL @
        ''bpf_sk_stream_memory_free(const struct sock *sk) __ksym;'',
      kf_RetType = ''bool'',
      kf_ArgTypes = [''const struct sock *''],
      kf_IsPtrRet = False, kf_RetNull = True\<rparr>,
     \<lparr>kf_Name = ''bpf_mptcp_subflow_queues_empty'',
      kf_CDecl = ''extern bool'' @ NL @
        ''bpf_mptcp_subflow_queues_empty(struct sock *sk) __ksym;'',
      kf_RetType = ''bool'',
      kf_ArgTypes = [''struct sock *''],
      kf_IsPtrRet = False, kf_RetNull = False\<rparr>,
     \<lparr>kf_Name = ''mptcp_subflow_active'',
      kf_CDecl = ''extern bool'' @ NL @
        ''mptcp_subflow_active(struct mptcp_subflow_context *subflow) __ksym;'',
      kf_RetType = ''bool'',
      kf_ArgTypes = [''struct mptcp_subflow_context *''],
      kf_IsPtrRet = False, kf_RetNull = False\<rparr>,
     \<lparr>kf_Name = ''mptcp_set_timeout'',
      kf_CDecl = ''extern void'' @ NL @
        ''mptcp_set_timeout(struct sock *sk) __ksym;'',
      kf_RetType = [],
      kf_ArgTypes = [''struct sock *''],
      kf_IsPtrRet = False, kf_RetNull = False\<rparr>,
     \<lparr>kf_Name = ''mptcp_wnd_end'',
      kf_CDecl = ''extern __u64'' @ NL @
        ''mptcp_wnd_end(const struct mptcp_sock *msk) __ksym;'',
      kf_RetType = ''__u64'',
      kf_ArgTypes = [''const struct mptcp_sock *''],
      kf_IsPtrRet = False, kf_RetNull = False\<rparr>]"

definition mptcpSubflowIterKfuncs :: "BpfKfunc list" where
  "mptcpSubflowIterKfuncs =
    [\<lparr>kf_Name = ''bpf_iter_mptcp_subflow_new'',
      kf_CDecl = ''extern int'' @ NL @
        ''bpf_iter_mptcp_subflow_new(struct bpf_iter_mptcp_subflow *it,'' @ NL @
        TAB @ TAB @ TAB @ ''   struct sock *sk) __ksym;'',
      kf_RetType = ''int'',
      kf_ArgTypes = [''struct bpf_iter_mptcp_subflow *'', ''struct sock *''],
      kf_IsPtrRet = False, kf_RetNull = False\<rparr>,
     \<lparr>kf_Name = ''bpf_iter_mptcp_subflow_next'',
      kf_CDecl = ''extern struct mptcp_subflow_context *'' @ NL @
        ''bpf_iter_mptcp_subflow_next(struct bpf_iter_mptcp_subflow *it) __ksym;'',
      kf_RetType = ''struct mptcp_subflow_context *'',
      kf_ArgTypes = [''struct bpf_iter_mptcp_subflow *''],
      kf_IsPtrRet = True, kf_RetNull = True\<rparr>,
     \<lparr>kf_Name = ''bpf_iter_mptcp_subflow_destroy'',
      kf_CDecl = ''extern void'' @ NL @
        ''bpf_iter_mptcp_subflow_destroy(struct bpf_iter_mptcp_subflow *it) __ksym;'',
      kf_RetType = [],
      kf_ArgTypes = [''struct bpf_iter_mptcp_subflow *''],
      kf_IsPtrRet = False, kf_RetNull = False\<rparr>]"

record StructOpsCtxField =
  cf_Owner :: string
  cf_Field :: string
  cf_Accessor :: string
  cf_CType :: string

definition mptcpSchedWriteFields :: "StructOpsCtxField list" where
  "mptcpSchedWriteFields =
    [\<lparr>cf_Owner = ''struct mptcp_sock'', cf_Field = ''snd_burst'',
      cf_Accessor = ''msk->snd_burst'', cf_CType = ''int''\<rparr>,
     \<lparr>cf_Owner = ''struct mptcp_subflow_context'', cf_Field = ''avg_pacing_rate'',
      cf_Accessor = ''subflow->avg_pacing_rate'', cf_CType = ''unsigned long''\<rparr>]"

datatype StructOpsStmtKind =
  KCtxRead | KCtxWrite | KArith | KKfuncCall | KSubflowIter | KIfElse

datatype StructOpsStmt =
    CtxRead (FieldIdx: nat) (FieldAccessor: string) (FieldCType: string) (Var: string)
      (CType: string)
  | CtxWrite (FieldIdx: nat) (FieldAccessor: string) (FieldCType: string) (Val: int)
  | Arith (Var: string) (CType: string) (SrcVar: string) (Op: string) (Val: int)
  | KfuncCall (KfuncIdx: nat) (KfuncArgs: "string list") (Var: string) (CType: string)
      (NullGuard: bool)
  | SubflowIter (IterId: nat) (Var: string) (CType: string) (IterSockExpr: string)
      (IterBody: "StructOpsStmt list")
  | IfElse (CondVar: string) (CondOp: string) (CondVal: int)
      (IfBody: "StructOpsStmt list") (ElseBody: "StructOpsStmt list")

fun Kind :: "StructOpsStmt \<Rightarrow> StructOpsStmtKind" where
  "Kind (CtxRead _ _ _ _ _) = KCtxRead"
| "Kind (CtxWrite _ _ _ _) = KCtxWrite"
| "Kind (Arith _ _ _ _ _) = KArith"
| "Kind (KfuncCall _ _ _ _ _) = KKfuncCall"
| "Kind (SubflowIter _ _ _ _ _) = KSubflowIter"
| "Kind (IfElse _ _ _ _ _) = KIfElse"

record StructOpsProg =
  SchedName :: string
  WriteFields :: "StructOpsCtxField list"
  Kfuncs :: "BpfKfunc list"
  IterKfuncs :: "BpfKfunc list"
  GetSendBody :: "StructOpsStmt list"
  InitBody :: "StructOpsStmt list"
  ReleaseBody :: "StructOpsStmt list"

definition structOpsArithOps :: "string list" where
  "structOpsArithOps = [''+'', ''-'', ''*'', ''^'', ''|'', ''&'']"

definition structOpsCondOps :: "string list" where
  "structOpsCondOps = [[], ''>'', ''<'', ''=='', ''!='', ''&'']"

definition genStructOpsCtxValue :: "string \<Rightarrow> rng \<Rightarrow> (int \<times> rng) option" where
  "genStructOpsCtxValue ctype r =
     (if ctype = ''int'' then do { (k, r) \<leftarrow> Intn (2 ^ 32) r; Some (int k - 2 ^ 31, r) }
      else do { (k, r) \<leftarrow> Intn (2 ^ 31) r; Some (int k, r) })"

fun normalizeCType :: "string \<Rightarrow> string" where
  "normalizeCType t =
     (if 6 < length t \<and> take 6 t = ''const '' then normalizeCType (drop 6 t) else t)"

declare normalizeCType.simps [simp del]

record typedVal =
  tv_expr :: string
  tv_ctype :: string

definition scalarCType :: "string \<Rightarrow> bool" where
  "scalarCType t =
     (normalizeCType t \<in> set [''int'', ''unsigned long'', ''bool'', ''__u64'', ''u64'', ''long''])"

definition argCands :: "typedVal list \<Rightarrow> string \<Rightarrow> string list" where
  "argCands pool want =
     map tv_expr (filter (\<lambda>v. tv_ctype v = want) pool) @
     (if want = ''bool'' then [''true'', ''false''] else [])"

text \<open>
  The loop of \<^verbatim>\<open>pickKfuncArgs\<close> over the parameter types. The inner result is the pair
  \<^verbatim>\<open>(args, ok)\<close>: \<open>None\<close> when some parameter type has no candidate. The candidates of
  a parameter are collected by \<open>argCands\<close>.
\<close>

fun pickKfuncArgsLoop ::
  "string list \<Rightarrow> typedVal list \<Rightarrow> string list \<Rightarrow> rng \<Rightarrow> (string list option \<times> rng) option" where
  "pickKfuncArgsLoop [] pool args r = Some (Some args, r)"
| "pickKfuncArgsLoop (pt # pts) pool args r =
     (let cands = argCands pool (normalizeCType pt) in
      if cands = [] then Some (None, r)
      else do {
        (k, r) \<leftarrow> Intn (length cands) r;
        pickKfuncArgsLoop pts pool (args @ [cands ! k]) r
      })"

definition pickKfuncArgs ::
  "BpfKfunc \<Rightarrow> typedVal list \<Rightarrow> rng \<Rightarrow> (string list option \<times> rng) option" where
  "pickKfuncArgs kf pool r = pickKfuncArgsLoop (kf_ArgTypes kf) pool [] r"

record ctxWriteField =
  wf_accessor :: string
  wf_ctype :: string

record bodyScope =
  sc_pool :: "typedVal list"
  sc_writeFields :: "ctxWriteField list"
  sc_allowIter :: bool
  sc_requireWrite :: bool
  sc_noReturn :: bool
  sc_allowIf :: bool
  sc_depth :: nat
  sc_minStmt :: nat
  sc_maxStmt :: nat

definition ifElseMaxDepth :: nat where
  "ifElseMaxDepth = 2"

definition schedWriteFieldsResolved :: "ctxWriteField list" where
  "schedWriteFieldsResolved =
     map (\<lambda>f. \<lparr>wf_accessor = cf_Accessor f, wf_ctype = cf_CType f\<rparr>) mptcpSchedWriteFields"

definition getSendScope :: bodyScope where
  "getSendScope =
    \<lparr>sc_pool =
       [\<lparr>tv_expr = ''msk'', tv_ctype = ''struct mptcp_sock *''\<rparr>,
        \<lparr>tv_expr = ''msk->first'', tv_ctype = ''struct sock *''\<rparr>,
        \<lparr>tv_expr = ''subflow'', tv_ctype = ''struct mptcp_subflow_context *''\<rparr>],
     sc_writeFields = schedWriteFieldsResolved,
     sc_allowIter = True, sc_requireWrite = True, sc_noReturn = False, sc_allowIf = True,
     sc_depth = 0, sc_minStmt = 3, sc_maxStmt = 8\<rparr>"

definition initReleaseScope :: bodyScope where
  "initReleaseScope =
    \<lparr>sc_pool =
       [\<lparr>tv_expr = ''msk'', tv_ctype = ''struct mptcp_sock *''\<rparr>,
        \<lparr>tv_expr = ''msk->first'', tv_ctype = ''struct sock *''\<rparr>],
     sc_writeFields = [\<lparr>wf_accessor = ''msk->snd_burst'', wf_ctype = ''int''\<rparr>],
     sc_allowIter = False, sc_requireWrite = False, sc_noReturn = True, sc_allowIf = False,
     sc_depth = 0, sc_minStmt = 2, sc_maxStmt = 4\<rparr>"

end
