(* ===== verification/StructOps_Gen.thy ===== *)
theory StructOps_Gen
  imports StructOps_Model
begin

text \<open>
  The generator of struct_ops callback bodies (\<^verbatim>\<open>genStructOpsBody\<close>, \<^verbatim>\<open>genIfElse\<close>,
  \<^verbatim>\<open>genSubflowIter\<close>, \<^verbatim>\<open>genStructOpsProg\<close> of \<^verbatim>\<open>src/prog/brf_structops.go\<close>).

  The local variables of \<^verbatim>\<open>genStructOpsBody\<close> that its closures update (\<^verbatim>\<open>body\<close>, \<^verbatim>\<open>readVars\<close>,
  \<^verbatim>\<open>pool\<close>, the shared counter \<^verbatim>\<open>*varId\<close>) and the choice tape form the record \<open>genState\<close>; each
  statement kind is an operation on it.
\<close>

record genState =
  gs_body :: "StructOpsStmt list"
  gs_readVars :: "(string \<times> string) list"
  gs_pool :: "typedVal list"
  gs_varId :: nat
  gs_rng :: rng

definition localName :: "nat \<Rightarrow> string" where
  "localName v = ''s'' @ fmt_nat v"

definition iterVarName :: "nat \<Rightarrow> string" where
  "iterVarName v = ''sf'' @ fmt_nat v"

text \<open>The closure \<^verbatim>\<open>callableKfuncs\<close>. It draws from the tape: each probe is a full \<^verbatim>\<open>pickKfuncArgs\<close>.\<close>

fun callableKfuncsLoop ::
  "bodyScope \<Rightarrow> typedVal list \<Rightarrow> (nat \<times> BpfKfunc) list \<Rightarrow> nat list \<Rightarrow> rng \<Rightarrow>
   (nat list \<times> rng) option" where
  "callableKfuncsLoop sc pool [] idxs r = Some (idxs, r)"
| "callableKfuncsLoop sc pool ((ki, kf) # kfs) idxs r =
     (if kf_Name kf = ''bpf_mptcp_subflow_ctx'' \<or> kf_Name kf = ''mptcp_subflow_set_scheduled''
      then callableKfuncsLoop sc pool kfs idxs r
      else if sc_noReturn sc \<and> needsNullGuard kf then callableKfuncsLoop sc pool kfs idxs r
      else do {
        (picked, r) \<leftarrow> pickKfuncArgs kf pool r;
        callableKfuncsLoop sc pool kfs (if picked \<noteq> None then idxs @ [ki] else idxs) r
      })"

definition callableKfuncs ::
  "StructOpsProg \<Rightarrow> bodyScope \<Rightarrow> typedVal list \<Rightarrow> rng \<Rightarrow> (nat list \<times> rng) option" where
  "callableKfuncs sop sc pool r = callableKfuncsLoop sc pool (enumerate 0 (Kfuncs sop)) [] r"

definition emitCtxRead :: "bodyScope \<Rightarrow> genState \<Rightarrow> genState option" where
  "emitCtxRead sc gs = do {
     (fi, r) \<leftarrow> Intn (length (sc_writeFields sc)) (gs_rng gs);
     let f = sc_writeFields sc ! fi;
     let v = localName (gs_varId gs);
     Some (gs\<lparr>gs_body := gs_body gs @ [CtxRead fi (wf_accessor f) (wf_ctype f) v (wf_ctype f)],
              gs_readVars := gs_readVars gs @ [(v, wf_ctype f)],
              gs_pool := gs_pool gs @ [\<lparr>tv_expr = v, tv_ctype = normalizeCType (wf_ctype f)\<rparr>],
              gs_varId := Suc (gs_varId gs),
              gs_rng := r\<rparr>)
   }"

definition emitCtxWrite :: "bodyScope \<Rightarrow> genState \<Rightarrow> genState option" where
  "emitCtxWrite sc gs = do {
     (fi, r) \<leftarrow> Intn (length (sc_writeFields sc)) (gs_rng gs);
     let f = sc_writeFields sc ! fi;
     (val, r) \<leftarrow> genStructOpsCtxValue (wf_ctype f) r;
     Some (gs\<lparr>gs_body := gs_body gs @ [CtxWrite fi (wf_accessor f) (wf_ctype f) val],
              gs_rng := r\<rparr>)
   }"

definition emitArith :: "genState \<Rightarrow> genState option" where
  "emitArith gs = do {
     (k, r) \<leftarrow> Intn (length (gs_readVars gs)) (gs_rng gs);
     let src = gs_readVars gs ! k;
     let v = localName (gs_varId gs);
     (o_k, r) \<leftarrow> Intn (length structOpsArithOps) r;
     (c, r) \<leftarrow> Intn (2 ^ 16) r;
     Some (gs\<lparr>gs_body := gs_body gs @
                [Arith v (snd src) (fst src) (structOpsArithOps ! o_k) (int c)],
              gs_readVars := gs_readVars gs @ [(v, snd src)],
              gs_pool := gs_pool gs @ [\<lparr>tv_expr = v, tv_ctype = normalizeCType (snd src)\<rparr>],
              gs_varId := Suc (gs_varId gs),
              gs_rng := r\<rparr>)
   }"

text \<open>
  The statement a picked kfunc gives, by its return: void, KF_RET_NULL pointer (guarded), or a
  value bound to a local (an arithmetic operand when it is a scalar).
\<close>

definition bindKfunc :: "nat \<Rightarrow> BpfKfunc \<Rightarrow> string list \<Rightarrow> genState \<Rightarrow> genState" where
  "bindKfunc ki kf args gs =
     (if kf_RetType kf = [] then
        gs\<lparr>gs_body := gs_body gs @ [KfuncCall ki args [] [] False]\<rparr>
      else
        let v = localName (gs_varId gs);
            tv = \<lparr>tv_expr = v, tv_ctype = normalizeCType (kf_RetType kf)\<rparr> in
        if needsNullGuard kf then
          gs\<lparr>gs_body := gs_body gs @ [KfuncCall ki args v (kf_RetType kf) True],
             gs_pool := gs_pool gs @ [tv],
             gs_varId := Suc (gs_varId gs)\<rparr>
        else
          gs\<lparr>gs_body := gs_body gs @ [KfuncCall ki args v (kf_RetType kf) False],
             gs_readVars :=
               (if scalarCType (kf_RetType kf) then gs_readVars gs @ [(v, kf_RetType kf)]
                else gs_readVars gs),
             gs_pool := gs_pool gs @ [tv],
             gs_varId := Suc (gs_varId gs)\<rparr>)"

definition emitKfuncCall :: "StructOpsProg \<Rightarrow> bodyScope \<Rightarrow> genState \<Rightarrow> genState option" where
  "emitKfuncCall sop sc gs = do {
     (idxs, r) \<leftarrow> callableKfuncs sop sc (gs_pool gs) (gs_rng gs);
     (k, r) \<leftarrow> Intn (length idxs) r;
     let ki = idxs ! k;
     let kf = Kfuncs sop ! ki;
     (picked, r) \<leftarrow> pickKfuncArgs kf (gs_pool gs) r;
     (case picked of
        None \<Rightarrow> emitCtxRead sc (gs\<lparr>gs_rng := r\<rparr>)
      | Some args \<Rightarrow> Some (bindKfunc ki kf args (gs\<lparr>gs_rng := r\<rparr>)))
   }"

definition bodyKinds :: "bodyScope \<Rightarrow> StructOpsStmtKind list" where
  "bodyKinds sc =
     [KCtxRead, KCtxWrite, KArith, KKfuncCall] @
     (if sc_allowIter sc then [KSubflowIter] else []) @
     (if sc_allowIf sc \<and> sc_depth sc < ifElseMaxDepth then [KIfElse] else [])"

text \<open>
  The choice of the kind of statement \<open>i\<close> of \<open>nStmt\<close>: a free draw, the bias of the last
  statement towards a write, and the three fallbacks to a read, in the order of the code.
\<close>

definition biasWrite :: "bodyScope \<Rightarrow> nat \<Rightarrow> nat \<Rightarrow> genState \<Rightarrow> StructOpsStmtKind \<Rightarrow> StructOpsStmtKind"
where
  "biasWrite sc nStmt i gs kind =
     (if sc_requireWrite sc \<and> Suc i = nStmt \<and>
         \<not> (\<exists>st \<in> set (gs_body gs). Kind st = KCtxWrite)
      then KCtxWrite else kind)"

definition operandFallback :: "StructOpsStmtKind \<Rightarrow> genState \<Rightarrow> StructOpsStmtKind \<Rightarrow> StructOpsStmtKind"
where
  "operandFallback needs gs kind = (if kind = needs \<and> gs_readVars gs = [] then KCtxRead else kind)"

definition kfuncFallback ::
  "StructOpsProg \<Rightarrow> bodyScope \<Rightarrow> genState \<Rightarrow> StructOpsStmtKind \<Rightarrow> rng \<Rightarrow>
   (StructOpsStmtKind \<times> rng) option"
where
  "kfuncFallback sop sc gs kind r =
     (if kind = KKfuncCall then do {
        (idxs, r) \<leftarrow> callableKfuncs sop sc (gs_pool gs) r;
        Some (if idxs = [] then KCtxRead else kind, r)
      } else Some (kind, r))"

definition chooseKind ::
  "StructOpsProg \<Rightarrow> bodyScope \<Rightarrow> nat \<Rightarrow> nat \<Rightarrow> genState \<Rightarrow> (StructOpsStmtKind \<times> rng) option" where
  "chooseKind sop sc nStmt i gs = do {
     (k, r) \<leftarrow> Intn (length (bodyKinds sc)) (gs_rng gs);
     let kind = operandFallback KArith gs (biasWrite sc nStmt i gs (bodyKinds sc ! k));
     (kind, r) \<leftarrow> kfuncFallback sop sc gs kind r;
     Some (operandFallback KIfElse gs kind, r)
   }"

definition branchScope :: "bodyScope \<Rightarrow> typedVal list \<Rightarrow> bodyScope" where
  "branchScope sc seedPool =
     \<lparr>sc_pool = seedPool, sc_writeFields = sc_writeFields sc, sc_allowIter = sc_allowIter sc,
      sc_requireWrite = False, sc_noReturn = True, sc_allowIf = sc_allowIf sc,
      sc_depth = Suc (sc_depth sc), sc_minStmt = 1, sc_maxStmt = 3\<rparr>"

definition loopScope :: "string \<Rightarrow> bodyScope" where
  "loopScope sfVar =
     \<lparr>sc_pool =
        [\<lparr>tv_expr = ''msk'', tv_ctype = ''struct mptcp_sock *''\<rparr>,
         \<lparr>tv_expr = ''msk->first'', tv_ctype = ''struct sock *''\<rparr>,
         \<lparr>tv_expr = sfVar, tv_ctype = ''struct mptcp_subflow_context *''\<rparr>],
      sc_writeFields =
        [\<lparr>wf_accessor = ''msk->snd_burst'', wf_ctype = ''int''\<rparr>,
         \<lparr>wf_accessor = sfVar @ ''->avg_pacing_rate'', wf_ctype = ''unsigned long''\<rparr>],
      sc_allowIter = False, sc_requireWrite = False, sc_noReturn = True, sc_allowIf = False,
      sc_depth = 0, sc_minStmt = 0, sc_maxStmt = 3\<rparr>"

definition stmtSpan :: "bodyScope \<Rightarrow> nat" where
  "stmtSpan sc = (let span = Suc (sc_maxStmt sc) - sc_minStmt sc in if span < 1 then 1 else span)"

definition initGenState :: "bodyScope \<Rightarrow> nat \<Rightarrow> rng \<Rightarrow> genState" where
  "initGenState sc varId r =
     \<lparr>gs_body = [], gs_readVars = [], gs_pool = sc_pool sc, gs_varId = varId, gs_rng = r\<rparr>"

text \<open>
  How much nesting a scope still admits: two per level of \<open>if\<close>/\<open>else\<close> left, one for an
  iterator. A branch scope admits less than the scope that opened it, a loop scope none.
\<close>

definition scopeRank :: "bodyScope \<Rightarrow> nat" where
  "scopeRank sc =
     (if sc_allowIf sc then 2 * (ifElseMaxDepth - sc_depth sc) else 0) +
     (if sc_allowIter sc then 1 else 0)"

lemma bodyKinds_straight [simp]:
  "KCtxRead \<in> set (bodyKinds sc)" "KCtxWrite \<in> set (bodyKinds sc)"
  by (simp_all add: bodyKinds_def)

lemma kfuncFallback_in:
  "kfuncFallback sop sc gs kind r = Some (kind', r') \<Longrightarrow> kind \<in> set (bodyKinds sc) \<Longrightarrow>
   kind' \<in> set (bodyKinds sc)"
  by (auto simp: kfuncFallback_def Option.bind_eq_Some_conv split: if_splits)

lemma chooseKind_in_bodyKinds:
  assumes "chooseKind sop sc nStmt i gs = Some (kind, r)"
  shows "kind \<in> set (bodyKinds sc)"
proof -
  from assms obtain k r0 kind1 r1 where
      k: "Intn (length (bodyKinds sc)) (gs_rng gs) = Some (k, r0)"
    and f: "kfuncFallback sop sc gs
              (operandFallback KArith gs (biasWrite sc nStmt i gs (bodyKinds sc ! k))) r0
            = Some (kind1, r1)"
    and kind: "kind = operandFallback KIfElse gs kind1"
    by (auto simp: chooseKind_def Let_def Option.bind_eq_Some_conv)
  from k have "operandFallback KArith gs (biasWrite sc nStmt i gs (bodyKinds sc ! k))
      \<in> set (bodyKinds sc)"
    by (auto simp: operandFallback_def biasWrite_def dest: nth_in_set_Intn)
  with f have "kind1 \<in> set (bodyKinds sc)" by (rule kfuncFallback_in)
  with kind show ?thesis by (simp add: operandFallback_def)
qed

lemma scopeRank_branch:
  assumes "KIfElse \<in> set (bodyKinds sc)"
  shows "scopeRank (branchScope sc pool) < scopeRank sc"
  using assms by (auto simp: bodyKinds_def scopeRank_def branchScope_def split: if_splits)

lemma scopeRank_iter: "KSubflowIter \<in> set (bodyKinds sc) \<Longrightarrow> 0 < scopeRank sc"
  by (auto simp: bodyKinds_def scopeRank_def split: if_splits)

lemma scopeRank_loop [simp]: "scopeRank (loopScope v) = 0"
  by (simp add: scopeRank_def loopScope_def)

text \<open>
  The four generators call each other. \<open>genBodyLoop\<close> is the statement loop of
  \<^verbatim>\<open>genStructOpsBody\<close>.
\<close>

function genStructOpsBody ::
    "StructOpsProg \<Rightarrow> bodyScope \<Rightarrow> nat \<Rightarrow> rng \<Rightarrow> (StructOpsStmt list \<times> nat \<times> rng) option"
  and genBodyLoop ::
    "StructOpsProg \<Rightarrow> bodyScope \<Rightarrow> nat \<Rightarrow> nat \<Rightarrow> genState \<Rightarrow> genState option"
  and genIfElse ::
    "StructOpsProg \<Rightarrow> bodyScope \<Rightarrow> nat \<Rightarrow> typedVal list \<Rightarrow> string list \<Rightarrow> rng \<Rightarrow>
     (StructOpsStmt \<times> nat \<times> rng) option"
  and genSubflowIter ::
    "StructOpsProg \<Rightarrow> nat \<Rightarrow> rng \<Rightarrow> (StructOpsStmt \<times> nat \<times> rng) option"
where
  "genStructOpsBody sop sc varId r = do {
     (k, r) \<leftarrow> Intn (stmtSpan sc) r;
     gs \<leftarrow> genBodyLoop sop sc (sc_minStmt sc + k) 0 (initGenState sc varId r);
     Some (gs_body gs, gs_varId gs, gs_rng gs)
   }"
| "genBodyLoop sop sc nStmt i gs =
     (if i < nStmt then do {
        (kind, r) \<leftarrow> chooseKind sop sc nStmt i gs;
        let gs = gs\<lparr>gs_rng := r\<rparr>;
        gs \<leftarrow>
          (case kind of
             KCtxRead \<Rightarrow> emitCtxRead sc gs
           | KCtxWrite \<Rightarrow> emitCtxWrite sc gs
           | KArith \<Rightarrow> emitArith gs
           | KKfuncCall \<Rightarrow> emitKfuncCall sop sc gs
           | KSubflowIter \<Rightarrow> do {
               (st, varId, r) \<leftarrow> genSubflowIter sop (gs_varId gs) (gs_rng gs);
               Some (gs\<lparr>gs_body := gs_body gs @ [st], gs_varId := varId, gs_rng := r\<rparr>)
             }
           | KIfElse \<Rightarrow> do {
               (st, varId, r) \<leftarrow>
                 genIfElse sop sc (gs_varId gs) (gs_pool gs) (map fst (gs_readVars gs)) (gs_rng gs);
               Some (gs\<lparr>gs_body := gs_body gs @ [st], gs_varId := varId, gs_rng := r\<rparr>)
             });
        genBodyLoop sop sc nStmt (Suc i) gs
      } else Some gs)"
| "genIfElse sop sc varId seedPool condNames r = do {
     (c, r) \<leftarrow> Intn (length condNames) r;
     (o_k, r) \<leftarrow> Intn (length structOpsCondOps) r;
     let condOp = structOpsCondOps ! o_k;
     (condVal, r) \<leftarrow>
       (if condOp \<noteq> [] then do { (v, r) \<leftarrow> Intn (2 ^ 16) r; Some (int v, r) } else Some (0, r));
     (ifBody, varId, r) \<leftarrow> genStructOpsBody sop (branchScope sc seedPool) varId r;
     (withElse, r) \<leftarrow> bin r;
     (elseBody, varId, r) \<leftarrow>
       (if withElse then genStructOpsBody sop (branchScope sc seedPool) varId r
        else Some ([], varId, r));
     Some (IfElse (condNames ! c) condOp condVal ifBody elseBody, varId, r)
   }"
| "genSubflowIter sop varId r = do {
     let sfVar = iterVarName varId;
     (loopBody, varId', r) \<leftarrow> genStructOpsBody sop (loopScope sfVar) (Suc varId) r;
     Some (SubflowIter varId sfVar ''struct mptcp_subflow_context *'' ''(struct sock *)msk'' loopBody,
           varId', r)
   }"
  by pat_completeness auto
termination
proof (relation "inv_image (less_than <*lex*> less_than <*lex*> less_than)
    (\<lambda>x. case x of
       Inl (Inl (sop, sc, varId, r)) \<Rightarrow> (scopeRank sc, 2, 0)
     | Inl (Inr (sop, sc, nStmt, i, gs)) \<Rightarrow> (scopeRank sc, 1, nStmt - i)
     | Inr (Inl (sop, sc, varId, seedPool, condNames, r)) \<Rightarrow>
         (scopeRank (branchScope sc seedPool), 3, 0)
     | Inr (Inr (sop, varId, r)) \<Rightarrow> (0, 3, 0))", goal_cases)
qed (auto dest!: chooseKind_in_bodyKinds intro: scopeRank_branch scopeRank_iter)

declare genStructOpsBody.simps [simp del] genBodyLoop.simps [simp del]
  genIfElse.simps [simp del] genSubflowIter.simps [simp del]

definition genSchedName :: "rng \<Rightarrow> (string \<times> rng) option" where
  "genSchedName r = do {
     (k, r) \<leftarrow> Intn (2 ^ 24) r;
     let name = ''brf_'' @ fmt_x k;
     let name = (if length name \<ge> schedNameMax then take (schedNameMax - 1) name else name);
     Some (name, r)
   }"

definition genStructOpsProg :: "rng \<Rightarrow> (StructOpsProg \<times> rng) option" where
  "genStructOpsProg r = do {
     let sop = \<lparr>SchedName = [], WriteFields = mptcpSchedWriteFields, Kfuncs = mptcpSchedKfuncs,
                IterKfuncs = mptcpSubflowIterKfuncs, GetSendBody = [], InitBody = [],
                ReleaseBody = []\<rparr>;
     (name, r) \<leftarrow> genSchedName r;
     let sop = sop\<lparr>SchedName := name\<rparr>;
     (getSend, varId, r) \<leftarrow> genStructOpsBody sop getSendScope 0 r;
     let sop = sop\<lparr>GetSendBody := getSend\<rparr>;
     (init, varId, r) \<leftarrow> genStructOpsBody sop initReleaseScope varId r;
     let sop = sop\<lparr>InitBody := init\<rparr>;
     (release, varId, r) \<leftarrow> genStructOpsBody sop initReleaseScope varId r;
     Some (sop\<lparr>ReleaseBody := release\<rparr>, r)
   }"

subsection \<open>One statement, and the shape of a run\<close>

text \<open>The body of the statement loop, once the kind is chosen.\<close>

definition genStmt ::
  "StructOpsProg \<Rightarrow> bodyScope \<Rightarrow> StructOpsStmtKind \<Rightarrow> genState \<Rightarrow> genState option" where
  "genStmt sop sc kind gs =
     (case kind of
        KCtxRead \<Rightarrow> emitCtxRead sc gs
      | KCtxWrite \<Rightarrow> emitCtxWrite sc gs
      | KArith \<Rightarrow> emitArith gs
      | KKfuncCall \<Rightarrow> emitKfuncCall sop sc gs
      | KSubflowIter \<Rightarrow> do {
          (st, varId, r) \<leftarrow> genSubflowIter sop (gs_varId gs) (gs_rng gs);
          Some (gs\<lparr>gs_body := gs_body gs @ [st], gs_varId := varId, gs_rng := r\<rparr>)
        }
      | KIfElse \<Rightarrow> do {
          (st, varId, r) \<leftarrow>
            genIfElse sop sc (gs_varId gs) (gs_pool gs) (map fst (gs_readVars gs)) (gs_rng gs);
          Some (gs\<lparr>gs_body := gs_body gs @ [st], gs_varId := varId, gs_rng := r\<rparr>)
        })"

lemma genBodyLoop_done: "\<not> i < nStmt \<Longrightarrow> genBodyLoop sop sc nStmt i gs = Some gs"
  by (subst genBodyLoop.simps) simp

lemma genBodyLoop_next:
  "i < nStmt \<Longrightarrow> genBodyLoop sop sc nStmt i gs =
     do { (kind, r) \<leftarrow> chooseKind sop sc nStmt i gs;
          gs \<leftarrow> genStmt sop sc kind (gs\<lparr>gs_rng := r\<rparr>);
          genBodyLoop sop sc nStmt (Suc i) gs }"
  by (subst genBodyLoop.simps) (simp add: genStmt_def Let_def cong: StructOpsStmtKind.case_cong)

lemma genBodyLoop_nextE:
  assumes "genBodyLoop sop sc nStmt i gs = Some gs''" and "i < nStmt"
  obtains kind r gs' where "chooseKind sop sc nStmt i gs = Some (kind, r)"
    and "genStmt sop sc kind (gs\<lparr>gs_rng := r\<rparr>) = Some gs'"
    and "genBodyLoop sop sc nStmt (Suc i) gs' = Some gs''"
  using assms by (auto simp: genBodyLoop_next Option.bind_eq_Some_conv)

lemma genStructOpsBodyE:
  assumes "genStructOpsBody sop sc v r = Some (body, v', r')"
  obtains k r0 gs where "Intn (stmtSpan sc) r = Some (k, r0)"
    and "genBodyLoop sop sc (sc_minStmt sc + k) 0 (initGenState sc v r0) = Some gs"
    and "body = gs_body gs" and "v' = gs_varId gs" and "r' = gs_rng gs"
  using assms by (auto simp: genStructOpsBody.simps Option.bind_eq_Some_conv)

lemma genSubflowIterE:
  assumes "genSubflowIter sop v r = Some (st, v', r')"
  obtains body where
    "genStructOpsBody sop (loopScope (iterVarName v)) (Suc v) r = Some (body, v', r')"
    and "st = SubflowIter v (iterVarName v) ''struct mptcp_subflow_context *''
                ''(struct sock *)msk'' body"
  using assms by (auto simp: genSubflowIter.simps Let_def Option.bind_eq_Some_conv)

lemma genIfElseE:
  assumes "genIfElse sop sc v pool names r = Some (st, v', r')"
  obtains cv op val ifBody elseBody r1 v1 r2 r3
  where "st = IfElse cv op val ifBody elseBody" and "cv \<in> set names"
    and "op \<in> set structOpsCondOps" and "0 \<le> val" and "val < 2 ^ 16"
    and "genStructOpsBody sop (branchScope sc pool) v r1 = Some (ifBody, v1, r2)"
    and "elseBody = [] \<and> v' = v1 \<or>
         genStructOpsBody sop (branchScope sc pool) v1 r3 = Some (elseBody, v', r')"
proof -
  from assms obtain c ra o_k r0 val r1 ifBody v1 r2 b r3 elseBody v2 r4 where
      c: "Intn (length names) r = Some (c, ra)"
    and op: "Intn (length structOpsCondOps) ra = Some (o_k, r0)"
    and val: "(if structOpsCondOps ! o_k \<noteq> [] then do { (v, r) \<leftarrow> Intn (2 ^ 16) r0; Some (int v, r) }
               else Some (0, r0)) = Some (val, r1)"
    and ifB: "genStructOpsBody sop (branchScope sc pool) v r1 = Some (ifBody, v1, r2)"
    and "bin r2 = Some (b, r3)"
    and elseB: "(if b then genStructOpsBody sop (branchScope sc pool) v1 r3
                 else Some ([], v1, r3)) = Some (elseBody, v2, r4)"
    and st: "Some (IfElse (names ! c) (structOpsCondOps ! o_k) val ifBody elseBody, v2, r4)
             = Some (st, v', r')"
    unfolding genIfElse.simps Let_def
    by (elim bind_tripleE bind_pairE) (rule that, assumption+)
  have range: "0 \<le> val" "val < 2 ^ 16"
    using val by (auto simp: Option.bind_eq_Some_conv dest: Intn_Some_lt split: if_splits)
  have "elseBody = [] \<and> v' = v1 \<or>
      genStructOpsBody sop (branchScope sc pool) v1 r3 = Some (elseBody, v', r')"
    using elseB st by (auto split: if_splits)
  with st show ?thesis
    using that [OF _ _ _ range ifB] nth_in_set_Intn [OF c] nth_in_set_Intn [OF op] by blast
qed

end
