(* ===== verification/StructOps_Inv.thy ===== *)
theory StructOps_Inv
  imports StructOps_Gen
begin

text \<open>
  The induction over the body generator, done once. The locale \<open>body_invariant\<close> is the interface
  between the generator and a property of generated bodies: a loop invariant \<open>Inv\<close>, a
  postcondition \<open>Post\<close> of a finished body, an admissibility condition \<open>Ok\<close> on the scopes and the
  laws that every statement operation keeps the invariant. What follows for a whole body, with
  its nested branches and loops, is proved inside.
\<close>

locale body_invariant =
  fixes sop :: StructOpsProg
    and Ok :: "bodyScope \<Rightarrow> nat \<Rightarrow> bool"
    and Inv :: "bodyScope \<Rightarrow> nat \<Rightarrow> genState \<Rightarrow> bool"
    and Post :: "bodyScope \<Rightarrow> nat \<Rightarrow> StructOpsStmt list \<Rightarrow> nat \<Rightarrow> bool"
  assumes init: "Ok sc v \<Longrightarrow> Inv sc v (initGenState sc v r)"
    and rng: "Inv sc v gs \<Longrightarrow> Inv sc v (gs\<lparr>gs_rng := r\<rparr>)"
    and ctx_read: "Inv sc v gs \<Longrightarrow> emitCtxRead sc gs = Some gs' \<Longrightarrow> Inv sc v gs'"
    and ctx_write: "Inv sc v gs \<Longrightarrow> emitCtxWrite sc gs = Some gs' \<Longrightarrow> Inv sc v gs'"
    and arith: "Inv sc v gs \<Longrightarrow> emitArith gs = Some gs' \<Longrightarrow> Inv sc v gs'"
    and kfunc: "Inv sc v gs \<Longrightarrow> emitKfuncCall sop sc gs = Some gs' \<Longrightarrow> Inv sc v gs'"
    and iter_ok: "Inv sc v gs \<Longrightarrow> KSubflowIter \<in> set (bodyKinds sc) \<Longrightarrow>
      Ok (loopScope (iterVarName (gs_varId gs))) (Suc (gs_varId gs))"
    and iter: "Inv sc v gs \<Longrightarrow> KSubflowIter \<in> set (bodyKinds sc) \<Longrightarrow> n = gs_varId gs \<Longrightarrow>
      Post (loopScope (iterVarName n)) (Suc n) body n' \<Longrightarrow>
      Inv sc v (gs\<lparr>gs_body := gs_body gs @
          [SubflowIter n (iterVarName n) ''struct mptcp_subflow_context *''
             ''(struct sock *)msk'' body], gs_varId := n'\<rparr>)"
    and if_ok: "Inv sc v gs \<Longrightarrow> KIfElse \<in> set (bodyKinds sc) \<Longrightarrow>
      Ok (branchScope sc (gs_pool gs)) (gs_varId gs)"
    and if_else_ok: "Inv sc v gs \<Longrightarrow> KIfElse \<in> set (bodyKinds sc) \<Longrightarrow>
      Post (branchScope sc (gs_pool gs)) (gs_varId gs) ifBody n' \<Longrightarrow>
      Ok (branchScope sc (gs_pool gs)) n'"
    and if_then: "Inv sc v gs \<Longrightarrow> KIfElse \<in> set (bodyKinds sc) \<Longrightarrow>
      cv \<in> fst ` set (gs_readVars gs) \<Longrightarrow> op \<in> set structOpsCondOps \<Longrightarrow>
      Post (branchScope sc (gs_pool gs)) (gs_varId gs) ifBody n' \<Longrightarrow>
      Inv sc v (gs\<lparr>gs_body := gs_body gs @ [IfElse cv op val ifBody []], gs_varId := n'\<rparr>)"
    and if_else: "Inv sc v gs \<Longrightarrow> KIfElse \<in> set (bodyKinds sc) \<Longrightarrow>
      cv \<in> fst ` set (gs_readVars gs) \<Longrightarrow> op \<in> set structOpsCondOps \<Longrightarrow>
      Post (branchScope sc (gs_pool gs)) (gs_varId gs) ifBody n' \<Longrightarrow>
      Post (branchScope sc (gs_pool gs)) n' elseBody n'' \<Longrightarrow>
      Inv sc v (gs\<lparr>gs_body := gs_body gs @ [IfElse cv op val ifBody elseBody], gs_varId := n''\<rparr>)"
    and finish: "Inv sc v gs \<Longrightarrow> sc_minStmt sc \<le> length (gs_body gs) \<Longrightarrow>
      length (gs_body gs) < sc_minStmt sc + stmtSpan sc \<Longrightarrow> Post sc v (gs_body gs) (gs_varId gs)"
begin

definition body_correct :: "bodyScope \<Rightarrow> bool" where
  "body_correct sc \<longleftrightarrow>
     (\<forall>v r body v' r'. Ok sc v \<longrightarrow> genStructOpsBody sop sc v r = Some (body, v', r') \<longrightarrow>
        Post sc v body v')"

lemma body_correctD:
  "body_correct sc \<Longrightarrow> Ok sc v \<Longrightarrow> genStructOpsBody sop sc v r = Some (body, v', r') \<Longrightarrow>
   Post sc v body v'"
  unfolding body_correct_def by blast

lemma gen_iter:
  assumes inv: "Inv sc v gs" and kind: "KSubflowIter \<in> set (bodyKinds sc)"
    and IH: "\<And>sc'. scopeRank sc' < scopeRank sc \<Longrightarrow> body_correct sc'"
    and gen: "genStmt sop sc KSubflowIter gs = Some gs'"
  shows "Inv sc v gs'"
proof -
  let ?n = "gs_varId gs"
  from gen obtain st n' r where st: "genSubflowIter sop ?n (gs_rng gs) = Some (st, n', r)"
    and gs': "gs' = gs\<lparr>gs_body := gs_body gs @ [st], gs_varId := n', gs_rng := r\<rparr>"
    by (auto simp: genStmt_def Option.bind_eq_Some_conv)
  from st obtain body where
      body: "genStructOpsBody sop (loopScope (iterVarName ?n)) (Suc ?n) (gs_rng gs) = Some (body, n', r)"
    and st_eq: "st = SubflowIter ?n (iterVarName ?n) ''struct mptcp_subflow_context *''
                       ''(struct sock *)msk'' body"
    by (rule genSubflowIterE)
  have "body_correct (loopScope (iterVarName ?n))"
    using scopeRank_iter [OF kind] by (intro IH) simp
  then have "Post (loopScope (iterVarName ?n)) (Suc ?n) body n'"
    using iter_ok [OF inv kind] body by (rule body_correctD)
  from rng [OF iter [OF inv kind refl this], of r] gs' st_eq show ?thesis by simp
qed

lemma gen_if:
  assumes inv: "Inv sc v gs" and kind: "KIfElse \<in> set (bodyKinds sc)"
    and IH: "\<And>sc'. scopeRank sc' < scopeRank sc \<Longrightarrow> body_correct sc'"
    and gen: "genStmt sop sc KIfElse gs = Some gs'"
  shows "Inv sc v gs'"
proof -
  let ?br = "branchScope sc (gs_pool gs)"
  have corr: "body_correct ?br" by (rule IH [OF scopeRank_branch [OF kind]])
  from gen obtain st n' r where
      st: "genIfElse sop sc (gs_varId gs) (gs_pool gs) (map fst (gs_readVars gs)) (gs_rng gs)
           = Some (st, n', r)"
    and gs': "gs' = gs\<lparr>gs_body := gs_body gs @ [st], gs_varId := n', gs_rng := r\<rparr>"
    by (auto simp: genStmt_def Option.bind_eq_Some_conv)
  from st obtain cv op val ifBody elseBody r1 n1 r2 r3 where
      st_eq: "st = IfElse cv op val ifBody elseBody"
    and cv: "cv \<in> set (map fst (gs_readVars gs))" and op: "op \<in> set structOpsCondOps"
    and ifB: "genStructOpsBody sop ?br (gs_varId gs) r1 = Some (ifBody, n1, r2)"
    and elseB: "elseBody = [] \<and> n' = n1 \<or>
                genStructOpsBody sop ?br n1 r3 = Some (elseBody, n', r)"
    by (rule genIfElseE)
  from corr if_ok [OF inv kind] ifB have post: "Post ?br (gs_varId gs) ifBody n1"
    by (rule body_correctD)
  from cv have cv': "cv \<in> fst ` set (gs_readVars gs)" by simp
  from elseB have "Inv sc v (gs\<lparr>gs_body := gs_body gs @ [IfElse cv op val ifBody elseBody],
      gs_varId := n'\<rparr>)"
  proof
    assume "elseBody = [] \<and> n' = n1"
    with if_then [OF inv kind cv' op post] show ?thesis by simp
  next
    assume "genStructOpsBody sop ?br n1 r3 = Some (elseBody, n', r)"
    then have "Post ?br n1 elseBody n'"
      using body_correctD [OF corr if_else_ok [OF inv kind post]] by blast
    then show ?thesis by (rule if_else [OF inv kind cv' op post])
  qed
  from rng [OF this, of r] gs' st_eq show ?thesis by simp
qed

lemma gen_stmt:
  assumes "Inv sc v gs" and "kind \<in> set (bodyKinds sc)"
    and "\<And>sc'. scopeRank sc' < scopeRank sc \<Longrightarrow> body_correct sc'"
    and "genStmt sop sc kind gs = Some gs'"
  shows "Inv sc v gs'"
  using assms
  by (cases kind)
    (auto simp: genStmt_def [of sop sc KCtxRead] genStmt_def [of sop sc KCtxWrite]
      genStmt_def [of sop sc KArith] genStmt_def [of sop sc KKfuncCall]
      intro: gen_iter gen_if ctx_read ctx_write arith kfunc)

lemma gen_loop:
  assumes IH: "\<And>sc'. scopeRank sc' < scopeRank sc \<Longrightarrow> body_correct sc'"
  shows "Inv sc v gs \<Longrightarrow> genBodyLoop sop sc nStmt i gs = Some gs' \<Longrightarrow> Inv sc v gs'"
proof (induction "nStmt - i" arbitrary: i gs)
  case 0
  then show ?case by (simp add: genBodyLoop_done)
next
  case (Suc n)
  then have "i < nStmt" by simp
  with Suc.prems(2) obtain kind r gs1 where
      kind: "chooseKind sop sc nStmt i gs = Some (kind, r)"
    and st: "genStmt sop sc kind (gs\<lparr>gs_rng := r\<rparr>) = Some gs1"
    and rest: "genBodyLoop sop sc nStmt (Suc i) gs1 = Some gs'"
    by (rule genBodyLoop_nextE)
  have "Inv sc v gs1"
    using rng [OF Suc.prems(1)] chooseKind_in_bodyKinds [OF kind] IH st by (rule gen_stmt)
  moreover have "n = nStmt - Suc i" using Suc.hyps(2) by simp
  ultimately show ?case using Suc.hyps(1) rest by blast
qed

end

subsection \<open>Every pass of the loop appends one statement\<close>

lemma length_emit:
  "emitCtxRead sc gs = Some gs' \<Longrightarrow> length (gs_body gs') = Suc (length (gs_body gs))"
  "emitCtxWrite sc gs = Some gs' \<Longrightarrow> length (gs_body gs') = Suc (length (gs_body gs))"
  "emitArith gs = Some gs' \<Longrightarrow> length (gs_body gs') = Suc (length (gs_body gs))"
  by (auto simp: emitCtxRead_def emitCtxWrite_def emitArith_def Let_def Option.bind_eq_Some_conv)

lemma length_bindKfunc [simp]:
  "length (gs_body (bindKfunc ki kf args gs)) = Suc (length (gs_body gs))"
  by (simp add: bindKfunc_def Let_def)

lemma length_emitKfuncCall:
  "emitKfuncCall sop sc gs = Some gs' \<Longrightarrow> length (gs_body gs') = Suc (length (gs_body gs))"
  by (auto simp: emitKfuncCall_def Let_def Option.bind_eq_Some_conv dest!: length_emit
      split: option.splits)

lemma length_genStmt:
  "genStmt sop sc kind gs = Some gs' \<Longrightarrow> length (gs_body gs') = Suc (length (gs_body gs))"
  by (cases kind)
    (auto simp: genStmt_def length_emitKfuncCall length_emit Option.bind_eq_Some_conv)

lemma length_genBodyLoop:
  "genBodyLoop sop sc nStmt i gs = Some gs' \<Longrightarrow> i = length (gs_body gs) \<Longrightarrow> i \<le> nStmt \<Longrightarrow>
   length (gs_body gs') = nStmt"
proof (induction "nStmt - i" arbitrary: i gs)
  case 0
  then show ?case by (simp add: genBodyLoop_done)
next
  case (Suc n)
  then have "i < nStmt" by simp
  with Suc.prems(1) obtain kind r gs1 where
      st: "genStmt sop sc kind (gs\<lparr>gs_rng := r\<rparr>) = Some gs1"
    and rest: "genBodyLoop sop sc nStmt (Suc i) gs1 = Some gs'"
    by (rule genBodyLoop_nextE)
  show ?case
    using rest Suc.hyps(2) Suc.prems(2) \<open>i < nStmt\<close> length_genStmt [OF st]
    by (intro Suc.hyps(1) [OF _ rest]) auto
qed

context body_invariant begin

lemma body_correct_all: "body_correct sc"
proof (induction "scopeRank sc" arbitrary: sc rule: less_induct)
  case less
  show ?case
    unfolding body_correct_def
  proof (intro allI impI)
    fix v r body v' r'
    assume ok: "Ok sc v" and gen: "genStructOpsBody sop sc v r = Some (body, v', r')"
    from gen obtain k r0 gs where k: "Intn (stmtSpan sc) r = Some (k, r0)"
      and loop: "genBodyLoop sop sc (sc_minStmt sc + k) 0 (initGenState sc v r0) = Some gs"
      and res: "body = gs_body gs" "v' = gs_varId gs"
      by (rule genStructOpsBodyE)
    from less init [OF ok] loop have inv: "Inv sc v gs" by (rule gen_loop)
    have "length (gs_body gs) = sc_minStmt sc + k"
      using loop by (rule length_genBodyLoop) (simp_all add: initGenState_def)
    with finish [OF inv] Intn_Some_lt [OF k] res show "Post sc v body v'" by simp
  qed
qed

theorem gen_body:
  "Ok sc v \<Longrightarrow> genStructOpsBody sop sc v r = Some (body, v', r') \<Longrightarrow> Post sc v body v'"
  by (rule body_correctD [OF body_correct_all])

end

end
