(* ===== verification/StructOps_Total.thy ===== *)
theory StructOps_Total
  imports StructOps_Inv
begin

text \<open>
  The body generator never panics: every index it computes is in range on every tape. The kfuncs
  \<^verbatim>\<open>callableKfuncs\<close> reports depend on the pool only, not on the draws made while probing, so the
  second probe of a statement finds what the first one found.
\<close>

definition satisfiable :: "BpfKfunc \<Rightarrow> typedVal list \<Rightarrow> bool" where
  "satisfiable kf pool = list_all (\<lambda>pt. argCands pool (normalizeCType pt) \<noteq> []) (kf_ArgTypes kf)"

lemma pickKfuncArgsLoop_total:
  "\<exists>res r'. pickKfuncArgsLoop pts pool args r = Some (res, r') \<and>
     (res \<noteq> None \<longleftrightarrow> list_all (\<lambda>pt. argCands pool (normalizeCType pt) \<noteq> []) pts)"
proof (induction pts arbitrary: args r)
  case (Cons pt pts)
  let ?cands = "argCands pool (normalizeCType pt)"
  show ?case
  proof (cases "?cands = []")
    case False
    then obtain k r' where "Intn (length ?cands) r = Some (k, r')"
      using Intn_total [of "length ?cands" r] by auto
    with Cons.IH [of "args @ [?cands ! k]" r'] False show ?thesis by (auto simp: Let_def)
  qed simp
qed simp

lemma pickKfuncArgs_total:
  "\<exists>res r'. pickKfuncArgs kf pool r = Some (res, r') \<and> (res \<noteq> None \<longleftrightarrow> satisfiable kf pool)"
  using pickKfuncArgsLoop_total by (simp add: pickKfuncArgs_def satisfiable_def)

definition kfuncCallable :: "bodyScope \<Rightarrow> typedVal list \<Rightarrow> BpfKfunc \<Rightarrow> bool" where
  "kfuncCallable sc pool kf \<longleftrightarrow>
     kf_Name kf \<noteq> ''bpf_mptcp_subflow_ctx'' \<and> kf_Name kf \<noteq> ''mptcp_subflow_set_scheduled'' \<and>
     \<not> (sc_noReturn sc \<and> needsNullGuard kf) \<and> satisfiable kf pool"

lemma callableKfuncsLoop_total:
  "\<exists>r'. callableKfuncsLoop sc pool kfs idxs r =
     Some (idxs @ map fst (filter (\<lambda>x. kfuncCallable sc pool (snd x)) kfs), r')"
proof (induction kfs arbitrary: idxs r)
  case (Cons x kfs)
  obtain ki kf where x: "x = (ki, kf)" by (cases x)
  obtain res r1 where "pickKfuncArgs kf pool r = Some (res, r1)"
    and "res \<noteq> None \<longleftrightarrow> satisfiable kf pool"
    using pickKfuncArgs_total [of kf pool r] by blast
  with Cons.IH [of "if res \<noteq> None then idxs @ [ki] else idxs" r1] Cons.IH [of idxs r] x
  show ?case by (auto simp: kfuncCallable_def)
qed simp

definition callableIdxs :: "StructOpsProg \<Rightarrow> bodyScope \<Rightarrow> typedVal list \<Rightarrow> nat list" where
  "callableIdxs sop sc pool =
     map fst (filter (\<lambda>x. kfuncCallable sc pool (snd x)) (enumerate 0 (Kfuncs sop)))"

lemma callableKfuncs_total:
  "\<exists>r'. callableKfuncs sop sc pool r = Some (callableIdxs sop sc pool, r')"
  using callableKfuncsLoop_total [of sc pool "enumerate 0 (Kfuncs sop)" "[]" r]
  by (simp add: callableKfuncs_def callableIdxs_def)

lemma emitCtxRead_total:
  "sc_writeFields sc \<noteq> [] \<Longrightarrow> \<exists>gs'. emitCtxRead sc gs = Some gs'"
  using Intn_total [of "length (sc_writeFields sc)" "gs_rng gs"]
  by (auto simp: emitCtxRead_def Let_def)

lemma genStructOpsCtxValue_total: "\<exists>v r'. genStructOpsCtxValue ct r = Some (v, r')"
  using Intn_total [of "2 ^ 32" r] Intn_total [of "2 ^ 31" r]
  by (auto simp: genStructOpsCtxValue_def)

lemma emitCtxWrite_total:
  assumes "sc_writeFields sc \<noteq> []"
  shows "\<exists>gs'. emitCtxWrite sc gs = Some gs'"
proof -
  obtain fi r where "Intn (length (sc_writeFields sc)) (gs_rng gs) = Some (fi, r)"
    using Intn_total [of "length (sc_writeFields sc)" "gs_rng gs"] assms by auto
  with genStructOpsCtxValue_total [of "wf_ctype (sc_writeFields sc ! fi)" r] show ?thesis
    by (auto simp: emitCtxWrite_def Let_def)
qed

lemma emitArith_total:
  assumes "gs_readVars gs \<noteq> []"
  shows "\<exists>gs'. emitArith gs = Some gs'"
proof -
  obtain k r where "Intn (length (gs_readVars gs)) (gs_rng gs) = Some (k, r)"
    using Intn_total [of "length (gs_readVars gs)" "gs_rng gs"] assms by auto
  moreover obtain o_k r1 where "Intn (length structOpsArithOps) r = Some (o_k, r1)"
    using Intn_total [of "length structOpsArithOps" r] by (auto simp: structOpsArithOps_def)
  moreover obtain c r2 where "Intn (2 ^ 16) r1 = Some (c, r2)"
    using Intn_total [of "2 ^ 16" r1] by auto
  ultimately show ?thesis by (simp add: emitArith_def Let_def)
qed

lemma emitKfuncCall_total:
  assumes "sc_writeFields sc \<noteq> []" and ne: "callableIdxs sop sc (gs_pool gs) \<noteq> []"
  shows "\<exists>gs'. emitKfuncCall sop sc gs = Some gs'"
proof -
  let ?idxs = "callableIdxs sop sc (gs_pool gs)"
  obtain r where r: "callableKfuncs sop sc (gs_pool gs) (gs_rng gs) = Some (?idxs, r)"
    using callableKfuncs_total by blast
  obtain k r1 where k: "Intn (length ?idxs) r = Some (k, r1)"
    using Intn_total [of "length ?idxs" r] ne by auto
  obtain res r2 where p: "pickKfuncArgs (Kfuncs sop ! (?idxs ! k)) (gs_pool gs) r1 = Some (res, r2)"
    using pickKfuncArgs_total by blast
  show ?thesis
    using r k p emitCtxRead_total [OF assms(1), of "gs\<lparr>gs_rng := r2\<rparr>"]
    by (cases res) (auto simp: emitKfuncCall_def Let_def)
qed

lemma chooseKind_total:
  "\<exists>kind r. chooseKind sop sc nStmt i gs = Some (kind, r) \<and>
     (kind = KArith \<or> kind = KIfElse \<longrightarrow> gs_readVars gs \<noteq> []) \<and>
     (kind = KKfuncCall \<longrightarrow> callableIdxs sop sc (gs_pool gs) \<noteq> [])"
proof -
  obtain k r where k: "Intn (length (bodyKinds sc)) (gs_rng gs) = Some (k, r)"
    using Intn_total [of "length (bodyKinds sc)" "gs_rng gs"] by (auto simp: bodyKinds_def)
  let ?kind = "operandFallback KArith gs (biasWrite sc nStmt i gs (bodyKinds sc ! k))"
  obtain r1 where r1: "callableKfuncs sop sc (gs_pool gs) r =
      Some (callableIdxs sop sc (gs_pool gs), r1)"
    using callableKfuncs_total by blast
  have "\<exists>kind' r'. kfuncFallback sop sc gs ?kind r = Some (kind', r') \<and>
      (kind' = KArith \<longrightarrow> gs_readVars gs \<noteq> []) \<and>
      (kind' = KKfuncCall \<longrightarrow> callableIdxs sop sc (gs_pool gs) \<noteq> [])"
    using r1 by (auto simp: kfuncFallback_def operandFallback_def)
  with k show ?thesis
    by (auto simp: chooseKind_def Let_def operandFallback_def)
qed

lemma loopScope_writeFields: "sc_writeFields (loopScope v) \<noteq> []"
  by (simp add: loopScope_def)

lemma genStmt_total:
  assumes wf: "sc_writeFields sc \<noteq> []" and kind: "kind \<in> set (bodyKinds sc)"
    and rv: "kind = KArith \<or> kind = KIfElse \<longrightarrow> gs_readVars gs \<noteq> []"
    and kf: "kind = KKfuncCall \<longrightarrow> callableIdxs sop sc (gs_pool gs) \<noteq> []"
    and IH: "\<And>sc' v r. scopeRank sc' < scopeRank sc \<Longrightarrow> sc_writeFields sc' \<noteq> [] \<Longrightarrow>
      \<exists>res. genStructOpsBody sop sc' v r = Some res"
  shows "\<exists>gs'. genStmt sop sc kind gs = Some gs'"
proof (cases kind)
  case KSubflowIter
  with kind have "0 < scopeRank sc" by (simp add: scopeRank_iter)
  with IH [of "loopScope (iterVarName (gs_varId gs))" "Suc (gs_varId gs)" "gs_rng gs"] KSubflowIter
  show ?thesis by (auto simp: loopScope_writeFields genStmt_def genSubflowIter.simps Let_def)
next
  case KIfElse
  let ?br = "branchScope sc (gs_pool gs)" and ?names = "map fst (gs_readVars gs)"
  have body: "\<exists>b v' r'. genStructOpsBody sop ?br v r = Some (b, v', r')" for v r
    using IH [of ?br v r] scopeRank_branch [of sc] kind KIfElse wf by (auto simp: branchScope_def)
  obtain c r1 where c: "Intn (length ?names) (gs_rng gs) = Some (c, r1)"
    using Intn_total [of "length ?names" "gs_rng gs"] rv KIfElse by auto
  obtain o_k r2 where o_k: "Intn (length structOpsCondOps) r1 = Some (o_k, r2)"
    using Intn_total [of "length structOpsCondOps" r1] by (auto simp: structOpsCondOps_def)
  have "\<exists>val r3. (if structOpsCondOps ! o_k \<noteq> []
      then do { (v, r) \<leftarrow> Intn (2 ^ 16) r2; Some (int v, r) } else Some (0, r2)) = Some (val, r3)"
    using Intn_total [of "2 ^ 16" r2] by auto
  then obtain val r3 where val: "(if structOpsCondOps ! o_k \<noteq> []
      then do { (v, r) \<leftarrow> Intn (2 ^ 16) r2; Some (int v, r) } else Some (0, r2)) = Some (val, r3)"
    by blast
  obtain b1 v1 r4 where b1: "genStructOpsBody sop ?br (gs_varId gs) r3 = Some (b1, v1, r4)"
    using body by blast
  obtain e r5 where e: "bin r4 = Some (e, r5)" using bin_total by blast
  have "\<exists>b2 v2 r6. (if e then genStructOpsBody sop ?br v1 r5 else Some ([], v1, r5))
      = Some (b2, v2, r6)"
    using body [of v1 r5] by auto
  then obtain b2 v2 r6 where b2: "(if e then genStructOpsBody sop ?br v1 r5 else Some ([], v1, r5))
      = Some (b2, v2, r6)"
    by blast
  from c o_k val b1 e b2 KIfElse show ?thesis
    by (simp only: genStmt_def genIfElse.simps Let_def Option.bind.bind_lunit prod.case
        StructOpsStmtKind.case) simp
qed (use wf rv kf in \<open>simp_all add: genStmt_def emitCtxRead_total emitCtxWrite_total emitArith_total
    emitKfuncCall_total\<close>)

lemma genBodyLoop_total:
  assumes wf: "sc_writeFields sc \<noteq> []"
    and IH: "\<And>sc' v r. scopeRank sc' < scopeRank sc \<Longrightarrow> sc_writeFields sc' \<noteq> [] \<Longrightarrow>
      \<exists>res. genStructOpsBody sop sc' v r = Some res"
  shows "\<exists>gs'. genBodyLoop sop sc nStmt i gs = Some gs'"
proof (induction "nStmt - i" arbitrary: i gs)
  case 0
  then show ?case by (simp add: genBodyLoop_done)
next
  case (Suc n)
  obtain kind r where kind: "chooseKind sop sc nStmt i gs = Some (kind, r)"
    and rv: "kind = KArith \<or> kind = KIfElse \<longrightarrow> gs_readVars gs \<noteq> []"
    and kf: "kind = KKfuncCall \<longrightarrow> callableIdxs sop sc (gs_pool gs) \<noteq> []"
    using chooseKind_total by blast
  have "\<exists>gs1. genStmt sop sc kind (gs\<lparr>gs_rng := r\<rparr>) = Some gs1"
    by (rule genStmt_total [OF wf chooseKind_in_bodyKinds [OF kind] _ _ IH]) (use rv kf in simp_all)
  then obtain gs1 where "genStmt sop sc kind (gs\<lparr>gs_rng := r\<rparr>) = Some gs1"
    by blast
  with Suc kind show ?case by (auto simp: genBodyLoop_next)
qed

lemma genStructOpsBody_total:
  "sc_writeFields sc \<noteq> [] \<Longrightarrow> \<exists>body v' r'. genStructOpsBody sop sc v r = Some (body, v', r')"
proof (induction "scopeRank sc" arbitrary: sc v r rule: less_induct)
  case less
  have "0 < stmtSpan sc" by (simp add: stmtSpan_def Let_def)
  then obtain k r0 where k: "Intn (stmtSpan sc) r = Some (k, r0)"
    using Intn_total by blast
  obtain gs where "genBodyLoop sop sc (sc_minStmt sc + k) 0 (initGenState sc v r0) = Some gs"
    using genBodyLoop_total [OF less.prems] less.hyps by meson
  with k show ?case by (simp add: genStructOpsBody.simps)
qed

end
