(* ===== verification/StructOps_Types.thy ===== *)
theory StructOps_Types
  imports StructOps_Inv
begin

text \<open>
  The contract the BPF verifier and the C compiler put on a generated callback body, as an
  executable checker, and the proof that the generator only produces bodies it accepts.

  \<open>checkBody kfs W nr env body\<close> walks \<open>body\<close> with the typed values and scalar locals in scope
  (\<open>env\<close>), the writable context fields of the surface (\<open>W\<close>) and the flag that forbids a
  \<^verbatim>\<open>return\<close> (\<open>nr\<close>). It demands that
  \<^item> a context access goes to a writable field and a written constant fits its type;
  \<^item> an operand of arithmetic or of a condition is a scalar local already declared;
  \<^item> a kfunc call passes, for every parameter, an in-scope value of the parameter's type up to
    \<^verbatim>\<open>const\<close>, binds the result at the declared type, and carries the NULL guard exactly when the
    kfunc returns a KF_RET_NULL pointer (and then only where a \<^verbatim>\<open>return\<close> is allowed);
  \<^item> a declared local is not yet in scope;
  \<^item> loop and branch bodies are accepted in their own scope, from which nothing escapes.
\<close>

type_synonym env = "typedVal list \<times> (string \<times> string) list"

definition inScope :: "env \<Rightarrow> string \<Rightarrow> bool" where
  "inScope env x = (x \<in> tv_expr ` set (fst env))"

definition declare_local :: "string \<Rightarrow> string \<Rightarrow> bool \<Rightarrow> env \<Rightarrow> env" where
  "declare_local v ct scalar env =
     (fst env @ [\<lparr>tv_expr = v, tv_ctype = normalizeCType ct\<rparr>],
      if scalar then snd env @ [(v, ct)] else snd env)"

definition argOk :: "typedVal list \<Rightarrow> string \<Rightarrow> string \<Rightarrow> bool" where
  "argOk pool a pt =
     ((\<exists>v \<in> set pool. tv_expr v = a \<and> tv_ctype v = normalizeCType pt) \<or>
      normalizeCType pt = ''bool'' \<and> a \<in> {''true'', ''false''})"

definition valueFits :: "string \<Rightarrow> int \<Rightarrow> bool" where
  "valueFits ct v =
     (if ct = ''int'' then - (2 ^ 31) \<le> v \<and> v < 2 ^ 31 else 0 \<le> v \<and> v < 2 ^ 31)"

definition fixedKfuncs :: "string list" where
  "fixedKfuncs = [''bpf_mptcp_subflow_ctx'', ''mptcp_subflow_set_scheduled'']"

fun stmtEnv :: "StructOpsStmt \<Rightarrow> env \<Rightarrow> env" where
  "stmtEnv (CtxRead fi acc fct v ct) env = declare_local v ct True env"
| "stmtEnv (CtxWrite fi acc fct val) env = env"
| "stmtEnv (Arith v ct src op val) env = declare_local v ct True env"
| "stmtEnv (KfuncCall ki args v ct g) env =
     (if v = [] then env else declare_local v ct (\<not> g \<and> scalarCType ct) env)"
| "stmtEnv (SubflowIter k v ct sk body) env = env"
| "stmtEnv (IfElse cv op val b1 b2) env = env"

definition callOk :: "BpfKfunc \<Rightarrow> bool \<Rightarrow> env \<Rightarrow> string list \<Rightarrow> string \<Rightarrow> string \<Rightarrow> bool \<Rightarrow> bool" where
  "callOk kf nr env args v ct g =
     (kf_Name kf \<notin> set fixedKfuncs \<and>
      list_all2 (argOk (fst env)) args (kf_ArgTypes kf) \<and>
      (if kf_RetType kf = [] then v = [] \<and> ct = [] \<and> \<not> g
       else v \<noteq> [] \<and> \<not> inScope env v \<and> ct = kf_RetType kf \<and> g = needsNullGuard kf) \<and>
      (nr \<longrightarrow> \<not> g))"

fun stmtOk :: "BpfKfunc list \<Rightarrow> ctxWriteField list \<Rightarrow> bool \<Rightarrow> env \<Rightarrow> StructOpsStmt \<Rightarrow> bool"
  and checkBody :: "BpfKfunc list \<Rightarrow> ctxWriteField list \<Rightarrow> bool \<Rightarrow> env \<Rightarrow> StructOpsStmt list \<Rightarrow> bool"
where
  "stmtOk kfs W nr env (CtxRead fi acc fct v ct) =
     (fi < length W \<and> W ! fi = \<lparr>wf_accessor = acc, wf_ctype = fct\<rparr> \<and> ct = fct \<and>
      \<not> inScope env v)"
| "stmtOk kfs W nr env (CtxWrite fi acc fct val) =
     (fi < length W \<and> W ! fi = \<lparr>wf_accessor = acc, wf_ctype = fct\<rparr> \<and> valueFits fct val)"
| "stmtOk kfs W nr env (Arith v ct src op val) =
     ((src, ct) \<in> set (snd env) \<and> op \<in> set structOpsArithOps \<and> 0 \<le> val \<and> val < 2 ^ 16 \<and>
      \<not> inScope env v)"
| "stmtOk kfs W nr env (KfuncCall ki args v ct g) =
     (ki < length kfs \<and> callOk (kfs ! ki) nr env args v ct g)"
| "stmtOk kfs W nr env (SubflowIter k v ct sk body) =
     (v = iterVarName k \<and> \<not> inScope env v \<and> inScope env ''msk'' \<and> inScope env ''msk->first'' \<and>
      ct = ''struct mptcp_subflow_context *'' \<and> sk = ''(struct sock *)msk'' \<and>
      checkBody kfs (sc_writeFields (loopScope v)) True (sc_pool (loopScope v), []) body)"
| "stmtOk kfs W nr env (IfElse cv op val b1 b2) =
     (cv \<in> fst ` set (snd env) \<and> op \<in> set structOpsCondOps \<and> b1 \<noteq> [] \<and>
      checkBody kfs W True (fst env, []) b1 \<and> checkBody kfs W True (fst env, []) b2)"
| "checkBody kfs W nr env [] = True"
| "checkBody kfs W nr env (st # rest) =
     (stmtOk kfs W nr env st \<and> checkBody kfs W nr (stmtEnv st env) rest)"

lemma checkBody_snoc:
  "checkBody kfs W nr env (b @ [st]) \<longleftrightarrow>
     checkBody kfs W nr env b \<and> stmtOk kfs W nr (fold stmtEnv b env) st"
  by (induction b arbitrary: env) auto

subsection \<open>What the operations draw\<close>

lemma argCands_ok: "a \<in> set (argCands pool (normalizeCType pt)) \<Longrightarrow> argOk pool a pt"
  by (auto simp: argCands_def argOk_def split: if_splits)

lemma pickKfuncArgsLoop_ok:
  "pickKfuncArgsLoop pts pool args r = Some (Some args', r') \<Longrightarrow>
   \<exists>new. args' = args @ new \<and> list_all2 (argOk pool) new pts"
proof (induction pts pool args r arbitrary: args' r' rule: pickKfuncArgsLoop.induct)
  case (2 pt pts pool args r)
  let ?cands = "argCands pool (normalizeCType pt)"
  from "2.prems" obtain k r1 where k: "Intn (length ?cands) r = Some (k, r1)"
    and rest: "pickKfuncArgsLoop pts pool (args @ [?cands ! k]) r1 = Some (Some args', r')"
    and ne: "?cands \<noteq> []"
    by (auto simp: Let_def Option.bind_eq_Some_conv split: if_splits)
  from "2.IH" [OF refl ne k refl rest]
  obtain new where "args' = (args @ [?cands ! k]) @ new" "list_all2 (argOk pool) new pts"
    by blast
  with argCands_ok [OF nth_in_set_Intn [OF k]] show ?case
    by (intro exI [of _ "?cands ! k # new"]) simp
qed auto

lemma pickKfuncArgs_ok:
  "pickKfuncArgs kf pool r = Some (Some args, r') \<Longrightarrow> list_all2 (argOk pool) args (kf_ArgTypes kf)"
  by (auto simp: pickKfuncArgs_def dest: pickKfuncArgsLoop_ok)

lemma callableKfuncsLoop_ok:
  "callableKfuncsLoop sc pool kfs idxs r = Some (idxs', r') \<Longrightarrow> ki \<in> set idxs' \<Longrightarrow>
   ki \<in> set idxs \<or> (\<exists>kf. (ki, kf) \<in> set kfs \<and> kf_Name kf \<notin> set fixedKfuncs \<and>
     \<not> (sc_noReturn sc \<and> needsNullGuard kf))"
proof (induction sc pool kfs idxs r rule: callableKfuncsLoop.induct)
  case (2 sc pool k kf kfs idxs r)
  show ?case
  proof (cases "kf_Name kf \<in> set fixedKfuncs \<or> sc_noReturn sc \<and> needsNullGuard kf")
    case True
    with 2 have "ki \<in> set idxs \<or> (\<exists>kf. (ki, kf) \<in> set kfs \<and> kf_Name kf \<notin> set fixedKfuncs \<and>
        \<not> (sc_noReturn sc \<and> needsNullGuard kf))"
      by (auto simp: fixedKfuncs_def split: if_splits)
    then show ?thesis by auto
  next
    case False
    then have names: "\<not> (kf_Name kf = ''bpf_mptcp_subflow_ctx'' \<or>
        kf_Name kf = ''mptcp_subflow_set_scheduled'')"
      by (simp add: fixedKfuncs_def)
    with False "2.prems"(1) obtain picked r1 where p: "pickKfuncArgs kf pool r = Some (picked, r1)"
      and rest: "callableKfuncsLoop sc pool kfs
        (if picked \<noteq> None then idxs @ [k] else idxs) r1 = Some (idxs', r')"
      by (auto simp: Option.bind_eq_Some_conv)
    from False have "\<not> (sc_noReturn sc \<and> needsNullGuard kf)" by simp
    from "2.IH"(3) [OF names this p refl rest "2.prems"(2)] False show ?thesis
      by (auto split: if_splits)
  qed
qed auto

lemma callableKfuncs_ok:
  assumes "callableKfuncs sop sc pool r = Some (idxs, r')" and "ki \<in> set idxs"
  shows "ki < length (Kfuncs sop)" and "kf_Name (Kfuncs sop ! ki) \<notin> set fixedKfuncs"
    and "\<not> (sc_noReturn sc \<and> needsNullGuard (Kfuncs sop ! ki))"
  using callableKfuncsLoop_ok [OF assms(1) [unfolded callableKfuncs_def] assms(2)]
  by (auto simp: in_set_enumerate_eq)

lemma genStructOpsCtxValue_fits:
  "genStructOpsCtxValue ct r = Some (v, r') \<Longrightarrow> valueFits ct v"
  by (auto simp: genStructOpsCtxValue_def valueFits_def Option.bind_eq_Some_conv
      dest!: Intn_Some_lt split: if_splits)

subsection \<open>Names\<close>

definition nameBelow :: "nat \<Rightarrow> string \<Rightarrow> bool" where
  "nameBelow n x \<longleftrightarrow> x \<in> {''msk'', ''msk->first'', ''subflow''} \<or>
     (\<exists>k < n. x = localName k \<or> x = iterVarName k)"

lemma nameBelow_mono: "nameBelow m x \<Longrightarrow> m \<le> n \<Longrightarrow> nameBelow n x"
  by (auto simp: nameBelow_def intro: less_le_trans)

lemma fmt_nat_hd: "\<exists>c cs. fmt_nat n = c # cs \<and> is_dec c"
  using fmt_nat_nonempty [of n] fmt_nat_is_dec [of _ n] by (cases "fmt_nat n") auto

lemma local_not_iter [simp]: "localName j \<noteq> iterVarName k" "iterVarName k \<noteq> localName j"
  using fmt_nat_hd [of j] by (auto simp: localName_def iterVarName_def is_dec_def)

lemma localName_inj [simp]: "localName j = localName k \<longleftrightarrow> j = k"
  by (simp add: localName_def)

lemma iterVarName_inj [simp]: "iterVarName j = iterVarName k \<longleftrightarrow> j = k"
  by (simp add: iterVarName_def)

lemma names_nonempty [simp]: "localName k \<noteq> []" "iterVarName k \<noteq> []"
  by (simp_all add: localName_def iterVarName_def)

lemma names_not_fixed [simp]:
  "localName k \<notin> {''msk'', ''msk->first'', ''subflow''}"
  "iterVarName k \<notin> {''msk'', ''msk->first'', ''subflow''}"
  using fmt_nat_hd [of k] by (auto simp: localName_def iterVarName_def is_dec_def)

lemma not_nameBelow: "\<not> nameBelow n (localName n)" "\<not> nameBelow n (iterVarName n)"
  using names_not_fixed [of n] by (auto simp: nameBelow_def)

lemma nameBelow_intros [simp]:
  "k < n \<Longrightarrow> nameBelow n (localName k)" "k < n \<Longrightarrow> nameBelow n (iterVarName k)"
  "nameBelow n ''msk''" "nameBelow n ''msk->first''" "nameBelow n ''subflow''"
  by (auto simp: nameBelow_def)

subsection \<open>The generator meets the contract\<close>

definition typing_ok :: "bodyScope \<Rightarrow> nat \<Rightarrow> bool" where
  "typing_ok sc v \<longleftrightarrow>
     (\<forall>x \<in> set (sc_pool sc). nameBelow v (tv_expr x)) \<and>
     {''msk'', ''msk->first''} \<subseteq> tv_expr ` set (sc_pool sc)"

definition typing_inv :: "BpfKfunc list \<Rightarrow> bodyScope \<Rightarrow> nat \<Rightarrow> genState \<Rightarrow> bool" where
  "typing_inv kfs sc v gs \<longleftrightarrow>
     checkBody kfs (sc_writeFields sc) (sc_noReturn sc) (sc_pool sc, []) (gs_body gs) \<and>
     fold stmtEnv (gs_body gs) (sc_pool sc, []) = (gs_pool gs, gs_readVars gs) \<and>
     typing_ok (sc\<lparr>sc_pool := gs_pool gs\<rparr>) (gs_varId gs) \<and> v \<le> gs_varId gs"

definition typing_post :: "BpfKfunc list \<Rightarrow> bodyScope \<Rightarrow> nat \<Rightarrow> StructOpsStmt list \<Rightarrow> nat \<Rightarrow> bool" where
  "typing_post kfs sc v body v' \<longleftrightarrow>
     checkBody kfs (sc_writeFields sc) (sc_noReturn sc) (sc_pool sc, []) body \<and> v \<le> v' \<and>
     (0 < sc_minStmt sc \<longrightarrow> body \<noteq> [])"

lemma typing_fresh:
  assumes "typing_inv kfs sc v gs"
  shows "\<not> inScope (gs_pool gs, gs_readVars gs) (localName (gs_varId gs))"
    and "\<not> inScope (gs_pool gs, gs_readVars gs) (iterVarName (gs_varId gs))"
  using assms not_nameBelow [of "gs_varId gs"]
  by (auto simp: typing_inv_def typing_ok_def inScope_def)

text \<open>Appending a statement the checker accepts, with the environment it leaves, keeps the invariant.\<close>

lemma typing_append:
  assumes "typing_inv kfs sc v gs"
    and "stmtOk kfs (sc_writeFields sc) (sc_noReturn sc) (gs_pool gs, gs_readVars gs) st"
    and "stmtEnv st (gs_pool gs, gs_readVars gs) = (gs_pool gs', gs_readVars gs')"
    and "gs_body gs' = gs_body gs @ [st]" and "gs_varId gs \<le> gs_varId gs'"
    and "\<forall>x \<in> set (gs_pool gs'). x \<in> set (gs_pool gs) \<or> nameBelow (gs_varId gs') (tv_expr x)"
    and "set (gs_pool gs) \<subseteq> set (gs_pool gs')"
  shows "typing_inv kfs sc v gs'"
proof -
  from assms(1) have check: "checkBody kfs (sc_writeFields sc) (sc_noReturn sc) (sc_pool sc, [])
      (gs_body gs)"
    and env: "fold stmtEnv (gs_body gs) (sc_pool sc, []) = (gs_pool gs, gs_readVars gs)"
    and names: "\<And>x. x \<in> set (gs_pool gs) \<Longrightarrow> nameBelow (gs_varId gs) (tv_expr x)"
    and fixed: "{''msk'', ''msk->first''} \<subseteq> tv_expr ` set (gs_pool gs)"
    and v: "v \<le> gs_varId gs"
    by (simp_all add: typing_inv_def typing_ok_def)
  have "checkBody kfs (sc_writeFields sc) (sc_noReturn sc) (sc_pool sc, []) (gs_body gs')"
    using check env assms(2,4) by (simp add: checkBody_snoc)
  moreover have "fold stmtEnv (gs_body gs') (sc_pool sc, []) = (gs_pool gs', gs_readVars gs')"
    using env assms(3,4) by simp
  moreover have "\<forall>x \<in> set (gs_pool gs'). nameBelow (gs_varId gs') (tv_expr x)"
    using assms(6) nameBelow_mono [OF names assms(5)] by blast
  moreover have "{''msk'', ''msk->first''} \<subseteq> tv_expr ` set (gs_pool gs')"
    using fixed image_mono [OF assms(7), of tv_expr] by (rule subset_trans)
  ultimately show ?thesis
    using v assms(5) by (simp add: typing_inv_def typing_ok_def)
qed

lemma typing_ctx_read:
  assumes inv: "typing_inv kfs sc v gs" and st: "emitCtxRead sc gs = Some gs'"
  shows "typing_inv kfs sc v gs'"
proof -
  from st obtain fi r where fi: "Intn (length (sc_writeFields sc)) (gs_rng gs) = Some (fi, r)"
    by (auto simp: emitCtxRead_def Option.bind_eq_Some_conv)
  let ?f = "sc_writeFields sc ! fi" and ?v = "localName (gs_varId gs)"
  show ?thesis
    using inv
  proof (rule typing_append [where st = "CtxRead fi (wf_accessor ?f) (wf_ctype ?f) ?v (wf_ctype ?f)"])
  qed (use st fi Intn_Some_lt [OF fi] typing_fresh(1) [OF inv] in
      \<open>auto simp: emitCtxRead_def Let_def declare_local_def\<close>)
qed

lemma typing_ctx_write:
  assumes inv: "typing_inv kfs sc v gs" and st: "emitCtxWrite sc gs = Some gs'"
  shows "typing_inv kfs sc v gs'"
proof -
  from st obtain fi r val r' where fi: "Intn (length (sc_writeFields sc)) (gs_rng gs) = Some (fi, r)"
    and val: "genStructOpsCtxValue (wf_ctype (sc_writeFields sc ! fi)) r = Some (val, r')"
    by (auto simp: emitCtxWrite_def Let_def Option.bind_eq_Some_conv)
  let ?f = "sc_writeFields sc ! fi"
  show ?thesis
    using inv
  proof (rule typing_append [where st = "CtxWrite fi (wf_accessor ?f) (wf_ctype ?f) val"])
  qed (use st fi Intn_Some_lt [OF fi] val genStructOpsCtxValue_fits [OF val] in
      \<open>auto simp: emitCtxWrite_def Let_def\<close>)
qed

lemma typing_arith:
  assumes inv: "typing_inv kfs sc v gs" and st: "emitArith gs = Some gs'"
  shows "typing_inv kfs sc v gs'"
proof -
  from st obtain k r o_k r1 c r2 where k: "Intn (length (gs_readVars gs)) (gs_rng gs) = Some (k, r)"
    and op: "Intn (length structOpsArithOps) r = Some (o_k, r1)"
    and c: "Intn (2 ^ 16) r1 = Some (c, r2)"
    by (auto simp: emitArith_def Let_def Option.bind_eq_Some_conv)
  let ?src = "gs_readVars gs ! k" and ?v = "localName (gs_varId gs)"
  show ?thesis
    using inv
  proof (rule typing_append
      [where st = "Arith ?v (snd ?src) (fst ?src) (structOpsArithOps ! o_k) (int c)"])
  qed (use st k op c nth_in_set_Intn [OF k] nth_in_set_Intn [OF op] Intn_Some_lt [OF c]
      typing_fresh(1) [OF inv] in \<open>auto simp: emitArith_def Let_def declare_local_def\<close>)
qed

lemma typing_bindKfunc:
  assumes inv: "typing_inv kfs sc v gs" and ki: "ki < length kfs"
    and name: "kf_Name (kfs ! ki) \<notin> set fixedKfuncs"
    and nr: "\<not> (sc_noReturn sc \<and> needsNullGuard (kfs ! ki))"
    and args: "list_all2 (argOk (gs_pool gs)) args (kf_ArgTypes (kfs ! ki))"
  shows "typing_inv kfs sc v (bindKfunc ki (kfs ! ki) args gs)"
proof -
  let ?kf = "kfs ! ki" and ?v = "localName (gs_varId gs)"
  let ?void = "kf_RetType ?kf = []"
  show ?thesis
    using inv
  proof (rule typing_append [where st = "KfuncCall ki args (if ?void then [] else ?v)
        (if ?void then [] else kf_RetType ?kf) (\<not> ?void \<and> needsNullGuard ?kf)"])
  qed (use ki name nr args typing_fresh(1) [OF inv] in
      \<open>auto simp: bindKfunc_def callOk_def Let_def declare_local_def\<close>)
qed

lemma typing_rng: "typing_inv kfs sc v gs \<Longrightarrow> typing_inv kfs sc v (gs\<lparr>gs_rng := r\<rparr>)"
  by (simp add: typing_inv_def)

lemma typing_kfunc:
  assumes inv: "typing_inv (Kfuncs sop) sc v gs" and st: "emitKfuncCall sop sc gs = Some gs'"
  shows "typing_inv (Kfuncs sop) sc v gs'"
proof -
  from st obtain idxs r k r1 picked r2 where
      idxs: "callableKfuncs sop sc (gs_pool gs) (gs_rng gs) = Some (idxs, r)"
    and k: "Intn (length idxs) r = Some (k, r1)"
    and p: "pickKfuncArgs (Kfuncs sop ! (idxs ! k)) (gs_pool gs) r1 = Some (picked, r2)"
    and res: "(case picked of None \<Rightarrow> emitCtxRead sc (gs\<lparr>gs_rng := r2\<rparr>)
      | Some args \<Rightarrow> Some (bindKfunc (idxs ! k) (Kfuncs sop ! (idxs ! k)) args (gs\<lparr>gs_rng := r2\<rparr>)))
      = Some gs'"
    unfolding emitKfuncCall_def Let_def by (elim bind_pairE) (rule that, assumption+)
  note ok = callableKfuncs_ok [OF idxs nth_in_set_Intn [OF k]]
  show ?thesis
  proof (cases picked)
    case None
    with res show ?thesis using typing_ctx_read [OF typing_rng [OF inv]] by simp
  next
    case (Some args)
    with p have "list_all2 (argOk (gs_pool (gs\<lparr>gs_rng := r2\<rparr>))) args
        (kf_ArgTypes (Kfuncs sop ! (idxs ! k)))"
      by (simp add: pickKfuncArgs_ok)
    from typing_bindKfunc [OF typing_rng [OF inv] ok this] Some res show ?thesis by simp
  qed
qed

lemma typing_iter:
  assumes inv: "typing_inv kfs sc v gs" and n: "n = gs_varId gs"
    and body: "typing_post kfs (loopScope (iterVarName n)) (Suc n) body n'"
  shows "typing_inv kfs sc v (gs\<lparr>gs_body := gs_body gs @
      [SubflowIter n (iterVarName n) ''struct mptcp_subflow_context *'' ''(struct sock *)msk'' body],
      gs_varId := n'\<rparr>)"
  using inv
proof (rule typing_append)
  have "{''msk'', ''msk->first''} \<subseteq> tv_expr ` set (gs_pool gs)"
    using inv by (simp add: typing_inv_def typing_ok_def)
  then show "stmtOk kfs (sc_writeFields sc) (sc_noReturn sc) (gs_pool gs, gs_readVars gs)
      (SubflowIter n (iterVarName n) ''struct mptcp_subflow_context *'' ''(struct sock *)msk'' body)"
    using typing_fresh(2) [OF inv] body n
    by (simp add: typing_post_def inScope_def loopScope_def)
qed (use body n in \<open>auto simp: typing_post_def\<close>)

lemma typing_if:
  assumes inv: "typing_inv kfs sc v gs"
    and cv: "cv \<in> fst ` set (gs_readVars gs)" and op: "op \<in> set structOpsCondOps"
    and b1: "typing_post kfs (branchScope sc (gs_pool gs)) (gs_varId gs) b1 n'"
    and b2: "b2 = [] \<and> n'' = n' \<or> typing_post kfs (branchScope sc (gs_pool gs)) n' b2 n''"
  shows "typing_inv kfs sc v (gs\<lparr>gs_body := gs_body gs @ [IfElse cv op val b1 b2], gs_varId := n''\<rparr>)"
  using inv
proof (rule typing_append)
  show "stmtOk kfs (sc_writeFields sc) (sc_noReturn sc) (gs_pool gs, gs_readVars gs)
      (IfElse cv op val b1 b2)"
    using cv op b1 b2 by (auto simp: typing_post_def branchScope_def)
qed (use b1 b2 in \<open>auto simp: typing_post_def\<close>)

lemma typing_init: "typing_ok sc v \<Longrightarrow> typing_inv kfs sc v (initGenState sc v r)"
  by (simp add: typing_inv_def initGenState_def typing_ok_def)

interpretation typing: body_invariant sop typing_ok "typing_inv (Kfuncs sop)"
  "typing_post (Kfuncs sop)" for sop
proof unfold_locales
  fix sc v gs
  assume inv: "typing_inv (Kfuncs sop) sc v gs"
  show "typing_ok (loopScope (iterVarName (gs_varId gs))) (Suc (gs_varId gs))"
    by (simp add: typing_ok_def loopScope_def)
  show "typing_ok (branchScope sc (gs_pool gs)) (gs_varId gs)"
    using inv by (simp add: typing_inv_def typing_ok_def branchScope_def)
  show "typing_post (Kfuncs sop) sc v (gs_body gs) (gs_varId gs)"
    if "sc_minStmt sc \<le> length (gs_body gs)"
    using inv that by (auto simp: typing_inv_def typing_post_def)
next
  fix sc v gs b1 n'
  assume "typing_inv (Kfuncs sop) sc v gs"
    and "typing_post (Kfuncs sop) (branchScope sc (gs_pool gs)) (gs_varId gs) b1 n'"
  then show "typing_ok (branchScope sc (gs_pool gs)) n'"
    by (auto simp: typing_inv_def typing_post_def typing_ok_def branchScope_def
        intro: nameBelow_mono)
qed (auto intro: typing_init typing_rng typing_ctx_read typing_ctx_write typing_arith typing_kfunc
    typing_iter typing_if)

end
