(* ===== verification/StructOps_Paths.thy ===== *)
theory StructOps_Paths
  imports StructOps_Types
begin

text \<open>
  The run-time behaviour of a rendered callback, as the traces of its control-flow paths.

  A path through a body produces the kfunc calls, the context writes and the iterator calls in
  execution order and says whether it left the callback through the \<^verbatim>\<open>return -1\<close> of a NULL guard.
  Conditions and the number of loop rounds are left open, so every path the BPF verifier explores
  is among them. \<open>iters\<close> is the verifier's iterator protocol (new, next*, destroy, well nested).
  The lemmas show that a body accepted by \<open>checkBody\<close> keeps the protocol on every path, that a
  body checked under the no-return flag never returns, and that no body touches the kfuncs of the
  fixed prologue and epilogue.
\<close>

datatype event = ECall string | EWrite string | EIterNew nat | EIterNext nat | EIterDestroy nat

inductive path :: "BpfKfunc list \<Rightarrow> StructOpsStmt list \<Rightarrow> event list \<Rightarrow> bool \<Rightarrow> bool"
  and stmtPath :: "BpfKfunc list \<Rightarrow> StructOpsStmt \<Rightarrow> event list \<Rightarrow> bool \<Rightarrow> bool"
  and loopPath :: "BpfKfunc list \<Rightarrow> nat \<Rightarrow> StructOpsStmt list \<Rightarrow> event list \<Rightarrow> bool \<Rightarrow> bool"
  for kfs
where
  path_end: "path kfs [] [] False"
| path_ret: "stmtPath kfs st t True \<Longrightarrow> path kfs (st # rest) t True"
| path_seq: "stmtPath kfs st t False \<Longrightarrow> path kfs rest u ret \<Longrightarrow> path kfs (st # rest) (t @ u) ret"
| path_read: "stmtPath kfs (CtxRead fi acc fct v ct) [] False"
| path_write: "stmtPath kfs (CtxWrite fi acc fct val) [EWrite acc] False"
| path_arith: "stmtPath kfs (Arith v ct src op val) [] False"
| path_call: "stmtPath kfs (KfuncCall ki args v ct g) [ECall (kf_Name (kfs ! ki))] False"
| path_guard: "g \<Longrightarrow> stmtPath kfs (KfuncCall ki args v ct g) [ECall (kf_Name (kfs ! ki))] True"
| path_iter: "loopPath kfs k body t False \<Longrightarrow>
    stmtPath kfs (SubflowIter k v ct sk body) (EIterNew k # t @ [EIterDestroy k]) False"
| path_iter_ret: "loopPath kfs k body t True \<Longrightarrow>
    stmtPath kfs (SubflowIter k v ct sk body) (EIterNew k # t) True"
| path_if: "path kfs b1 t ret \<Longrightarrow> stmtPath kfs (IfElse cv op val b1 b2) t ret"
| path_else: "path kfs b2 t ret \<Longrightarrow> stmtPath kfs (IfElse cv op val b1 b2) t ret"
| loop_exit: "loopPath kfs k body [EIterNext k] False"
| loop_ret: "path kfs body t True \<Longrightarrow> loopPath kfs k body (EIterNext k # t) True"
| loop_round: "path kfs body t False \<Longrightarrow> loopPath kfs k body u ret \<Longrightarrow>
    loopPath kfs k body (EIterNext k # t @ u) ret"

inductive_cases path_NilE [elim!]: "path kfs [] t ret"
inductive_cases path_ConsE: "path kfs (st # rest) t ret"

fun iters :: "nat list \<Rightarrow> event list \<Rightarrow> nat list option" where
  "iters s [] = Some s"
| "iters s (EIterNew k # t) = iters (k # s) t"
| "iters (k' # s) (EIterNext k # t) = (if k' = k then iters (k' # s) t else None)"
| "iters [] (EIterNext k # t) = None"
| "iters (k' # s) (EIterDestroy k # t) = (if k' = k then iters s t else None)"
| "iters [] (EIterDestroy k # t) = None"
| "iters s (ECall f # t) = iters s t"
| "iters s (EWrite f # t) = iters s t"

lemma iters_append: "iters s (t @ u) = Option.bind (iters s t) (\<lambda>s'. iters s' u)"
  by (induction s t rule: iters.induct) auto

definition traceOk :: "event list \<Rightarrow> bool" where
  "traceOk t \<longleftrightarrow> (\<forall>s. iters s t = Some s) \<and> (\<forall>f \<in> set fixedKfuncs. ECall f \<notin> set t)"

lemma traceOk_Nil [simp]: "traceOk []"
  by (simp add: traceOk_def)

lemma traceOk_append: "traceOk t \<Longrightarrow> traceOk u \<Longrightarrow> traceOk (t @ u)"
  by (auto simp: traceOk_def iters_append)

definition roundsOk :: "nat \<Rightarrow> event list \<Rightarrow> bool" where
  "roundsOk k t \<longleftrightarrow> (\<forall>s. iters (k # s) t = Some (k # s)) \<and>
     (\<forall>f \<in> set fixedKfuncs. ECall f \<notin> set t)"

lemma roundsOk_exit: "roundsOk k [EIterNext k]"
  by (simp add: roundsOk_def)

lemma roundsOk_round: "traceOk t \<Longrightarrow> roundsOk k u \<Longrightarrow> roundsOk k (EIterNext k # t @ u)"
  by (auto simp: roundsOk_def traceOk_def iters_append)

lemma traceOk_iter: "roundsOk k t \<Longrightarrow> traceOk (EIterNew k # t @ [EIterDestroy k])"
  by (auto simp: roundsOk_def traceOk_def iters_append)

lemma paths_ok:
  "path kfs body t ret \<Longrightarrow>
     (\<And>W nr env. checkBody kfs W nr env body \<Longrightarrow> traceOk t \<and> (nr \<longrightarrow> \<not> ret))"
  "stmtPath kfs st t ret \<Longrightarrow>
     (\<And>W nr env. stmtOk kfs W nr env st \<Longrightarrow> traceOk t \<and> (nr \<longrightarrow> \<not> ret))"
  "loopPath kfs k body t ret \<Longrightarrow>
     (\<And>W env. checkBody kfs W True env body \<Longrightarrow> roundsOk k t \<and> \<not> ret)"
proof (induction rule: path_stmtPath_loopPath.inducts)
  case (path_seq st t rest u ret)
  from path_seq.prems have "stmtOk kfs W nr env st" "checkBody kfs W nr (stmtEnv st env) rest"
    by simp_all
  with path_seq.IH show ?case by (blast intro: traceOk_append)
next
  case (path_iter k body t v ct sk)
  then have "roundsOk k t" by fastforce
  then show ?case by (simp add: traceOk_iter)
next
  case (loop_round body t k u ret)
  then have "traceOk t" "roundsOk k u \<and> \<not> ret" by blast+
  then show ?case by (simp add: roundsOk_round)
qed (auto simp: traceOk_def callOk_def roundsOk_exit)

lemmas checked_path_ok = paths_ok(1)

text \<open>Every body has a path that runs to its end: no statement is stuck.\<close>

lemma path_all:
  "(\<And>st. st \<in> set body \<Longrightarrow> \<exists>t. stmtPath kfs st t False) \<Longrightarrow> \<exists>t. path kfs body t False"
proof (induction body)
  case Nil
  show ?case using path_end by blast
next
  case (Cons st body)
  then obtain t u where "stmtPath kfs st t False" "path kfs body u False" by force
  then show ?case by (blast intro: path_seq)
qed

lemma stmtPath_total: "\<exists>t. stmtPath kfs st t False"
proof (induction st)
  case (SubflowIter k v ct sk body)
  show ?case using path_iter [OF loop_exit] by blast
next
  case (IfElse cv op val b1 b2)
  then show ?case using path_all [of b1 kfs] by (blast intro: path_if)
qed (blast intro: path_stmtPath_loopPath.intros)+

lemma path_total: "\<exists>t. path kfs body t False"
  by (rule path_all) (rule stmtPath_total)

text \<open>
  The callbacks. \<open>get_send\<close> runs the fixed prologue (the lookup of the first subflow and its NULL
  guard), the generated body and the fixed epilogue; \<open>init\<close> and \<open>release\<close> run their body only.
\<close>

inductive getSend :: "StructOpsProg \<Rightarrow> event list \<Rightarrow> int \<Rightarrow> bool" for sop where
  no_subflow: "getSend sop [ECall ''bpf_mptcp_subflow_ctx''] (- 1)"
| guard_ret: "path (Kfuncs sop) (GetSendBody sop) t True \<Longrightarrow>
    getSend sop (ECall ''bpf_mptcp_subflow_ctx'' # t) (- 1)"
| scheduled: "path (Kfuncs sop) (GetSendBody sop) t False \<Longrightarrow>
    getSend sop (ECall ''bpf_mptcp_subflow_ctx'' # t @ [ECall ''mptcp_subflow_set_scheduled'']) 0"

definition schedulesOnce :: "event list \<Rightarrow> int \<Rightarrow> bool" where
  "schedulesOnce t rc \<longleftrightarrow>
     (rc = 0 \<or> rc = - 1) \<and> iters [] t = Some [] \<and>
     count_list t (ECall ''bpf_mptcp_subflow_ctx'') = 1 \<and>
     count_list t (ECall ''mptcp_subflow_set_scheduled'') = (if rc = 0 then 1 else 0)"

definition getSendSafe :: "StructOpsProg \<Rightarrow> bool" where
  "getSendSafe sop \<longleftrightarrow>
     (\<forall>t rc. getSend sop t rc \<longrightarrow> schedulesOnce t rc) \<and> (\<exists>t. getSend sop t 0)"

definition voidBodySafe :: "BpfKfunc list \<Rightarrow> StructOpsStmt list \<Rightarrow> bool" where
  "voidBodySafe kfs body \<longleftrightarrow>
     (\<forall>t ret. path kfs body t ret \<longrightarrow> \<not> ret \<and> iters [] t = Some [])"

lemma checked_getSendSafe:
  assumes "checkBody (Kfuncs sop) W nr env (GetSendBody sop)"
  shows "getSendSafe sop"
proof -
  have "schedulesOnce t rc" if "getSend sop t rc" for t rc
    using that
  proof cases
    case no_subflow
    then show ?thesis by (simp add: schedulesOnce_def)
  next
    case (guard_ret u)
    with checked_path_ok [OF guard_ret(3) assms] show ?thesis
      by (simp add: schedulesOnce_def traceOk_def fixedKfuncs_def count_list_0_iff)
  next
    case (scheduled u)
    with checked_path_ok [OF scheduled(3) assms] show ?thesis
      by (simp add: schedulesOnce_def traceOk_def fixedKfuncs_def count_list_0_iff iters_append)
  qed
  moreover obtain t where "path (Kfuncs sop) (GetSendBody sop) t False"
    using path_total by blast
  ultimately show ?thesis
    unfolding getSendSafe_def using getSend.scheduled by blast
qed

lemma checked_voidBodySafe: "checkBody kfs W True env body \<Longrightarrow> voidBodySafe kfs body"
  by (auto simp: voidBodySafe_def traceOk_def dest: checked_path_ok)

end
