(* ===== verification/StructOps_Shape.thy ===== *)
theory StructOps_Shape
  imports StructOps_Types
begin

text \<open>
  Three more properties of generated bodies, each an interpretation of \<open>body_invariant\<close> or a short
  induction over the loop: every local is declared once in the whole callback, the nesting and the
  number of statements are bounded, and a body that requires a write has one.
\<close>

subsection \<open>What each operation appends\<close>

lemma emitCtxRead_appends:
  "emitCtxRead sc gs = Some gs' \<Longrightarrow>
   \<exists>fi acc fct ct. gs_body gs' = gs_body gs @ [CtxRead fi acc fct (localName (gs_varId gs)) ct] \<and>
     gs_varId gs' = Suc (gs_varId gs)"
  by (auto simp: emitCtxRead_def Let_def Option.bind_eq_Some_conv)

lemma emitCtxWrite_appends:
  "emitCtxWrite sc gs = Some gs' \<Longrightarrow>
   \<exists>fi acc fct val. gs_body gs' = gs_body gs @ [CtxWrite fi acc fct val] \<and>
     gs_varId gs' = gs_varId gs"
  by (auto simp: emitCtxWrite_def Let_def Option.bind_eq_Some_conv)

lemma emitArith_appends:
  "emitArith gs = Some gs' \<Longrightarrow>
   \<exists>ct src op val. gs_body gs' = gs_body gs @ [Arith (localName (gs_varId gs)) ct src op val] \<and>
     gs_varId gs' = Suc (gs_varId gs)"
  by (auto simp: emitArith_def Let_def Option.bind_eq_Some_conv)

lemma bindKfunc_appends:
  "\<exists>v ct g. gs_body (bindKfunc ki kf args gs) = gs_body gs @ [KfuncCall ki args v ct g] \<and>
     (v = [] \<and> gs_varId (bindKfunc ki kf args gs) = gs_varId gs \<or>
      v = localName (gs_varId gs) \<and> gs_varId (bindKfunc ki kf args gs) = Suc (gs_varId gs))"
  by (auto simp: bindKfunc_def Let_def)

lemma emitKfuncCall_cases:
  assumes "emitKfuncCall sop sc gs = Some gs'"
  obtains r where "emitCtxRead sc (gs\<lparr>gs_rng := r\<rparr>) = Some gs'"
  | ki kf args r where "gs' = bindKfunc ki kf args (gs\<lparr>gs_rng := r\<rparr>)"
  using assms unfolding emitKfuncCall_def Let_def
  by (elim bind_pairE) (auto split: option.splits intro: that)

subsection \<open>Declared names\<close>

definition iterObjName :: "nat \<Rightarrow> string" where
  "iterObjName k = ''it'' @ fmt_nat k"

fun declNames :: "StructOpsStmt list \<Rightarrow> string list" where
  "declNames [] = []"
| "declNames (CtxRead fi acc fct v ct # b) = v # declNames b"
| "declNames (CtxWrite fi acc fct val # b) = declNames b"
| "declNames (Arith v ct src op val # b) = v # declNames b"
| "declNames (KfuncCall ki args v ct g # b) = (if v = [] then [] else [v]) @ declNames b"
| "declNames (SubflowIter k v ct sk body # b) = iterObjName k # v # declNames body @ declNames b"
| "declNames (IfElse cv op val b1 b2 # b) = declNames b1 @ declNames b2 @ declNames b"

lemma declNames_append [simp]: "declNames (a @ b) = declNames a @ declNames b"
  by (induction a rule: declNames.induct) auto

definition nameIn :: "nat \<Rightarrow> nat \<Rightarrow> string \<Rightarrow> bool" where
  "nameIn m n x \<longleftrightarrow> (\<exists>k. m \<le> k \<and> k < n \<and> x \<in> {localName k, iterVarName k, iterObjName k})"

lemma iterObj_simps [simp]:
  "iterObjName j = iterObjName k \<longleftrightarrow> j = k"
  "localName j \<noteq> iterObjName k" "iterObjName k \<noteq> localName j"
  "iterVarName j \<noteq> iterObjName k" "iterObjName k \<noteq> iterVarName j"
  by (auto simp: iterObjName_def localName_def iterVarName_def)

lemma nameIn_disjoint: "nameIn a b x \<Longrightarrow> nameIn c d x \<Longrightarrow> b \<le> c \<Longrightarrow> False"
  by (auto simp: nameIn_def)

lemma nameIn_mono: "nameIn a b x \<Longrightarrow> a' \<le> a \<Longrightarrow> b \<le> b' \<Longrightarrow> nameIn a' b' x"
  by (auto simp: nameIn_def)

definition names_ok :: "nat \<Rightarrow> StructOpsStmt list \<Rightarrow> nat \<Rightarrow> bool" where
  "names_ok v body v' \<longleftrightarrow>
     distinct (declNames body) \<and> (\<forall>x \<in> set (declNames body). nameIn v v' x) \<and> v \<le> v'"

lemma names_ok_Nil [simp]: "names_ok v [] v"
  by (simp add: names_ok_def)

lemma names_ok_append:
  assumes "names_ok u a v" and "names_ok v b w"
  shows "names_ok u (a @ b) w"
proof -
  from assms have uv: "u \<le> v" and vw: "v \<le> w" by (simp_all add: names_ok_def)
  have "set (declNames a) \<inter> set (declNames b) = {}"
    using assms nameIn_disjoint [of u v _ v w] by (auto simp: names_ok_def)
  moreover have "nameIn u w x" if "nameIn u v x \<or> nameIn v w x" for x
    using that uv vw by (auto intro: nameIn_mono)
  ultimately show ?thesis
    using assms by (auto simp: names_ok_def)
qed

lemma names_ok_silent: "declNames [st] = [] \<Longrightarrow> v' = v \<Longrightarrow> names_ok v [st] v'"
  by (simp add: names_ok_def)

lemma names_ok_local: "declNames [st] = [localName v] \<Longrightarrow> v' = Suc v \<Longrightarrow> names_ok v [st] v'"
  by (auto simp: names_ok_def nameIn_def)

lemma names_ok_iter:
  assumes "names_ok (Suc n) body n'"
  shows "names_ok n [SubflowIter n (iterVarName n) ct sk body] n'"
proof -
  have "\<not> nameIn (Suc n) n' (iterObjName n)" "\<not> nameIn (Suc n) n' (iterVarName n)"
    by (auto simp: nameIn_def)
  moreover have "nameIn n n' x" if "nameIn (Suc n) n' x" for x
    using that by (rule nameIn_mono) simp_all
  moreover have "nameIn n n' (iterObjName n)" "nameIn n n' (iterVarName n)"
    using assms by (auto simp: names_ok_def nameIn_def)
  ultimately show ?thesis
    using assms by (auto simp: names_ok_def)
qed

lemma names_ok_if:
  assumes "names_ok u b1 v" and "names_ok v b2 w"
  shows "names_ok u [IfElse cv op val b1 b2] w"
  using names_ok_append [OF assms] by (simp add: names_ok_def)

definition names_inv :: "bodyScope \<Rightarrow> nat \<Rightarrow> genState \<Rightarrow> bool" where
  "names_inv sc v gs \<longleftrightarrow> names_ok v (gs_body gs) (gs_varId gs)"

lemma names_append:
  "names_inv sc v gs \<Longrightarrow> gs_body gs' = gs_body gs @ [st] \<Longrightarrow>
   names_ok (gs_varId gs) [st] (gs_varId gs') \<Longrightarrow> names_inv sc v gs'"
  by (auto simp: names_inv_def intro: names_ok_append)

lemma names_rng: "names_inv sc v gs \<Longrightarrow> names_inv sc v (gs\<lparr>gs_rng := r\<rparr>)"
  by (simp add: names_inv_def)

lemma names_ctx_read: "names_inv sc v gs \<Longrightarrow> emitCtxRead sc gs = Some gs' \<Longrightarrow> names_inv sc v gs'"
  by (fastforce dest: emitCtxRead_appends elim: names_append intro: names_ok_local)

lemma names_ctx_write: "names_inv sc v gs \<Longrightarrow> emitCtxWrite sc gs = Some gs' \<Longrightarrow> names_inv sc v gs'"
  by (fastforce dest: emitCtxWrite_appends elim: names_append intro: names_ok_silent)

lemma names_arith: "names_inv sc v gs \<Longrightarrow> emitArith gs = Some gs' \<Longrightarrow> names_inv sc v gs'"
  by (fastforce dest: emitArith_appends elim: names_append intro: names_ok_local)

lemma names_bindKfunc: "names_inv sc v gs \<Longrightarrow> names_inv sc v (bindKfunc ki kf args gs)"
  using bindKfunc_appends [of ki kf args gs]
  by (fastforce elim: names_append intro: names_ok_local names_ok_silent)

lemma names_kfunc:
  "names_inv sc v gs \<Longrightarrow> emitKfuncCall sop sc gs = Some gs' \<Longrightarrow> names_inv sc v gs'"
  by (auto elim!: emitKfuncCall_cases intro: names_ctx_read names_bindKfunc names_rng)

interpretation naming: body_invariant sop "\<lambda>sc v. True" names_inv "\<lambda>sc v body v'. names_ok v body v'"
  for sop
proof unfold_locales
  fix sc v gs r
  show "names_inv sc v (initGenState sc v r)"
    by (simp add: names_inv_def initGenState_def)
  assume inv: "names_inv sc v gs"
  show "names_inv sc v (gs\<lparr>gs_rng := r\<rparr>)" using inv by (simp add: names_inv_def)
  show "names_ok v (gs_body gs) (gs_varId gs)" using inv by (simp add: names_inv_def)
next
  fix sc v gs cv op val b1 n'
  assume inv: "names_inv sc v gs" and "names_ok (gs_varId gs) b1 n'"
  then show "names_inv sc v (gs\<lparr>gs_body := gs_body gs @ [IfElse cv op val b1 []], gs_varId := n'\<rparr>)"
    by (intro names_append [OF inv]) (auto intro: names_ok_if)
qed (fastforce intro: names_ctx_read names_ctx_write names_arith names_kfunc elim: names_append
    intro: names_ok_iter names_ok_if)+

subsection \<open>Nesting and size\<close>

fun ifDepth :: "StructOpsStmt list \<Rightarrow> nat" where
  "ifDepth [] = 0"
| "ifDepth (SubflowIter k v ct sk body # b) = max (ifDepth body) (ifDepth b)"
| "ifDepth (IfElse cv op val b1 b2 # b) = max (Suc (max (ifDepth b1) (ifDepth b2))) (ifDepth b)"
| "ifDepth (_ # b) = ifDepth b"

fun countStmts :: "StructOpsStmt list \<Rightarrow> nat" where
  "countStmts [] = 0"
| "countStmts (SubflowIter k v ct sk body # b) = Suc (countStmts body + countStmts b)"
| "countStmts (IfElse cv op val b1 b2 # b) = Suc (countStmts b1 + countStmts b2 + countStmts b)"
| "countStmts (_ # b) = Suc (countStmts b)"

lemma ifDepth_append [simp]: "ifDepth (a @ b) = max (ifDepth a) (ifDepth b)"
  by (induction a rule: ifDepth.induct) auto

lemma countStmts_append [simp]: "countStmts (a @ b) = countStmts a + countStmts b"
  by (induction a rule: countStmts.induct) auto

definition ifLevels :: "bodyScope \<Rightarrow> nat" where
  "ifLevels sc = (if sc_allowIf sc then ifElseMaxDepth - sc_depth sc else 0)"

fun stmtBudget :: "nat \<Rightarrow> bool \<Rightarrow> nat" where
  "stmtBudget 0 iter = (if iter then 4 else 1)"
| "stmtBudget (Suc l) iter = Suc (6 * stmtBudget l iter)"

lemma stmtBudget_pos: "0 < stmtBudget l iter"
  by (induction l) auto

lemma stmtBudget_iter: "4 \<le> stmtBudget l True"
  by (induction l) auto

definition size_inv :: "bodyScope \<Rightarrow> nat \<Rightarrow> genState \<Rightarrow> bool" where
  "size_inv sc v gs \<longleftrightarrow> ifDepth (gs_body gs) \<le> ifLevels sc \<and>
     countStmts (gs_body gs) \<le> length (gs_body gs) * stmtBudget (ifLevels sc) (sc_allowIter sc)"

definition size_post :: "bodyScope \<Rightarrow> nat \<Rightarrow> StructOpsStmt list \<Rightarrow> nat \<Rightarrow> bool" where
  "size_post sc v body v' \<longleftrightarrow> ifDepth body \<le> ifLevels sc \<and>
     countStmts body \<le> length body * stmtBudget (ifLevels sc) (sc_allowIter sc) \<and>
     sc_minStmt sc \<le> length body \<and> length body < sc_minStmt sc + stmtSpan sc"

lemma size_append:
  assumes "size_inv sc v gs" and "gs_body gs' = gs_body gs @ [st]"
    and "ifDepth [st] \<le> ifLevels sc"
    and "countStmts [st] \<le> stmtBudget (ifLevels sc) (sc_allowIter sc)"
  shows "size_inv sc v gs'"
  using assms by (auto simp: size_inv_def)

lemma size_rng: "size_inv sc v gs \<Longrightarrow> size_inv sc v (gs\<lparr>gs_rng := r\<rparr>)"
  by (simp add: size_inv_def)

lemma size_leaf:
  "size_inv sc v gs \<Longrightarrow> gs_body gs' = gs_body gs @ [st] \<Longrightarrow> ifDepth [st] = 0 \<Longrightarrow>
   countStmts [st] = 1 \<Longrightarrow> size_inv sc v gs'"
  using stmtBudget_pos [of "ifLevels sc" "sc_allowIter sc"]
  by (auto intro: size_append)

lemma size_ctx_read: "size_inv sc v gs \<Longrightarrow> emitCtxRead sc gs = Some gs' \<Longrightarrow> size_inv sc v gs'"
  by (fastforce dest: emitCtxRead_appends elim: size_leaf)

lemma size_ctx_write: "size_inv sc v gs \<Longrightarrow> emitCtxWrite sc gs = Some gs' \<Longrightarrow> size_inv sc v gs'"
  by (fastforce dest: emitCtxWrite_appends elim: size_leaf)

lemma size_arith: "size_inv sc v gs \<Longrightarrow> emitArith gs = Some gs' \<Longrightarrow> size_inv sc v gs'"
  by (fastforce dest: emitArith_appends elim: size_leaf)

lemma size_bindKfunc: "size_inv sc v gs \<Longrightarrow> size_inv sc v (bindKfunc ki kf args gs)"
  using bindKfunc_appends [of ki kf args gs] by (fastforce elim: size_leaf)

lemma size_kfunc:
  "size_inv sc v gs \<Longrightarrow> emitKfuncCall sop sc gs = Some gs' \<Longrightarrow> size_inv sc v gs'"
  by (auto elim!: emitKfuncCall_cases intro: size_ctx_read size_bindKfunc size_rng)

lemma size_iter:
  assumes "size_inv sc v gs" and "KSubflowIter \<in> set (bodyKinds sc)"
    and "size_post (loopScope x) n body n'"
  shows "size_inv sc v (gs\<lparr>gs_body := gs_body gs @ [SubflowIter k y ct sk body], gs_varId := n'\<rparr>)"
proof -
  have iter: "sc_allowIter sc" using assms(2) by (auto simp: bodyKinds_def split: if_splits)
  have "ifDepth body = 0" "countStmts body \<le> 3"
    using assms(3) by (auto simp: size_post_def ifLevels_def loopScope_def stmtSpan_def)
  then show ?thesis
    using iter stmtBudget_iter [of "ifLevels sc"] by (intro size_append [OF assms(1)]) auto
qed

lemma size_branch:
  assumes kind: "KIfElse \<in> set (bodyKinds sc)" and post: "size_post (branchScope sc pool) n b n'"
  shows "Suc (ifDepth b) \<le> ifLevels sc"
    and "countStmts b \<le> 3 * stmtBudget (ifLevels sc - 1) (sc_allowIter sc)"
proof -
  from kind have "sc_allowIf sc" "sc_depth sc < 2"
    by (auto simp: bodyKinds_def ifElseMaxDepth_def split: if_splits)
  then have lev: "ifLevels sc = Suc (ifLevels (branchScope sc pool))"
    by (auto simp: ifLevels_def branchScope_def ifElseMaxDepth_def)
  with post show "Suc (ifDepth b) \<le> ifLevels sc" by (simp add: size_post_def)
  have "length b \<le> 3"
    using post by (auto simp: size_post_def branchScope_def stmtSpan_def)
  moreover have "sc_allowIter (branchScope sc pool) = sc_allowIter sc"
    by (simp add: branchScope_def)
  with post lev have "countStmts b \<le> length b * stmtBudget (ifLevels sc - 1) (sc_allowIter sc)"
    by (simp add: size_post_def)
  ultimately show "countStmts b \<le> 3 * stmtBudget (ifLevels sc - 1) (sc_allowIter sc)"
    by (meson le_trans mult_le_mono1)
qed

lemma size_if:
  assumes inv: "size_inv sc v gs" and kind: "KIfElse \<in> set (bodyKinds sc)"
    and b1: "size_post (branchScope sc pool) n b1 n1"
    and b2: "b2 = [] \<or> size_post (branchScope sc pool) n1 b2 n2"
  shows "size_inv sc v (gs\<lparr>gs_body := gs_body gs @ [IfElse cv op val b1 b2], gs_varId := n2\<rparr>)"
proof (rule size_append [OF inv])
  let ?p = "stmtBudget (ifLevels sc - 1) (sc_allowIter sc)"
  note b1' = size_branch [OF kind b1]
  have b2': "Suc (ifDepth b2) \<le> ifLevels sc" "countStmts b2 \<le> 3 * ?p"
    using b2 b1'(1) size_branch [OF kind, of pool n1 b2 n2] by auto
  show "ifDepth [IfElse cv op val b1 b2] \<le> ifLevels sc"
    using b1' b2' by simp
  have "stmtBudget (ifLevels sc) (sc_allowIter sc) = Suc (6 * ?p)"
    using b1'(1) by (cases "ifLevels sc") auto
  with b1' b2' show "countStmts [IfElse cv op val b1 b2]
      \<le> stmtBudget (ifLevels sc) (sc_allowIter sc)"
    by simp
qed simp

interpretation sizing: body_invariant sop "\<lambda>sc v. True" size_inv size_post for sop
proof unfold_locales
  fix sc v r
  show "size_inv sc v (initGenState sc v r)" by (simp add: size_inv_def initGenState_def)
next
  fix sc v gs
  assume "size_inv sc v gs" and "sc_minStmt sc \<le> length (gs_body gs)"
    and "length (gs_body gs) < sc_minStmt sc + stmtSpan sc"
  then show "size_post sc v (gs_body gs) (gs_varId gs)" by (simp add: size_inv_def size_post_def)
qed (auto intro: size_rng size_ctx_read size_ctx_write size_arith size_kfunc size_iter size_if)

subsection \<open>The required write\<close>

lemma chooseKind_write:
  assumes "chooseKind sop sc nStmt i gs = Some (kind, r)" and "sc_requireWrite sc" and "Suc i = nStmt"
    and "\<not> (\<exists>st \<in> set (gs_body gs). Kind st = KCtxWrite)"
  shows "kind = KCtxWrite"
  using assms
  by (auto simp: chooseKind_def biasWrite_def operandFallback_def kfuncFallback_def Let_def
      Option.bind_eq_Some_conv)

lemma genStmt_appends:
  assumes "genStmt sop sc kind gs = Some gs'"
  shows "\<exists>st. gs_body gs' = gs_body gs @ [st] \<and> (kind = KCtxWrite \<longrightarrow> Kind st = KCtxWrite)"
proof (cases kind)
  case KKfuncCall
  with assms have "emitKfuncCall sop sc gs = Some gs'" by (simp add: genStmt_def)
  then show ?thesis
  proof (cases rule: emitKfuncCall_cases)
    case (1 r)
    with KKfuncCall show ?thesis by (auto dest: emitCtxRead_appends)
  next
    case (2 ki kf args r)
    with KKfuncCall show ?thesis using bindKfunc_appends [of ki kf args "gs\<lparr>gs_rng := r\<rparr>"] by auto
  qed
qed (use assms in \<open>auto simp: genStmt_def Option.bind_eq_Some_conv dest!: emitCtxRead_appends
    emitCtxWrite_appends emitArith_appends\<close>)

lemma genBodyLoop_write:
  assumes "sc_requireWrite sc"
  shows "genBodyLoop sop sc nStmt i gs = Some gs' \<Longrightarrow> i < nStmt \<Longrightarrow>
    \<exists>st \<in> set (gs_body gs'). Kind st = KCtxWrite"
proof (induction "nStmt - i" arbitrary: i gs)
  case (Suc n)
  from Suc.prems obtain kind r gs1 where
      kind: "chooseKind sop sc nStmt i gs = Some (kind, r)"
    and st: "genStmt sop sc kind (gs\<lparr>gs_rng := r\<rparr>) = Some gs1"
    and rest: "genBodyLoop sop sc nStmt (Suc i) gs1 = Some gs'"
    by (rule genBodyLoop_nextE)
  show ?case
  proof (cases "Suc i < nStmt")
    case True
    from Suc.hyps(2) have "n = nStmt - Suc i" by simp
    from Suc.hyps(1) [OF this rest True] show ?thesis .
  next
    case False
    with Suc.prems(2) have last: "Suc i = nStmt" by simp
    with rest have "gs' = gs1" by (simp add: genBodyLoop_done)
    moreover obtain s where "gs_body gs1 = gs_body gs @ [s]"
      and "kind = KCtxWrite \<longrightarrow> Kind s = KCtxWrite"
      using genStmt_appends [OF st] by auto
    ultimately show ?thesis
      using chooseKind_write [OF kind assms last] by auto
  qed
qed simp

lemma genStructOpsBody_write:
  assumes "genStructOpsBody sop sc v r = Some (body, v', r')"
    and "sc_requireWrite sc" and "0 < sc_minStmt sc"
  shows "\<exists>st \<in> set body. Kind st = KCtxWrite"
  using assms(1) by (rule genStructOpsBodyE) (use assms(2,3) in \<open>auto dest: genBodyLoop_write\<close>)

end
