(* ===== verification/StructOps_Render.thy ===== *)
theory StructOps_Render
  imports StructOps_Paths StructOps_Shape
begin

text \<open>
  The renderer of \<^verbatim>\<open>prog/brf_structops.go\<close>: the statement walk, the set of externs a scheduler
  needs, and the C translation unit. Writing to the buffer is concatenation; indexing the kfunc
  table out of range is the value None, as it panics in the code.

  The lemmas show that the walk visits the whole statement tree, that the emitted externs are
  exactly the ones the callbacks can call, and that a body accepted by \<open>checkBody\<close> renders to text
  in which every brace is closed.
\<close>

fun walkStmts :: "StructOpsStmt list \<Rightarrow> (StructOpsStmt \<Rightarrow> 's \<Rightarrow> 's) \<Rightarrow> 's \<Rightarrow> 's" where
  "walkStmts [] fn s = s"
| "walkStmts (st # rest) fn s =
     (let s1 = fn st s;
          s2 = (case st of
                  SubflowIter k v ct sk body \<Rightarrow> walkStmts body fn s1
                | IfElse cv op val b1 b2 \<Rightarrow> walkStmts b2 fn (walkStmts b1 fn s1)
                | _ \<Rightarrow> s1)
      in walkStmts rest fn s2)"

definition usesSubflowIter :: "StructOpsProg \<Rightarrow> bool" where
  "usesSubflowIter sop =
     fold (\<lambda>b. walkStmts b (\<lambda>st found. if Kind st = KSubflowIter then True else found))
       [GetSendBody sop, InitBody sop, ReleaseBody sop] False"

definition usedKfuncSet :: "StructOpsProg \<Rightarrow> nat set" where
  "usedKfuncSet sop =
     fold (\<lambda>b. walkStmts b
         (\<lambda>st used. if Kind st = KKfuncCall then insert (KfuncIdx st) used else used))
       [GetSendBody sop, InitBody sop, ReleaseBody sop]
       (fold (\<lambda>(ki, kf) used.
           if kf_Name kf = ''bpf_mptcp_subflow_ctx'' \<or> kf_Name kf = ''mptcp_subflow_set_scheduled''
           then insert ki used else used)
         (enumerate 0 (Kfuncs sop)) {})"

definition usedKfuncIdxs :: "StructOpsProg \<Rightarrow> nat list" where
  "usedKfuncIdxs sop = filter (\<lambda>ki. ki \<in> usedKfuncSet sop) [0..<length (Kfuncs sop)]"

definition renderArgs :: "string list \<Rightarrow> string" where
  "renderArgs args =
     fold (\<lambda>(ai, a) argList. argList @ (if 0 < ai then '', '' else []) @ a) (enumerate 0 args) []"

definition renderKfuncCall ::
  "BpfKfunc list \<Rightarrow> nat \<Rightarrow> string list \<Rightarrow> string \<Rightarrow> string \<Rightarrow> bool \<Rightarrow> string \<Rightarrow> string option" where
  "renderKfuncCall kfs ki args v ct g indent =
     (if ki < length kfs then
        Some ((if v = [] then indent @ kf_Name (kfs ! ki) @ ''('' @ renderArgs args @ '');'' @ NL
               else indent @ ct @ '' '' @ v @ '' = '' @ kf_Name (kfs ! ki) @ ''('' @
                 renderArgs args @ '');'' @ NL) @
              (if g then indent @ ''if (!'' @ v @ '')'' @ NL @ indent @ TAB @ ''return -1;'' @ NL
               else []))
      else None)"

fun renderBody :: "BpfKfunc list \<Rightarrow> StructOpsStmt list \<Rightarrow> string \<Rightarrow> string option"
  and renderStmt :: "BpfKfunc list \<Rightarrow> StructOpsStmt \<Rightarrow> string \<Rightarrow> string option"
where
  "renderBody kfs [] indent = Some []"
| "renderBody kfs (st # rest) indent = do {
     s \<leftarrow> renderStmt kfs st indent;
     s' \<leftarrow> renderBody kfs rest indent;
     Some (s @ s')
   }"
| "renderStmt kfs (CtxRead fi acc fct v ct) indent =
     Some (indent @ fct @ '' '' @ v @ '' = '' @ acc @ '';'' @ NL)"
| "renderStmt kfs (CtxWrite fi acc fct val) indent =
     Some (indent @ acc @ '' = '' @ fmt_d val @ '';'' @ NL)"
| "renderStmt kfs (Arith v ct src op val) indent =
     Some (indent @ ct @ '' '' @ v @ '' = '' @ src @ '' '' @ op @ '' '' @ fmt_d val @ '';'' @ NL)"
| "renderStmt kfs (KfuncCall ki args v ct g) indent = renderKfuncCall kfs ki args v ct g indent"
| "renderStmt kfs (SubflowIter k v ct sk body) indent = do {
     loop \<leftarrow> renderBody kfs body (indent @ TAB);
     let itVar = ''it'' @ fmt_nat k;
     Some (indent @ ''/* BRF-generated subflow iterator. */'' @ NL @
       indent @ ''struct bpf_iter_mptcp_subflow '' @ itVar @ '';'' @ NL @
       indent @ ''struct mptcp_subflow_context *'' @ v @ '';'' @ NL @
       indent @ ''bpf_iter_mptcp_subflow_new(&'' @ itVar @ '', '' @ sk @ '');'' @ NL @
       indent @ ''while (('' @ v @ '' = bpf_iter_mptcp_subflow_next(&'' @ itVar @ ''))) {'' @ NL @
       loop @
       indent @ ''}'' @ NL @
       indent @ ''bpf_iter_mptcp_subflow_destroy(&'' @ itVar @ '');'' @ NL)
   }"
| "renderStmt kfs (IfElse cv op val b1 b2) indent = do {
     let cond = (if op = [] then cv else cv @ '' '' @ op @ '' '' @ fmt_d val);
     s1 \<leftarrow> renderBody kfs b1 (indent @ TAB);
     s2 \<leftarrow> (if b2 \<noteq> [] then do {
              s \<leftarrow> renderBody kfs b2 (indent @ TAB);
              Some (indent @ ''} else {'' @ NL @ s)
            } else Some []);
     Some (indent @ ''/* BRF-generated if/else. */'' @ NL @
       indent @ ''if ('' @ cond @ '') {'' @ NL @ s1 @ s2 @ indent @ ''}'' @ NL)
   }"

definition renderPrelude :: "StructOpsProg \<Rightarrow> string" where
  "renderPrelude sop =
     ''// SPDX-License-Identifier: GPL-2.0'' @ NL @
     ''/* BRF-generated MPTCP struct_ops scheduler (Phase 3, Stage C). */'' @ NL @
     ''#include '' @ DQ @ ''vmlinux.h'' @ DQ @ NL @
     ''#include <bpf/bpf_helpers.h>'' @ NL @
     ''#include <bpf/bpf_tracing.h>'' @ NL @ NL @
     ''char _license[] SEC('' @ DQ @ ''license'' @ DQ @ '') = '' @ DQ @ ''GPL'' @ DQ @ '';'' @ NL @ NL @
     ''/* MPTCP scheduler kfuncs (net/mptcp/bpf.c). */'' @ NL @
     concat (map (\<lambda>ki. kf_CDecl (Kfuncs sop ! ki) @ NL) (usedKfuncIdxs sop)) @
     (if usesSubflowIter sop then
        ''/* MPTCP subflow-iterator kfuncs (net/mptcp/bpf.c). */'' @ NL @
        concat (map (\<lambda>kf. kf_CDecl kf @ NL) (IterKfuncs sop))
      else []) @ NL"

definition renderEmpty :: "StructOpsStmt list \<Rightarrow> string" where
  "renderEmpty body = (if body = [] then TAB @ ''/* (empty) */'' @ NL else [])"

definition renderVoidCallback :: "StructOpsProg \<Rightarrow> string \<Rightarrow> StructOpsStmt list \<Rightarrow> string option" where
  "renderVoidCallback sop suffix body = do {
     s \<leftarrow> renderBody (Kfuncs sop) body TAB;
     Some (''SEC('' @ DQ @ ''struct_ops'' @ DQ @ '')'' @ NL @
       ''void BPF_PROG('' @ SchedName sop @ suffix @ '', struct mptcp_sock *msk)'' @ NL @ ''{'' @ NL @
       TAB @ ''/* BRF-generated body. */'' @ NL @ renderEmpty body @ s @ ''}'' @ NL @ NL)
   }"

definition renderGetSend :: "StructOpsProg \<Rightarrow> string option" where
  "renderGetSend sop = do {
     s \<leftarrow> renderBody (Kfuncs sop) (GetSendBody sop) TAB;
     Some (''SEC('' @ DQ @ ''struct_ops'' @ DQ @ '')'' @ NL @
       ''int BPF_PROG('' @ SchedName sop @ ''_get_send, struct mptcp_sock *msk)'' @ NL @ ''{'' @ NL @
       TAB @ ''struct mptcp_subflow_context *subflow;'' @ NL @ NL @
       TAB @ ''subflow = bpf_mptcp_subflow_ctx(msk->first);'' @ NL @
       TAB @ ''if (!subflow)'' @ NL @ TAB @ TAB @ ''return -1;'' @ NL @ NL @
       TAB @ ''/* BRF-generated body. */'' @ NL @ renderEmpty (GetSendBody sop) @ s @ NL @
       TAB @ ''mptcp_subflow_set_scheduled(subflow, true);'' @ NL @
       TAB @ ''return 0;'' @ NL @ ''}'' @ NL @ NL)
   }"

definition renderOpsMap :: "StructOpsProg \<Rightarrow> string" where
  "renderOpsMap sop =
     ''SEC('' @ DQ @ ''.struct_ops.link'' @ DQ @ '')'' @ NL @
     ''struct mptcp_sched_ops '' @ SchedName sop @ '' = {'' @ NL @
     TAB @ ''.init'' @ TAB @ TAB @ ''= (void *)'' @ SchedName sop @ ''_init,'' @ NL @
     TAB @ ''.release'' @ TAB @ ''= (void *)'' @ SchedName sop @ ''_release,'' @ NL @
     TAB @ ''.get_send'' @ TAB @ ''= (void *)'' @ SchedName sop @ ''_get_send,'' @ NL @
     TAB @ ''.name'' @ TAB @ TAB @ ''= '' @ DQ @ SchedName sop @ DQ @ '','' @ NL @
     ''};'' @ NL"

definition genStructOpsSource :: "StructOpsProg \<Rightarrow> string option" where
  "genStructOpsSource sop = do {
     ini \<leftarrow> renderVoidCallback sop ''_init'' (InitBody sop);
     rel \<leftarrow> renderVoidCallback sop ''_release'' (ReleaseBody sop);
     send \<leftarrow> renderGetSend sop;
     Some (renderPrelude sop @ ini @ rel @ send @ renderOpsMap sop)
   }"

subsection \<open>The walk and the externs\<close>

fun visit :: "StructOpsStmt list \<Rightarrow> StructOpsStmt list" where
  "visit [] = []"
| "visit (SubflowIter k v ct sk body # rest) = SubflowIter k v ct sk body # visit body @ visit rest"
| "visit (IfElse cv op val b1 b2 # rest) = IfElse cv op val b1 b2 # visit b1 @ visit b2 @ visit rest"
| "visit (st # rest) = st # visit rest"

lemma walkStmts_visit: "walkStmts body fn s = fold fn (visit body) s"
  by (induction body arbitrary: s rule: visit.induct) auto

definition allStmts :: "StructOpsProg \<Rightarrow> StructOpsStmt set" where
  "allStmts sop = set (visit (GetSendBody sop)) \<union> set (visit (InitBody sop)) \<union>
     set (visit (ReleaseBody sop))"

lemma fold_or: "fold (\<lambda>st found. if P st then True else found) xs b = (b \<or> (\<exists>st \<in> set xs. P st))"
  by (induction xs arbitrary: b) auto

lemma fold_insert:
  "fold (\<lambda>x used. if P x then insert (f x) used else used) xs U = U \<union> f ` {x \<in> set xs. P x}"
  by (induction xs arbitrary: U) auto

lemma usesSubflowIter_iff:
  "usesSubflowIter sop \<longleftrightarrow> (\<exists>st \<in> allStmts sop. Kind st = KSubflowIter)"
  by (auto simp: usesSubflowIter_def walkStmts_visit fold_or allStmts_def)

lemma usedKfuncSet_eq:
  "usedKfuncSet sop =
     {ki. ki < length (Kfuncs sop) \<and> kf_Name (Kfuncs sop ! ki) \<in> set fixedKfuncs} \<union>
     KfuncIdx ` {st \<in> allStmts sop. Kind st = KKfuncCall}"
proof -
  have "fold (\<lambda>(ki, kf) used. if kf_Name kf = ''bpf_mptcp_subflow_ctx'' \<or>
          kf_Name kf = ''mptcp_subflow_set_scheduled'' then insert ki used else used)
        (enumerate 0 (Kfuncs sop)) {} =
      fst ` {x \<in> set (enumerate 0 (Kfuncs sop)). kf_Name (snd x) \<in> set fixedKfuncs}"
    using fold_insert [of "\<lambda>x. kf_Name (snd x) \<in> set fixedKfuncs" fst "enumerate 0 (Kfuncs sop)" "{}"]
    by (simp add: split_def fixedKfuncs_def)
  also have "\<dots> = {ki. ki < length (Kfuncs sop) \<and> kf_Name (Kfuncs sop ! ki) \<in> set fixedKfuncs}"
    by (force simp: in_set_enumerate_eq image_iff)
  finally show ?thesis
    by (auto simp: usedKfuncSet_def walkStmts_visit fold_insert allStmts_def)
qed

lemma usedKfuncIdxs_iff:
  "ki \<in> set (usedKfuncIdxs sop) \<longleftrightarrow> ki < length (Kfuncs sop) \<and>
     (kf_Name (Kfuncs sop ! ki) \<in> set fixedKfuncs \<or>
      (\<exists>st \<in> allStmts sop. Kind st = KKfuncCall \<and> KfuncIdx st = ki))"
  by (auto simp: usedKfuncIdxs_def usedKfuncSet_eq)

lemma usedKfuncIdxs_sorted: "sorted_wrt (<) (usedKfuncIdxs sop)"
  by (auto simp: usedKfuncIdxs_def intro: sorted_wrt_filter)

text \<open>
  The events a body can produce are exactly the ones of its visited statements: a path shows no
  others, and each of them is on a path.
\<close>

fun stmtEvents :: "BpfKfunc list \<Rightarrow> StructOpsStmt \<Rightarrow> event set" where
  "stmtEvents kfs (KfuncCall ki args v ct g) = {ECall (kf_Name (kfs ! ki))}"
| "stmtEvents kfs (CtxWrite fi acc fct val) = {EWrite acc}"
| "stmtEvents kfs (SubflowIter k v ct sk body) = {EIterNew k, EIterNext k, EIterDestroy k}"
| "stmtEvents kfs _ = {}"

definition events :: "BpfKfunc list \<Rightarrow> StructOpsStmt list \<Rightarrow> event set" where
  "events kfs body = \<Union> (stmtEvents kfs ` set (visit body))"

lemma events_simps [simp]:
  "events kfs [] = {}"
  "events kfs [CtxRead fi acc fct v ct] = {}"
  "events kfs [CtxWrite fi acc fct val] = {EWrite acc}"
  "events kfs [Arith v ct src op val] = {}"
  "events kfs [KfuncCall ki args v ct g] = {ECall (kf_Name (kfs ! ki))}"
  "events kfs [SubflowIter k v ct sk body] =
     {EIterNew k, EIterNext k, EIterDestroy k} \<union> events kfs body"
  "events kfs [IfElse cv op val b1 b2] = events kfs b1 \<union> events kfs b2"
  by (auto simp: events_def)

lemma events_Cons: "events kfs (st # rest) = events kfs [st] \<union> events kfs rest"
  by (cases st) (auto simp: events_def)

lemma path_events:
  "path kfs body t ret \<Longrightarrow> set t \<subseteq> events kfs body"
  "stmtPath kfs st t ret \<Longrightarrow> set t \<subseteq> events kfs [st]"
  "loopPath kfs k body t ret \<Longrightarrow> set t \<subseteq> insert (EIterNext k) (events kfs body)"
proof (induction rule: path_stmtPath_loopPath.inducts)
  case (path_ret st t rest)
  then show ?case by (auto simp: events_Cons [of kfs st rest])
next
  case (path_seq st t rest u ret)
  then show ?case by (auto simp: events_Cons [of kfs st rest])
qed auto

lemma stmtPath_reaches:
  assumes body: "\<And>b e. b \<in> {IterBody st, IfBody st, ElseBody st} \<Longrightarrow> size_list size b < size st \<Longrightarrow>
      e \<in> events kfs b \<Longrightarrow> \<exists>t. path kfs b t False \<and> e \<in> set t"
    and "e \<in> events kfs [st]"
  shows "\<exists>t. stmtPath kfs st t False \<and> e \<in> set t"
proof (cases st)
  case (SubflowIter k v ct sk b)
  consider "e \<in> {EIterNew k, EIterNext k, EIterDestroy k}" | "e \<in> events kfs b"
    using assms(2) SubflowIter by auto
  then show ?thesis
  proof cases
    case 1
    then show ?thesis unfolding SubflowIter
      by (intro exI [of _ "EIterNew k # [EIterNext k] @ [EIterDestroy k]"] conjI path_iter loop_exit)
        auto
  next
    case 2
    have "\<exists>t. path kfs b t False \<and> e \<in> set t"
      by (rule body) (use 2 SubflowIter in simp_all)
    then obtain t where "path kfs b t False" "e \<in> set t" by blast
    then show ?thesis unfolding SubflowIter
      by (intro exI [of _ "EIterNew k # (EIterNext k # t @ [EIterNext k]) @ [EIterDestroy k]"] conjI
          path_iter loop_round loop_exit) auto
  qed
next
  case (IfElse cv op val b1 b2)
  have "\<exists>t. path kfs b1 t False \<and> e \<in> set t" if "e \<in> events kfs b1"
    by (rule body) (use that IfElse in simp_all)
  moreover have "\<exists>t. path kfs b2 t False \<and> e \<in> set t" if "e \<in> events kfs b2"
    by (rule body) (use that IfElse in simp_all)
  ultimately show ?thesis
    using assms(2) IfElse by (auto intro: path_if path_else)
next
  case (CtxWrite fi acc fct val)
  with assms(2) show ?thesis using path_write [of kfs fi acc fct val] by fastforce
next
  case (KfuncCall ki args v ct g)
  with assms(2) show ?thesis using path_call [of kfs ki args v ct g] by fastforce
qed (use assms(2) in auto)

lemma path_reaches: "e \<in> events kfs body \<Longrightarrow> \<exists>t. path kfs body t False \<and> e \<in> set t"
proof (induction "size_list size body" arbitrary: body e rule: less_induct)
  case less
  show ?case
  proof (cases body)
    case Nil
    with less.prems show ?thesis by simp
  next
    case (Cons st rest)
    obtain u where u: "path kfs rest u False" using path_total by blast
    obtain t where t: "stmtPath kfs st t False" using stmtPath_total by blast
    consider "e \<in> events kfs [st]" | "e \<in> events kfs rest"
      using less.prems Cons events_Cons [of kfs st rest] by auto
    then show ?thesis
    proof cases
      case 1
      have "\<exists>t. stmtPath kfs st t False \<and> e \<in> set t"
        by (rule stmtPath_reaches [OF _ 1]) (use less.hyps Cons in auto)
      then obtain t' where "stmtPath kfs st t' False" "e \<in> set t'" by blast
      with path_seq [OF this(1) u] Cons show ?thesis by fastforce
    next
      case 2
      with less.hyps [of rest e] Cons obtain u' where "path kfs rest u' False" "e \<in> set u'" by auto
      with path_seq [OF t this(1)] Cons show ?thesis by fastforce
    qed
  qed
qed

subsection \<open>Braces\<close>

fun braces :: "nat \<Rightarrow> string \<Rightarrow> nat option" where
  "braces d [] = Some d"
| "braces d (c # s) =
     (if c = CHR ''{'' then braces (Suc d) s
      else if c = CHR ''}'' then (if d = 0 then None else braces (d - 1) s)
      else braces d s)"

definition balanced :: "string \<Rightarrow> bool" where
  "balanced s \<longleftrightarrow> (\<forall>d. braces d s = Some d)"

fun braceFree :: "string \<Rightarrow> bool" where
  "braceFree [] = True"
| "braceFree (c # s) = (c \<noteq> CHR ''{'' \<and> c \<noteq> CHR ''}'' \<and> braceFree s)"

lemma braces_append: "braces d (s @ t) = Option.bind (braces d s) (\<lambda>d'. braces d' t)"
  by (induction d s rule: braces.induct) auto

lemma braceFree_append [simp]: "braceFree (s @ t) \<longleftrightarrow> braceFree s \<and> braceFree t"
  by (induction s) auto

lemma braces_free [simp]: "braceFree s \<Longrightarrow> braces d s = Some d"
  by (induction s) auto

lemma balanced_free: "braceFree s \<Longrightarrow> balanced s"
  by (simp add: balanced_def)

lemma balanced_append: "balanced s \<Longrightarrow> balanced t \<Longrightarrow> balanced (s @ t)"
  by (simp add: balanced_def braces_append)

lemma balanced_block:
  "braceFree a \<Longrightarrow> balanced s \<Longrightarrow> braceFree b \<Longrightarrow> braceFree c \<Longrightarrow> balanced (a @ ''{'' @ s @ b @ ''}'' @ c)"
  by (simp add: balanced_def braces_append)

lemma braceFree_dec: "(\<And>c. c \<in> set s \<Longrightarrow> is_dec c) \<Longrightarrow> braceFree s"
proof (induction s)
  case (Cons c s)
  then have "is_dec c" by simp
  then have "c \<noteq> CHR ''{'' \<and> c \<noteq> CHR ''}''" by (auto simp: is_dec_def)
  with Cons show ?case by simp
qed simp

lemma braceFree_fmt [simp]: "braceFree (fmt_nat n)" "braceFree (fmt_d z)"
  by (auto simp: fmt_d_def intro!: braceFree_dec dest: fmt_nat_is_dec)

lemma braceFree_names [simp]:
  "braceFree (localName k)" "braceFree (iterVarName k)" "braceFree (iterObjName k)"
  by (simp_all add: localName_def iterVarName_def iterObjName_def)

lemma nameIn_braceFree: "nameIn m n x \<Longrightarrow> braceFree x"
  by (auto simp: nameIn_def)

lemma braceFree_renderArgs: "list_all braceFree args \<Longrightarrow> braceFree (renderArgs args)"
proof -
  have "braceFree acc \<Longrightarrow> list_all braceFree args \<Longrightarrow>
      braceFree (fold (\<lambda>(ai, a) argList. argList @ (if 0 < ai then '', '' else []) @ a)
        (enumerate n args) acc)" for acc n
    by (induction args arbitrary: acc n) (auto simp: enumerate_simps)
  then show "list_all braceFree args \<Longrightarrow> braceFree (renderArgs args)"
    by (simp add: renderArgs_def)
qed

definition kfsFree :: "BpfKfunc list \<Rightarrow> bool" where
  "kfsFree kfs \<longleftrightarrow> list_all (\<lambda>kf. braceFree (kf_Name kf) \<and> braceFree (kf_RetType kf) \<and>
     braceFree (kf_CDecl kf)) kfs"

definition wfFree :: "ctxWriteField list \<Rightarrow> bool" where
  "wfFree W \<longleftrightarrow> list_all (\<lambda>f. braceFree (wf_accessor f) \<and> braceFree (wf_ctype f)) W"

definition envFree :: "env \<Rightarrow> bool" where
  "envFree env \<longleftrightarrow> (\<forall>v \<in> set (fst env). braceFree (tv_expr v)) \<and>
     (\<forall>(v, ct) \<in> set (snd env). braceFree v \<and> braceFree ct)"

lemma wfFree_nth: "wfFree W \<Longrightarrow> fi < length W \<Longrightarrow> W ! fi = \<lparr>wf_accessor = acc, wf_ctype = fct\<rparr> \<Longrightarrow>
    braceFree acc \<and> braceFree fct"
  by (auto simp: wfFree_def list_all_length)

lemma kfsFree_nth: "kfsFree kfs \<Longrightarrow> ki < length kfs \<Longrightarrow>
    braceFree (kf_Name (kfs ! ki)) \<and> braceFree (kf_RetType (kfs ! ki))"
  by (auto simp: kfsFree_def list_all_length)

lemma ops_braceFree:
  "op \<in> set structOpsArithOps \<Longrightarrow> braceFree op" "op \<in> set structOpsCondOps \<Longrightarrow> braceFree op"
  by (auto simp: structOpsArithOps_def structOpsCondOps_def)

lemma args_braceFree:
  assumes "list_all2 (argOk pool) args pts" and "\<forall>v \<in> set pool. braceFree (tv_expr v)"
  shows "list_all braceFree args"
  using assms by (induction args pts rule: list_all2_induct) (auto simp: argOk_def)

lemma envFree_stmt:
  assumes "envFree env" and "stmtOk kfs W nr env st" and "wfFree W" and "kfsFree kfs"
    and "list_all braceFree (declNames [st])"
  shows "envFree (stmtEnv st env)"
  using assms
  by (cases st)
    (auto simp: envFree_def declare_local_def callOk_def dest: wfFree_nth kfsFree_nth split: if_splits)

lemma renderKfuncCall_balanced:
  assumes "ki < length kfs" and "callOk (kfs ! ki) nr env args v ct g" and "envFree env"
    and "kfsFree kfs" and "braceFree v" and "braceFree ind"
  shows "\<exists>s. renderKfuncCall kfs ki args v ct g ind = Some s \<and> balanced s"
proof -
  have "braceFree (renderArgs args)"
    using assms(2,3) by (intro braceFree_renderArgs) (auto simp: callOk_def envFree_def intro: args_braceFree)
  moreover have "braceFree (kf_Name (kfs ! ki))" "braceFree ct"
    using assms(2) kfsFree_nth [OF assms(4,1)] by (auto simp: callOk_def split: if_splits)
  ultimately show ?thesis
    using assms by (auto simp: renderKfuncCall_def intro!: balanced_free)
qed

lemma declNames_Cons: "declNames (st # rest) = declNames [st] @ declNames rest"
  using declNames_append [of "[st]" rest] by simp

lemma render_iter_balanced:
  assumes "renderBody kfs body (ind @ TAB) = Some s" and "balanced s" and "braceFree ind"
    and "braceFree v" and "braceFree sk"
  shows "\<exists>s. renderStmt kfs (SubflowIter k v ct sk body) ind = Some s \<and> balanced s"
  using assms by (simp add: balanced_def braces_append)

lemma render_if_balanced:
  assumes "renderBody kfs b1 (ind @ TAB) = Some s1" and "balanced s1"
    and "renderBody kfs b2 (ind @ TAB) = Some s2" and "balanced s2" and "braceFree ind"
    and "braceFree cv" and "braceFree op"
  shows "\<exists>s. renderStmt kfs (IfElse cv op val b1 b2) ind = Some s \<and> balanced s"
  using assms by (simp add: balanced_def braces_append)

lemma render_balanced:
  "stmtOk kfs W nr env st \<Longrightarrow> kfsFree kfs \<Longrightarrow> wfFree W \<Longrightarrow> envFree env \<Longrightarrow>
     list_all braceFree (declNames [st]) \<Longrightarrow> braceFree ind \<Longrightarrow>
     \<exists>s. renderStmt kfs st ind = Some s \<and> balanced s"
  "checkBody kfs W nr env body \<Longrightarrow> kfsFree kfs \<Longrightarrow> wfFree W \<Longrightarrow> envFree env \<Longrightarrow>
     list_all braceFree (declNames body) \<Longrightarrow> braceFree ind \<Longrightarrow>
     \<exists>s. renderBody kfs body ind = Some s \<and> balanced s"
proof (induction kfs W nr env st and kfs W nr env body arbitrary: ind and ind
    rule: stmtOk_checkBody.induct)
  case (1 kfs W nr env fi acc fct v ct)
  then show ?case by (auto intro!: balanced_free dest: wfFree_nth)
next
  case (2 kfs W nr env fi acc fct val)
  then show ?case by (auto intro!: balanced_free dest: wfFree_nth)
next
  case (3 kfs W nr env v ct src op val)
  then have "braceFree src \<and> braceFree ct \<and> braceFree op"
    by (auto simp: envFree_def ops_braceFree)
  with 3 show ?case by (auto intro!: balanced_free)
next
  case (4 kfs W nr env ki args v ct g)
  then have "braceFree v" by (cases "v = []") simp_all
  with 4 show ?case using renderKfuncCall_balanced [of ki kfs nr env args v ct g ind] by simp
next
  case (5 kfs W nr env k v ct sk body)
  from 5 have v: "braceFree v" and sk: "braceFree sk" by simp_all
  have "\<exists>s. renderBody kfs body (ind @ TAB) = Some s \<and> balanced s"
    by (rule "5.IH") (use 5 v in \<open>auto simp: wfFree_def envFree_def loopScope_def\<close>)
  then show ?case using render_iter_balanced "5.prems"(6) v sk by blast
next
  case (6 kfs W nr env cv op val b1 b2)
  from 6 have "braceFree cv" "braceFree op" by (auto simp: envFree_def ops_braceFree)
  moreover have "\<exists>s. renderBody kfs b1 (ind @ TAB) = Some s \<and> balanced s"
    by (rule "6.IH"(1)) (use 6 in \<open>auto simp: envFree_def\<close>)
  moreover have "\<exists>s. renderBody kfs b2 (ind @ TAB) = Some s \<and> balanced s"
    by (rule "6.IH"(2)) (use 6 in \<open>auto simp: envFree_def\<close>)
  ultimately show ?case using render_if_balanced "6.prems"(6) by blast
next
  case (7 kfs W nr env)
  show ?case by (simp add: balanced_def)
next
  case (8 kfs W nr env st rest)
  from 8 have st: "stmtOk kfs W nr env st" and rest: "checkBody kfs W nr (stmtEnv st env) rest"
    and free: "list_all braceFree (declNames [st])" "list_all braceFree (declNames rest)"
    using declNames_Cons [of st rest] by (simp_all del: declNames.simps)
  from "8.IH"(1) [OF st "8.prems"(2-4) free(1) "8.prems"(6)]
  obtain s where s: "renderStmt kfs st ind = Some s" "balanced s" by blast
  have "envFree (stmtEnv st env)" using st 8 free by (intro envFree_stmt) auto
  from "8.IH"(2) [OF rest "8.prems"(2,3) this free(2) "8.prems"(6)]
  obtain s' where "renderBody kfs rest ind = Some s'" "balanced s'" by blast
  with s show ?case by (simp add: balanced_append)
qed

lemmas renderBody_balanced = render_balanced(2)

end
