(* ===== verification/StructOps_Props.thy ===== *)
theory StructOps_Props
  imports StructOps_Total StructOps_Render
begin

text \<open>
  The properties of the struct_ops generator as a whole: what holds of the scheduler
  \<open>genStructOpsProg\<close> returns and of the C text \<open>genStructOpsSource\<close> makes of it, for every stream
  of random choices. Each of them also says that the generator returns (it neither panics nor
  diverges); the component theories carry the proofs.
\<close>

lemma genSchedName_eq:
  "\<exists>k r'. k < 2 ^ 24 \<and> Intn (2 ^ 24) r = Some (k, r') \<and>
     genSchedName r = Some (''brf_'' @ fmt_x k, r') \<and> length (''brf_'' @ fmt_x k) \<le> 10"
proof -
  obtain k r' where k: "Intn (2 ^ 24) r = Some (k, r')"
    using Intn_total [of "2 ^ 24" r] by auto
  then have lt: "k < 2 ^ 24" by (rule Intn_Some_lt)
  then have "length (digits 16 k) \<le> 6"
    by (intro length_digits_le) simp_all
  then have "length (''brf_'' @ fmt_x k) \<le> 10"
    by (simp add: fmt_x_def)
  moreover from this k have "genSchedName r = Some (''brf_'' @ fmt_x k, r')"
    by (simp add: genSchedName_def schedNameMax_def)
  ultimately show ?thesis using k lt by blast
qed

lemma genStructOpsProgE:
  obtains sop r' sop1 sop2 sop3 v1 v2 v3 r0 r1 r2 where
    "genStructOpsProg r = Some (sop, r')"
    "genSchedName r = Some (SchedName sop, r0)"
    "genStructOpsBody sop1 getSendScope 0 r0 = Some (GetSendBody sop, v1, r1)"
    "genStructOpsBody sop2 initReleaseScope v1 r1 = Some (InitBody sop, v2, r2)"
    "genStructOpsBody sop3 initReleaseScope v2 r2 = Some (ReleaseBody sop, v3, r')"
    "Kfuncs sop1 = mptcpSchedKfuncs" "Kfuncs sop2 = mptcpSchedKfuncs"
    "Kfuncs sop3 = mptcpSchedKfuncs" "Kfuncs sop = mptcpSchedKfuncs"
    "IterKfuncs sop = mptcpSubflowIterKfuncs"
proof -
  have W: "sc_writeFields getSendScope \<noteq> []" "sc_writeFields initReleaseScope \<noteq> []"
    by (simp_all add: getSendScope_def initReleaseScope_def schedWriteFieldsResolved_def
        mptcpSchedWriteFields_def)
  obtain name r0 where name: "genSchedName r = Some (name, r0)"
    using genSchedName_eq [of r] by blast
  let ?s0 = "\<lparr>SchedName = name, WriteFields = mptcpSchedWriteFields, Kfuncs = mptcpSchedKfuncs,
      IterKfuncs = mptcpSubflowIterKfuncs, GetSendBody = [], InitBody = [], ReleaseBody = []\<rparr>"
  obtain b1 v1 r1 where b1: "genStructOpsBody ?s0 getSendScope 0 r0 = Some (b1, v1, r1)"
    using genStructOpsBody_total [OF W(1)] by blast
  let ?s1 = "?s0\<lparr>GetSendBody := b1\<rparr>"
  obtain b2 v2 r2 where b2: "genStructOpsBody ?s1 initReleaseScope v1 r1 = Some (b2, v2, r2)"
    using genStructOpsBody_total [OF W(2)] by blast
  let ?s2 = "?s1\<lparr>InitBody := b2\<rparr>"
  obtain b3 v3 r3 where b3: "genStructOpsBody ?s2 initReleaseScope v2 r2 = Some (b3, v3, r3)"
    using genStructOpsBody_total [OF W(2)] by blast
  have "genStructOpsProg r = Some (?s2\<lparr>ReleaseBody := b3\<rparr>, r3)"
    using name b1 b2 b3 by (simp add: genStructOpsProg_def)
  then show thesis
    by (rule that [of _ _ _ ?s0 _ _ ?s1 _ _ ?s2]) (use name b1 b2 b3 in simp_all)
qed

definition schedulerOk :: "StructOpsProg \<Rightarrow> bool" where
  "schedulerOk sop \<longleftrightarrow>
     Kfuncs sop = mptcpSchedKfuncs \<and> IterKfuncs sop = mptcpSubflowIterKfuncs \<and>
     checkBody (Kfuncs sop) schedWriteFieldsResolved False (sc_pool getSendScope, [])
       (GetSendBody sop) \<and>
     checkBody (Kfuncs sop) (sc_writeFields initReleaseScope) True (sc_pool initReleaseScope, [])
       (InitBody sop) \<and>
     checkBody (Kfuncs sop) (sc_writeFields initReleaseScope) True (sc_pool initReleaseScope, [])
       (ReleaseBody sop)"

lemma scope_simps [simp]:
  "sc_writeFields getSendScope = schedWriteFieldsResolved"
  "sc_noReturn getSendScope = False" "sc_noReturn initReleaseScope = True"
  "sc_minStmt getSendScope = 3" "sc_minStmt initReleaseScope = 2"
  "stmtSpan getSendScope = 6" "stmtSpan initReleaseScope = 3"
  "sc_requireWrite getSendScope" "sc_allowIter getSendScope" "\<not> sc_allowIter initReleaseScope"
  "ifLevels getSendScope = 2" "ifLevels initReleaseScope = 0"
  by (simp_all add: getSendScope_def initReleaseScope_def stmtSpan_def ifLevels_def
      ifElseMaxDepth_def)

lemma scopes_typing_ok: "typing_ok getSendScope v" "typing_ok initReleaseScope v"
  by (simp_all add: typing_ok_def getSendScope_def initReleaseScope_def nameBelow_def)

lemma genStructOpsProg_sound:
  "\<exists>sop r'. genStructOpsProg r = Some (sop, r') \<and> schedulerOk sop \<and>
     distinct (declNames (GetSendBody sop @ InitBody sop @ ReleaseBody sop)) \<and>
     list_all braceFree (declNames (GetSendBody sop @ InitBody sop @ ReleaseBody sop))"
proof -
  obtain sop r' sop1 sop2 sop3 v1 v2 v3 r0 r1 r2 where gen: "genStructOpsProg r = Some (sop, r')"
    and b1: "genStructOpsBody sop1 getSendScope 0 r0 = Some (GetSendBody sop, v1, r1)"
    and b2: "genStructOpsBody sop2 initReleaseScope v1 r1 = Some (InitBody sop, v2, r2)"
    and b3: "genStructOpsBody sop3 initReleaseScope v2 r2 = Some (ReleaseBody sop, v3, r')"
    and kfs: "Kfuncs sop1 = mptcpSchedKfuncs" "Kfuncs sop2 = mptcpSchedKfuncs"
      "Kfuncs sop3 = mptcpSchedKfuncs" "Kfuncs sop = mptcpSchedKfuncs"
      "IterKfuncs sop = mptcpSubflowIterKfuncs"
    by (rule genStructOpsProgE) blast
  have "schedulerOk sop"
    using typing.gen_body [OF scopes_typing_ok(1) b1] typing.gen_body [OF scopes_typing_ok(2) b2]
      typing.gen_body [OF scopes_typing_ok(2) b3] kfs
    by (simp add: schedulerOk_def typing_post_def)
  moreover have "names_ok 0 (GetSendBody sop @ InitBody sop @ ReleaseBody sop) v3"
    by (intro names_ok_append [OF naming.gen_body [OF TrueI b1]]
        names_ok_append [OF naming.gen_body [OF TrueI b2] naming.gen_body [OF TrueI b3]])
  then have "distinct (declNames (GetSendBody sop @ InitBody sop @ ReleaseBody sop)) \<and>
      list_all braceFree (declNames (GetSendBody sop @ InitBody sop @ ReleaseBody sop))"
    by (auto simp only: names_ok_def list_all_iff intro: nameIn_braceFree)
  ultimately show ?thesis using gen by blast
qed

subsection \<open>Properties\<close>

text \<open>
  C1. For every stream of random choices the generator returns a scheduler, and its three callback
  bodies are well typed: every context access, operand and kfunc argument is in scope at the right
  type, every KF_RET_NULL result is guarded, and the bodies of \<^verbatim>\<open>init\<close> and \<^verbatim>\<open>release\<close>, of loops and
  of branches contain no call whose guard would return.
\<close>

theorem genStructOpsProg_well_typed:
  "\<exists>sop r'. genStructOpsProg r = Some (sop, r') \<and> schedulerOk sop"
  using genStructOpsProg_sound [of r] by blast

text \<open>
  C2. On every path through the generated \<^verbatim>\<open>get_send\<close> callback the iterator protocol (new, next*,
  destroy) is respected and complete, the callback returns 0 or -1, it returns 0 exactly on the
  paths that schedule the subflow, which happens at most once, and some path does; on every path
  through \<^verbatim>\<open>init\<close> and \<^verbatim>\<open>release\<close> (void callbacks) control reaches the end.
\<close>

theorem genStructOpsProg_paths:
  "\<exists>sop r'. genStructOpsProg r = Some (sop, r') \<and> getSendSafe sop \<and>
     voidBodySafe (Kfuncs sop) (InitBody sop) \<and> voidBodySafe (Kfuncs sop) (ReleaseBody sop)"
  using genStructOpsProg_sound [of r] unfolding schedulerOk_def
  by (blast intro: checked_getSendSafe checked_voidBodySafe)

text \<open>
  C3. No two declarations of a generated scheduler share a name: the locals, loop variables and
  iterator objects of the three callbacks, at every nesting level, are pairwise different.
\<close>

theorem genStructOpsProg_names_unique:
  "\<exists>sop r'. genStructOpsProg r = Some (sop, r') \<and>
     distinct (declNames (GetSendBody sop @ InitBody sop @ ReleaseBody sop))"
  using genStructOpsProg_sound [of r] by blast

text \<open>
  C4. The size of a generated scheduler is bounded: \<^verbatim>\<open>get_send\<close> has three to eight top-level
  statements, branches nest at most twice and the whole tree has at most 1208 statements; \<^verbatim>\<open>init\<close>
  and \<^verbatim>\<open>release\<close> have two to four statements and no branch.
\<close>

definition flatBody :: "StructOpsStmt list \<Rightarrow> bool" where
  "flatBody body \<longleftrightarrow> length body \<in> {2..4} \<and> ifDepth body = 0 \<and> countStmts body = length body"

lemma countStmts_ge: "length body \<le> countStmts body"
  by (induction body rule: countStmts.induct) auto

lemma init_flat:
  assumes "genStructOpsBody sop initReleaseScope v r = Some (body, v', r')"
  shows "flatBody body"
  using sizing.gen_body [OF TrueI assms] countStmts_ge [of body]
  by (auto simp: size_post_def flatBody_def)

theorem genStructOpsProg_size:
  "\<exists>sop r'. genStructOpsProg r = Some (sop, r') \<and>
     length (GetSendBody sop) \<in> {3..8} \<and> ifDepth (GetSendBody sop) \<le> 2 \<and>
     countStmts (GetSendBody sop) \<le> 1208 \<and> flatBody (InitBody sop) \<and> flatBody (ReleaseBody sop)"
proof (rule genStructOpsProgE [of r])
  fix sop r' sop1 sop2 sop3 v1 v2 v3 r0 r1 r2
  assume gen: "genStructOpsProg r = Some (sop, r')"
    and b1: "genStructOpsBody sop1 getSendScope 0 r0 = Some (GetSendBody sop, v1, r1)"
    and b2: "genStructOpsBody sop2 initReleaseScope v1 r1 = Some (InitBody sop, v2, r2)"
    and b3: "genStructOpsBody sop3 initReleaseScope v2 r2 = Some (ReleaseBody sop, v3, r')"
  from sizing.gen_body [OF TrueI b1] have len: "length (GetSendBody sop) \<in> {3..8}"
    and "ifDepth (GetSendBody sop) \<le> 2"
    and "countStmts (GetSendBody sop) \<le> length (GetSendBody sop) * stmtBudget 2 True"
    by (auto simp: size_post_def)
  moreover have "stmtBudget 2 True = 151" by (simp add: numeral_2_eq_2)
  ultimately show ?thesis using gen init_flat [OF b2] init_flat [OF b3] by auto
qed

text \<open>
  C5. The generated \<^verbatim>\<open>get_send\<close> body writes the context: at least one of its top-level statements is
  a write to a field of the scheduler surface.
\<close>

theorem genStructOpsProg_writes:
  "\<exists>sop r'. genStructOpsProg r = Some (sop, r') \<and>
     (\<exists>st. st \<in> set (GetSendBody sop) \<and> Kind st = KCtxWrite)"
proof (rule genStructOpsProgE [of r])
  fix sop r' sop1 v1 r0 r1
  assume "genStructOpsProg r = Some (sop, r')"
    and "genStructOpsBody sop1 getSendScope 0 r0 = Some (GetSendBody sop, v1, r1)"
  then show ?thesis using genStructOpsBody_write by fastforce
qed

text \<open>
  C6. The scheduler name is \<^verbatim>\<open>brf_\<close> followed by the hexadecimal digits of the drawn number, is
  shorter than MPTCP_SCHED_NAME_MAX, and is never truncated; two schedulers with the same name drew
  the same number.
\<close>

theorem genStructOpsProg_name:
  "\<exists>sop r' k. genStructOpsProg r = Some (sop, r') \<and> k < 2 ^ 24 \<and> fst (the (Intn (2 ^ 24) r)) = k \<and>
     SchedName sop = ''brf_'' @ fmt_x k \<and> length (SchedName sop) < schedNameMax \<and>
     (\<forall>j. SchedName sop = ''brf_'' @ fmt_x j \<longleftrightarrow> j = k)"
proof (rule genStructOpsProgE [of r])
  fix sop r' r0
  assume gen: "genStructOpsProg r = Some (sop, r')" and name: "genSchedName r = Some (SchedName sop, r0)"
  obtain k r1 where k: "k < 2 ^ 24" "Intn (2 ^ 24) r = Some (k, r1)"
    "genSchedName r = Some (''brf_'' @ fmt_x k, r1)" "length (''brf_'' @ fmt_x k) \<le> 10"
    using genSchedName_eq [of r] by blast
  then have "SchedName sop = ''brf_'' @ fmt_x k" using name by simp
  with gen k show ?thesis by (auto simp: schedNameMax_def fmt_x_inj)
qed

text \<open>
  C7. The renderer declares exactly the kfuncs the scheduler can call: the emitted extern indices
  are increasing and in range, an index is emitted exactly when its kfunc is one of the two of the
  fixed skeleton or is called on some path of a callback, and the iterator externs are emitted
  exactly when some path creates an iterator.
\<close>

definition callsOn :: "StructOpsProg \<Rightarrow> event set" where
  "callsOn sop = {e. \<exists>body t. body \<in> {GetSendBody sop, InitBody sop, ReleaseBody sop} \<and>
     path (Kfuncs sop) body t False \<and> e \<in> set t}"

definition externsExact :: "StructOpsProg \<Rightarrow> bool" where
  "externsExact sop \<longleftrightarrow>
     sorted_wrt (<) (usedKfuncIdxs sop) \<and>
     set (usedKfuncIdxs sop) = {ki. ki < length (Kfuncs sop) \<and>
       (kf_Name (Kfuncs sop ! ki) \<in> set fixedKfuncs \<or> ECall (kf_Name (Kfuncs sop ! ki)) \<in> callsOn sop)} \<and>
     {f. ECall f \<in> callsOn sop} \<subseteq> kf_Name ` set (Kfuncs sop) \<and>
     (usesSubflowIter sop \<longleftrightarrow> (\<exists>k. EIterNew k \<in> callsOn sop))"

lemma callsOn_events:
  "callsOn sop = events (Kfuncs sop) (GetSendBody sop) \<union> events (Kfuncs sop) (InitBody sop) \<union>
     events (Kfuncs sop) (ReleaseBody sop)"
  using path_events(1) [of "Kfuncs sop"] path_reaches [of _ "Kfuncs sop"]
  unfolding callsOn_def by fast

lemma callsOn_stmts: "callsOn sop = \<Union> (stmtEvents (Kfuncs sop) ` allStmts sop)"
  by (auto simp: callsOn_events events_def allStmts_def)

lemma call_in_stmtEvents:
  "ECall f \<in> stmtEvents kfs st \<longleftrightarrow> Kind st = KKfuncCall \<and> f = kf_Name (kfs ! KfuncIdx st)"
  "EIterNew k \<in> stmtEvents kfs st \<longleftrightarrow> Kind st = KSubflowIter \<and> k = IterId st"
  by (cases st; auto)+

lemma checked_visit:
  "stmtOk kfs W nr env st \<Longrightarrow> s \<in> set (visit [st]) \<Longrightarrow> Kind s = KKfuncCall \<Longrightarrow> KfuncIdx s < length kfs"
  "checkBody kfs W nr env body \<Longrightarrow> s \<in> set (visit body) \<Longrightarrow> Kind s = KKfuncCall \<Longrightarrow>
     KfuncIdx s < length kfs"
proof (induction kfs W nr env st and kfs W nr env body rule: stmtOk_checkBody.induct)
  case (8 kfs W nr env st rest)
  have "visit (st # rest) = visit [st] @ visit rest" by (cases st) simp_all
  with 8 show ?case by auto
qed auto

lemma schedKfuncs_distinct: "distinct (map kf_Name mptcpSchedKfuncs)"
  by (simp add: mptcpSchedKfuncs_def)

lemma schedulerOk_externs:
  assumes "schedulerOk sop"
  shows "externsExact sop"
proof -
  let ?name = "\<lambda>ki. kf_Name (Kfuncs sop ! ki)"
  have lt: "KfuncIdx st < length (Kfuncs sop)" if "st \<in> allStmts sop" "Kind st = KKfuncCall" for st
    using that assms checked_visit(2) by (fastforce simp: allStmts_def schedulerOk_def)
  have inj: "i = j" if "?name i = ?name j" "i < length (Kfuncs sop)" "j < length (Kfuncs sop)" for i j
    using that assms schedKfuncs_distinct
    by (simp add: schedulerOk_def distinct_conv_nth) metis
  have "ECall (?name ki) \<in> callsOn sop \<longleftrightarrow>
      (\<exists>st \<in> allStmts sop. Kind st = KKfuncCall \<and> KfuncIdx st = ki)" if "ki < length (Kfuncs sop)" for ki
    using inj lt that unfolding callsOn_stmts UN_iff call_in_stmtEvents by metis
  then have "set (usedKfuncIdxs sop) = {ki. ki < length (Kfuncs sop) \<and>
       (?name ki \<in> set fixedKfuncs \<or> ECall (?name ki) \<in> callsOn sop)}"
    by (auto simp: usedKfuncIdxs_iff)
  moreover have "{f. ECall f \<in> callsOn sop} \<subseteq> kf_Name ` set (Kfuncs sop)"
    using lt by (auto simp: callsOn_stmts call_in_stmtEvents)
  moreover have "usesSubflowIter sop \<longleftrightarrow> (\<exists>k. EIterNew k \<in> callsOn sop)"
    by (auto simp: usesSubflowIter_iff callsOn_stmts call_in_stmtEvents)
  ultimately show ?thesis
    by (simp add: externsExact_def usedKfuncIdxs_sorted)
qed

theorem genStructOpsProg_externs:
  "\<exists>sop r'. genStructOpsProg r = Some (sop, r') \<and> externsExact sop"
  using genStructOpsProg_sound [of r] schedulerOk_externs by blast

text \<open>
  C8. Rendering a generated scheduler never indexes out of range, and in the resulting C
  translation unit every brace is matched.
\<close>

lemma tables_free: "kfsFree mptcpSchedKfuncs" "kfsFree mptcpSubflowIterKfuncs"
  by (simp_all add: kfsFree_def mptcpSchedKfuncs_def mptcpSubflowIterKfuncs_def)

lemma scopes_free:
  "wfFree schedWriteFieldsResolved" "wfFree (sc_writeFields initReleaseScope)"
  "envFree (sc_pool getSendScope, [])" "envFree (sc_pool initReleaseScope, [])"
  by (simp_all add: wfFree_def envFree_def getSendScope_def initReleaseScope_def
      schedWriteFieldsResolved_def mptcpSchedWriteFields_def)

lemma concat_cdecls_balanced: "kfsFree kfs \<Longrightarrow> balanced (concat (map (\<lambda>kf. kf_CDecl kf @ NL) kfs))"
proof (induction kfs)
  case (Cons kf kfs)
  then have "braceFree (kf_CDecl kf)" "balanced (concat (map (\<lambda>kf. kf_CDecl kf @ NL) kfs))"
    by (simp_all add: kfsFree_def)
  then show ?case by (simp add: balanced_def braces_append)
qed (simp add: balanced_def)

lemma renderPrelude_balanced:
  assumes "kfsFree (Kfuncs sop)" and "kfsFree (IterKfuncs sop)"
  shows "balanced (renderPrelude sop)"
proof -
  have "kfsFree (map ((!) (Kfuncs sop)) (usedKfuncIdxs sop))"
    using assms(1) by (auto simp: kfsFree_def list_all_iff usedKfuncIdxs_def)
  from concat_cdecls_balanced [OF this] concat_cdecls_balanced [OF assms(2)]
  show ?thesis by (simp add: renderPrelude_def balanced_def braces_append o_def)
qed

lemma callbacks_balanced:
  assumes "renderBody (Kfuncs sop) body TAB = Some s" and "balanced s" and "braceFree (SchedName sop)"
    and "braceFree suffix"
  shows "\<exists>s. renderVoidCallback sop suffix body = Some s \<and> balanced s"
    and "body = GetSendBody sop \<Longrightarrow> \<exists>s. renderGetSend sop = Some s \<and> balanced s"
  using assms
  by (simp_all add: renderVoidCallback_def renderGetSend_def renderEmpty_def balanced_def braces_append)

lemma renderOpsMap_balanced: "braceFree (SchedName sop) \<Longrightarrow> balanced (renderOpsMap sop)"
  by (simp add: renderOpsMap_def balanced_def braces_append)

lemma digit_char_braceFree: "d < 16 \<Longrightarrow> digit_char d \<noteq> CHR ''{'' \<and> digit_char d \<noteq> CHR ''}''"
  by (auto simp: digit_char_def dest: arg_cong [where f = "of_char :: char \<Rightarrow> nat"])

lemma braceFree_fmt_x: "braceFree (fmt_x k)"
proof -
  have "list_all (\<lambda>d. d < 16) ds \<Longrightarrow> braceFree (map digit_char ds)" for ds
    by (induction ds) (simp_all add: digit_char_braceFree)
  moreover have "list_all (\<lambda>d. d < 16) (digits 16 k)"
    using digits_lt [of 16 _ k] by (simp add: list_all_iff)
  ultimately show ?thesis by (simp add: fmt_x_def)
qed

theorem genStructOpsSource_balanced:
  "\<exists>sop r' src. genStructOpsProg r = Some (sop, r') \<and> genStructOpsSource sop = Some src \<and>
     balanced src"
proof -
  obtain sop r' where gen: "genStructOpsProg r = Some (sop, r')" and ok: "schedulerOk sop"
    and names: "list_all braceFree (declNames (GetSendBody sop @ InitBody sop @ ReleaseBody sop))"
    using genStructOpsProg_sound [of r] by blast
  have kfs: "kfsFree (Kfuncs sop)" "kfsFree (IterKfuncs sop)"
    using ok by (simp_all add: schedulerOk_def tables_free)
  have "braceFree (SchedName sop)"
    by (rule genStructOpsProgE [of r]) (use gen genSchedName_eq [of r] in \<open>auto simp: braceFree_fmt_x\<close>)
  moreover obtain s1 where s1: "renderBody (Kfuncs sop) (GetSendBody sop) TAB = Some s1" "balanced s1"
    using renderBody_balanced [OF _ kfs(1) scopes_free(1,3)] ok names by (force simp: schedulerOk_def)
  moreover obtain s2 where s2: "renderBody (Kfuncs sop) (InitBody sop) TAB = Some s2" "balanced s2"
    using renderBody_balanced [OF _ kfs(1) scopes_free(2,4)] ok names by (force simp: schedulerOk_def)
  moreover obtain s3 where s3: "renderBody (Kfuncs sop) (ReleaseBody sop) TAB = Some s3" "balanced s3"
    using renderBody_balanced [OF _ kfs(1) scopes_free(2,4)] ok names by (force simp: schedulerOk_def)
  ultimately have "\<exists>s. renderVoidCallback sop ''_init'' (InitBody sop) = Some s \<and> balanced s"
    "\<exists>s. renderVoidCallback sop ''_release'' (ReleaseBody sop) = Some s \<and> balanced s"
    "\<exists>s. renderGetSend sop = Some s \<and> balanced s" "balanced (renderOpsMap sop)"
    using callbacks_balanced(1) [OF s2] callbacks_balanced(1) [OF s3]
      callbacks_balanced(2) [OF s1, of "[]"] renderOpsMap_balanced by simp_all
  with renderPrelude_balanced [OF kfs] gen show ?thesis
    by (auto simp: genStructOpsSource_def balanced_append)
qed

end
