(* ===== verification/Alloc.thy ===== *)
theory Alloc
  imports Prelude
begin

text \<open>
  The allocators of \<^verbatim>\<open>prog/alloc.go\<close>. \<open>memAlloc\<close> is the two-level bitmap of 64-byte granules,
  \<open>vmaAlloc\<close> the set of used pages; both keep \<^verbatim>\<open>uint64\<close> arithmetic at its width. Each of them
  refines a plain set of held units: \<open>held\<close> is the abstraction, and the interface \<open>unit_tracker\<close>
  carries the loop that marks a range for both.
\<close>

unbundle bit_operations_syntax

subsection \<open>Marking a range of units\<close>

fun loopM :: "('a \<Rightarrow> 's \<Rightarrow> 's option) \<Rightarrow> 'a list \<Rightarrow> 's \<Rightarrow> 's option" where
  "loopM f [] s = Some s"
| "loopM f (x # xs) s = Option.bind (f x s) (loopM f xs)"

locale unit_tracker =
  fixes inv :: "'s \<Rightarrow> bool" and held :: "'s \<Rightarrow> nat set" and mark :: "nat \<Rightarrow> 's \<Rightarrow> 's option"
    and limit :: "'s \<Rightarrow> nat"
  assumes mark: "inv s \<Longrightarrow> i < limit s \<Longrightarrow>
      \<exists>s'. mark i s = Some s' \<and> inv s' \<and> limit s' = limit s \<and> held s' = insert i (held s)"
begin

lemma mark_range:
  "inv s \<Longrightarrow> a + n \<le> limit s \<Longrightarrow>
   \<exists>s'. loopM mark [a..<a + n] s = Some s' \<and> inv s' \<and> limit s' = limit s \<and>
     held s' = held s \<union> {a..<a + n}"
proof (induction n arbitrary: a s)
  case (Suc n)
  then obtain s1 where s1: "mark a s = Some s1" "inv s1" "limit s1 = limit s"
    "held s1 = insert a (held s)"
    using mark [of s a] by auto
  with Suc.prems Suc.IH [of s1 "Suc a"] obtain s2 where s2: "loopM mark [Suc a..<Suc a + n] s1 = Some s2"
    "inv s2" "limit s2 = limit s" "held s2 = held s1 \<union> {Suc a..<Suc a + n}"
    by auto
  have "[a..<a + Suc n] = a # [Suc a..<Suc a + n]" by (simp add: upt_rec)
  moreover have "{a..<a + Suc n} = insert a {Suc a..<Suc a + n}" by auto
  ultimately show ?case using s1 s2 by simp
qed simp

end

subsection \<open>The memory allocator\<close>

definition memAllocGranule :: nat where "memAllocGranule = 64"
definition memAllocMaxMem :: nat where "memAllocMaxMem = 16 * 2 ^ 20"
definition memAllocL0Size :: nat where "memAllocL0Size = 64"
definition bitsPerUint64 :: nat where "bitsPerUint64 = 8 * 8"
definition memAllocL0Mem :: nat where
  "memAllocL0Mem = memAllocL0Size * memAllocGranule * bitsPerUint64"
definition memAllocL1Size :: nat where "memAllocL1Size = memAllocMaxMem div memAllocL0Mem"

lemmas alloc_consts =
  memAllocGranule_def memAllocMaxMem_def memAllocL0Size_def bitsPerUint64_def memAllocL0Mem_def
  memAllocL1Size_def

text \<open>
  \<open>ma_mem\<close> is the array of pointers to the second level; a nil pointer is None. The field \<^verbatim>\<open>buf\<close> is
  only the storage of the first of them, so it is that entry.
\<close>

record memAlloc =
  ma_size :: uint64
  ma_mem :: "uint64 list option list"

definition newMemAlloc :: "uint64 \<Rightarrow> memAlloc option" where
  "newMemAlloc totalMemSize =
     (if totalMemSize > of_nat memAllocMaxMem then None
      else if totalMemSize mod of_nat memAllocL0Mem \<noteq> 0 then None
      else Some \<lparr>ma_size = totalMemSize div of_nat memAllocGranule,
                 ma_mem = Some (replicate memAllocL0Size 0) # replicate (memAllocL1Size - 1) None\<rparr>)"

definition ma_pos :: "uint64 \<Rightarrow> uint64 \<times> uint64 \<times> uint64" where
  "ma_pos idx =
     (let i1 = idx div of_nat (memAllocL0Size * bitsPerUint64);
          r1 = idx mod of_nat (memAllocL0Size * bitsPerUint64);
          i0 = r1 div of_nat bitsPerUint64
      in (i1, i0, push_bit (unat (r1 mod of_nat bitsPerUint64)) 1))"

definition ma_set :: "uint64 \<Rightarrow> memAlloc \<Rightarrow> memAlloc option" where
  "ma_set idx ma =
     (let (i1, i0, b) = ma_pos idx in
      if unat i1 < length (ma_mem ma) then
        let l0 = (case ma_mem ma ! unat i1 of None \<Rightarrow> replicate memAllocL0Size 0 | Some l0 \<Rightarrow> l0) in
        if unat i0 < length l0 then
          Some (ma\<lparr>ma_mem := (ma_mem ma)[unat i1 := Some (l0[unat i0 := (l0 ! unat i0) OR b])]\<rparr>)
        else None
      else None)"

definition ma_get :: "memAlloc \<Rightarrow> uint64 \<Rightarrow> bool option" where
  "ma_get ma idx =
     (let (i1, i0, b) = ma_pos idx in
      if unat i1 < length (ma_mem ma) then
        case ma_mem ma ! unat i1 of
          None \<Rightarrow> Some False
        | Some l0 \<Rightarrow> if unat i0 < length l0 then Some ((l0 ! unat i0) AND b \<noteq> 0) else None
      else None)"

definition ma_noteAlloc :: "uint64 \<Rightarrow> uint64 \<Rightarrow> memAlloc \<Rightarrow> memAlloc option" where
  "ma_noteAlloc addr0 size0 ma =
     (let addr = addr0 div of_nat memAllocGranule;
          size = (addr0 + size0 + of_nat memAllocGranule - 1) div of_nat memAllocGranule - addr
      in loopM (\<lambda>i. ma_set (addr + of_nat i)) [0..<unat size] ma)"

definition ma_bankruptcy :: "memAlloc \<Rightarrow> memAlloc option" where
  "ma_bankruptcy ma =
     loopM (\<lambda>i1 ma.
        if i1 < length (ma_mem ma) then
          case ma_mem ma ! i1 of
            None \<Rightarrow> Some ma
          | Some l0 \<Rightarrow> Some (ma\<lparr>ma_mem := (ma_mem ma)[i1 := Some (map (\<lambda>_. 0) l0)]\<rparr>)
        else None)
       [0..<unat (ma_size ma div of_nat (memAllocL0Size * bitsPerUint64))] ma"

text \<open>The inner loop: is the range of \<open>n\<close> granules from \<open>start\<close> free? It stops at the first set bit.\<close>

fun ma_empty :: "memAlloc \<Rightarrow> uint64 \<Rightarrow> nat list \<Rightarrow> bool option" where
  "ma_empty ma start [] = Some True"
| "ma_empty ma start (i # is) = do {
     b \<leftarrow> ma_get ma (start + of_nat i);
     if b then Some False else ma_empty ma start is
   }"

text \<open>
  The outer loop may run forever on an \<open>end\<close> near the top of the range (the increment wraps), and so
  may the retry after \<^verbatim>\<open>bankruptcy\<close>; None covers both and the panics.
\<close>

partial_function (option) ma_scan ::
  "memAlloc \<Rightarrow> uint64 \<Rightarrow> uint64 \<Rightarrow> uint64 \<Rightarrow> uint64 \<Rightarrow> uint64 option option" where
  "ma_scan ma sz alignment end' start =
     (if start \<le> end' then do {
        empty \<leftarrow> ma_empty ma start [0..<unat sz];
        if empty then Some (Some start) else ma_scan ma sz alignment end' (start + alignment)
      } else Some None)"

partial_function (option) ma_alloc ::
  "uint64 \<Rightarrow> uint64 \<Rightarrow> memAlloc \<Rightarrow> (uint64 \<times> memAlloc) option" where
  "ma_alloc sz0 alignment00 ma =
     (let size0 = (if sz0 = 0 then 1 else sz0);
          alignment0 = (if alignment00 = 0 then 1 else alignment00);
          size = (size0 + of_nat memAllocGranule - 1) div of_nat memAllocGranule;
          alignment = (alignment0 + of_nat memAllocGranule - 1) div of_nat memAllocGranule;
          end' = ma_size ma - size
      in do {
        found \<leftarrow> ma_scan ma size alignment end' 0;
        case found of
          Some start \<Rightarrow> do {
            let start0 = start * of_nat memAllocGranule;
            ma' \<leftarrow> ma_noteAlloc start0 size0 ma;
            Some (start0, ma')
          }
        | None \<Rightarrow> do {
            ma' \<leftarrow> ma_bankruptcy ma;
            ma_alloc size0 alignment0 ma'
          }
      })"

subsection \<open>The page allocator\<close>

text \<open>The map \<^verbatim>\<open>m\<close> is a set; \<open>rand\<close> is \<^verbatim>\<open>randGen.rand\<close>, a draw converted to \<^verbatim>\<open>uint64\<close>.
  A size whose conversion to \<^verbatim>\<open>int\<close> is negative makes the draw panic, like a zero one.\<close>

record vmaAlloc =
  va_numPages :: uint64
  va_used :: "uint64 list"
  va_m :: "uint64 set"

definition newVmaAlloc :: "uint64 \<Rightarrow> vmaAlloc" where
  "newVmaAlloc totalPages = \<lparr>va_numPages = totalPages, va_used = [], va_m = {}\<rparr>"

definition va_note1 :: "uint64 \<Rightarrow> vmaAlloc \<Rightarrow> vmaAlloc" where
  "va_note1 i va =
     (if i \<in> va_m va then va
      else va\<lparr>va_m := insert i (va_m va), va_used := va_used va @ [i]\<rparr>)"

definition va_noteAlloc :: "uint64 \<Rightarrow> uint64 \<Rightarrow> vmaAlloc \<Rightarrow> vmaAlloc" where
  "va_noteAlloc page sz va =
     fold va_note1 (map of_nat [unat page..<unat (page + sz)]) va"

definition va_choose :: "uint64 \<Rightarrow> vmaAlloc \<Rightarrow> rng \<Rightarrow> (uint64 \<times> rng) option" where
  "va_choose sz va r = do {
     (fresh, r) \<leftarrow> (if va_used va = [] then Some (True, r) else oneOf 5 r);
     if fresh then do {
       (page, r) \<leftarrow> rand 4 r;
       (low, r) \<leftarrow> oneOf 100 r;
       Some (if \<not> low then va_numPages va - page - sz else page, r)
     } else do {
       (k, r) \<leftarrow> rand (length (va_used va)) r;
       let page = va_used va ! unat k;
       (page, r) \<leftarrow>
         (if sz > 1 then do {
            (b, r) \<leftarrow> bin r;
            if b then do {
              (off, r) \<leftarrow> rand (if unat sz < 2 ^ 63 then unat sz else 0) r;
              Some (page - (if off > page then page else off), r)
            } else Some (page, r)
          } else Some (page, r));
       Some (if page + sz > va_numPages va then va_numPages va - sz else page, r)
     }
   }"

definition va_alloc :: "uint64 \<Rightarrow> vmaAlloc \<Rightarrow> rng \<Rightarrow> (uint64 \<times> vmaAlloc \<times> rng) option" where
  "va_alloc sz va r =
     (if sz > va_numPages va then None
      else do {
        (page, r) \<leftarrow> va_choose sz va r;
        if page \<ge> va_numPages va \<or> sz > va_numPages va \<or> page + sz > va_numPages va then None
        else Some (page, va_noteAlloc page sz va, r)
      })"

subsection \<open>The bitmap as a set of granules\<close>

definition ma_held :: "memAlloc \<Rightarrow> nat set" where
  "ma_held ma = {n. n < 262144 \<and>
     (\<exists>l0. ma_mem ma ! (n div 4096) = Some l0 \<and> bit (l0 ! (n mod 4096 div 64)) (n mod 64))}"

definition ma_inv :: "memAlloc \<Rightarrow> bool" where
  "ma_inv ma \<longleftrightarrow> length (ma_mem ma) = 64 \<and>
     list_all (\<lambda>p. case p of None \<Rightarrow> True | Some l0 \<Rightarrow> length l0 = 64) (ma_mem ma) \<and>
     unat (ma_size ma) \<le> 262144 \<and> 4096 dvd unat (ma_size ma)"

lemma ma_pos_unat:
  "ma_pos idx = (i1, i0, b) \<Longrightarrow>
   unat i1 = unat idx div 4096 \<and> unat i0 = unat idx mod 4096 div 64 \<and>
   b = push_bit (unat idx mod 64) 1"
  by (auto simp: ma_pos_def alloc_consts Let_def unat_div unat_mod mod_mod_cancel)

lemma and_exp_eq_0: "(w :: uint64) AND 2 ^ k = 0 \<longleftrightarrow> \<not> (k < 64 \<and> bit w k)"
proof -
  have "w AND 2 ^ k = (if bit w k then 2 ^ k else 0)"
    by (rule bit_eqI) (auto simp: bit_and_iff bit_exp_iff)
  then show ?thesis by auto
qed

lemma ma_inv_nth: "ma_inv ma \<Longrightarrow> i < 64 \<Longrightarrow> ma_mem ma ! i = Some l0 \<Longrightarrow> length l0 = 64"
  by (auto simp: ma_inv_def list_all_length split: option.splits)

lemma ma_get_held:
  assumes "ma_inv ma" and "unat idx < 262144"
  shows "ma_get ma idx = Some (unat idx \<in> ma_held ma)"
proof -
  obtain i1 i0 b where pos: "ma_pos idx = (i1, i0, b)" by (cases "ma_pos idx")
  note u = ma_pos_unat [OF pos]
  have lt: "unat i1 < 64" "unat i0 < 64" using u assms(2) by auto
  have "length (ma_mem ma) = 64" using assms(1) by (simp add: ma_inv_def)
  with lt u assms show ?thesis
    by (auto simp: ma_get_def pos ma_held_def and_exp_eq_0 split: option.splits
        dest: ma_inv_nth [OF assms(1)])
qed

lemma granule_eqI:
  "(m :: nat) div 4096 = n div 4096 \<Longrightarrow> m mod 4096 div 64 = n mod 4096 div 64 \<Longrightarrow> m mod 64 = n mod 64 \<Longrightarrow>
   m = n"
proof -
  assume a: "m div 4096 = n div 4096" "m mod 4096 div 64 = n mod 4096 div 64" "m mod 64 = n mod 64"
  have "x = 4096 * (x div 4096) + 64 * (x mod 4096 div 64) + x mod 64" for x :: nat
  proof -
    have "x mod 4096 mod 64 = x mod 64" by (rule mod_mod_cancel) simp
    with div_mult_mod_eq [of "x mod 4096" 64] div_mult_mod_eq [of x 4096] show ?thesis by linarith
  qed
  from this [of m] this [of n] show "m = n" unfolding a by simp
qed

lemma ma_set_held:
  assumes inv: "ma_inv ma" and lt: "unat idx < 262144"
  shows "\<exists>ma'. ma_set idx ma = Some ma' \<and> ma_inv ma' \<and> ma_size ma' = ma_size ma \<and>
    ma_held ma' = insert (unat idx) (ma_held ma)"
proof -
  obtain i1 i0 b where pos: "ma_pos idx = (i1, i0, b)" by (cases "ma_pos idx")
  note u = ma_pos_unat [OF pos]
  have lt': "unat i1 < 64" "unat i0 < 64" using u lt by auto
  have len: "length (ma_mem ma) = 64" using inv by (simp add: ma_inv_def)
  define l0 where "l0 = (case ma_mem ma ! unat i1 of None \<Rightarrow> replicate memAllocL0Size 0 | Some l0 \<Rightarrow> l0)"
  have l0: "length l0 = 64"
    using ma_inv_nth [OF inv lt'(1)] by (auto simp: l0_def memAllocL0Size_def split: option.splits)
  let ?ma = "ma\<lparr>ma_mem := (ma_mem ma)[unat i1 := Some (l0[unat i0 := (l0 ! unat i0) OR b])]\<rparr>"
  have set: "ma_set idx ma = Some ?ma"
    using lt' len l0 by (simp add: ma_set_def pos l0_def [symmetric] Let_def)
  moreover have "ma_inv ?ma"
    using inv l0 lt' len
    by (auto simp: ma_inv_def list_all_length nth_list_update split: option.splits)
  moreover have "n \<in> ma_held ?ma \<longleftrightarrow> n = unat idx \<or> n \<in> ma_held ma" for n
  proof (cases "n < 262144 \<and> n div 4096 = unat i1")
    case True
    have old: "n \<in> ma_held ma \<longleftrightarrow> bit (l0 ! (n mod 4096 div 64)) (n mod 64)"
      using True lt' by (auto simp: ma_held_def l0_def memAllocL0Size_def split: option.splits)
    have "n \<in> ma_held ?ma \<longleftrightarrow> bit (l0[unat i0 := (l0 ! unat i0) OR b] ! (n mod 4096 div 64)) (n mod 64)"
      using True lt' len by (auto simp: ma_held_def)
    also have "\<dots> \<longleftrightarrow> n \<in> ma_held ma \<or> n mod 4096 div 64 = unat i0 \<and> n mod 64 = unat idx mod 64"
      using old lt' l0 u by (auto simp: nth_list_update bit_or_iff bit_exp_iff)
    also have "n mod 4096 div 64 = unat i0 \<and> n mod 64 = unat idx mod 64 \<longleftrightarrow> n = unat idx"
      using True u granule_eqI [of n "unat idx"] by auto
    finally show ?thesis by auto
  next
    case False
    then show ?thesis using u lt len lt' by (auto simp: ma_held_def)
  qed
  ultimately show ?thesis by auto
qed

interpretation granules: unit_tracker "\<lambda>ma. ma_inv ma \<and> ma_size ma = n" ma_held
  "\<lambda>i. ma_set (of_nat i)" "\<lambda>_. 262144" for n
proof
  fix ma i
  assume a: "ma_inv ma \<and> ma_size ma = n" and i: "i < (262144 :: nat)"
  have "unat (of_nat i :: uint64) = i" using i by (simp add: unat_of_nat take_bit_eq_mod)
  with a i ma_set_held [of ma "of_nat i"]
  show "\<exists>ma'. ma_set (of_nat i) ma = Some ma' \<and> (ma_inv ma' \<and> ma_size ma' = n) \<and>
      (262144 :: nat) = 262144 \<and> ma_held ma' = insert i (ma_held ma)"
    by auto
qed

lemma loopM_shift: "loopM (\<lambda>i. f (a + i)) [0..<n] s = loopM f [a..<a + n] s"
  for f :: "nat \<Rightarrow> 's \<Rightarrow> 's option"
proof -
  have "loopM (\<lambda>i. f (a + i)) xs s = loopM f (map ((+) a) xs) s" for xs s
    by (induction xs arbitrary: s) (simp_all add: fun_eq_iff cong: Option.bind_cong)
  moreover have "map ((+) a) [0..<n] = [a..<a + n]" by (rule nth_equalityI) auto
  ultimately show ?thesis by simp
qed

definition granulesOf :: "nat \<Rightarrow> nat \<Rightarrow> nat set" where
  "granulesOf addr n = {addr div 64..<(addr + n + 63) div 64}"

lemma ma_noteAlloc_held:
  assumes "ma_inv ma" and "unat addr + unat n \<le> 64 * 262144"
  shows "\<exists>ma'. ma_noteAlloc addr n ma = Some ma' \<and> ma_inv ma' \<and> ma_size ma' = ma_size ma \<and>
    ma_held ma' = ma_held ma \<union> granulesOf (unat addr) (unat n)"
proof -
  let ?a = "unat addr div 64" and ?e = "(unat addr + unat n + 63) div 64"
  have sum: "unat (addr + n + 64 - 1) = unat addr + unat n + 63"
    using assms(2) by (simp add: unat_word_ariths)
  have le: "?a \<le> ?e" "?e \<le> 262144" using assms(2) by (auto intro: div_le_mono)
  have cnt: "unat ((addr + n + 64 - 1) div 64 - addr div 64) = ?e - ?a"
    using le(1) sum by (subst unat_sub) (simp_all add: word_le_nat_alt unat_div)
  have "of_nat (unat (addr div 64)) = addr div 64" by simp
  then have ix: "addr div 64 + of_nat i = of_nat (?a + i)" for i
    by (simp add: unat_div)
  have "ma_noteAlloc addr n ma = loopM (\<lambda>i. ma_set (of_nat (?a + i))) [0..<?e - ?a] ma"
    using cnt by (simp add: ma_noteAlloc_def Let_def memAllocGranule_def ix del: of_nat_add)
  also have "\<dots> = loopM (\<lambda>i. ma_set (of_nat i)) [?a..<?a + (?e - ?a)] ma"
    by (rule loopM_shift)
  finally show ?thesis
    using granules.mark_range [of ma "ma_size ma" ?a "?e - ?a"] assms(1) le
    by (auto simp: granulesOf_def)
qed

lemma loopM_snoc: "loopM f (xs @ [x]) s = Option.bind (loopM f xs s) (f x)"
  by (induction xs arbitrary: s) (simp_all split: bind_splits)

definition clearBlock :: "nat \<Rightarrow> memAlloc \<Rightarrow> memAlloc option" where
  "clearBlock i1 ma =
     (if i1 < length (ma_mem ma) then
        case ma_mem ma ! i1 of
          None \<Rightarrow> Some ma
        | Some l0 \<Rightarrow> Some (ma\<lparr>ma_mem := (ma_mem ma)[i1 := Some (map (\<lambda>_. 0) l0)]\<rparr>)
      else None)"

lemma clearBlock_held:
  assumes inv: "ma_inv ma" and i: "i < 64"
  shows "\<exists>ma'. clearBlock i ma = Some ma' \<and> ma_inv ma' \<and> ma_size ma' = ma_size ma \<and>
    ma_held ma' = ma_held ma - {n. n div 4096 = i}"
proof (cases "ma_mem ma ! i")
  case None
  then have "ma_held ma - {n. n div 4096 = i} = ma_held ma" by (auto simp: ma_held_def)
  with None inv i show ?thesis by (simp add: clearBlock_def ma_inv_def)
next
  case (Some l0)
  let ?ma = "ma\<lparr>ma_mem := (ma_mem ma)[i := Some (map (\<lambda>_. 0) l0)]\<rparr>"
  have len: "length (ma_mem ma) = 64" using inv by (simp add: ma_inv_def)
  have l0: "length l0 = 64" using ma_inv_nth [OF inv i Some] .
  have "ma_inv ?ma"
    using inv l0 len i
    by (auto simp: ma_inv_def list_all_length nth_list_update split: option.splits if_splits)
  moreover have "ma_held ?ma = ma_held ma - {n. n div 4096 = i}"
    using len i l0 by (auto simp: ma_held_def nth_list_update)
  ultimately show ?thesis using Some i len by (simp add: clearBlock_def)
qed

lemma clear_blocks_held:
  "ma_inv ma \<Longrightarrow> k \<le> 64 \<Longrightarrow>
   \<exists>ma'. loopM clearBlock [0..<k] ma = Some ma' \<and> ma_inv ma' \<and> ma_size ma' = ma_size ma \<and>
     ma_held ma' = ma_held ma - {n. n div 4096 < k}"
proof (induction k)
  case (Suc k)
  then obtain ma1 where ma1: "loopM clearBlock [0..<k] ma = Some ma1" "ma_inv ma1"
    "ma_size ma1 = ma_size ma" "ma_held ma1 = ma_held ma - {n. n div 4096 < k}"
    by auto
  obtain ma2 where "clearBlock k ma1 = Some ma2" "ma_inv ma2" "ma_size ma2 = ma_size ma1"
    "ma_held ma2 = ma_held ma1 - {n. n div 4096 = k}"
    using clearBlock_held [OF ma1(2), of k] Suc.prems by auto
  with ma1 show ?case by (auto simp: loopM_snoc less_Suc_eq)
qed simp

lemma ma_bankruptcy_held:
  assumes "ma_inv ma"
  shows "\<exists>ma'. ma_bankruptcy ma = Some ma' \<and> ma_inv ma' \<and> ma_size ma' = ma_size ma \<and>
    ma_held ma' = ma_held ma - {..<unat (ma_size ma)}"
proof -
  let ?k = "unat (ma_size ma) div 4096"
  have "unat (ma_size ma div of_nat (memAllocL0Size * bitsPerUint64)) = ?k"
    by (simp add: alloc_consts unat_div)
  then have "ma_bankruptcy ma = loopM clearBlock [0..<?k] ma"
    by (simp add: ma_bankruptcy_def clearBlock_def [abs_def])
  moreover have "?k \<le> 64" using assms div_le_mono [of "unat (ma_size ma)" 262144 4096]
    by (simp add: ma_inv_def)
  moreover have "{n. n div 4096 < ?k} = {..<unat (ma_size ma)}"
    using assms by (auto simp: ma_inv_def div_less_iff_less_mult dvd_div_mult_self)
  ultimately show ?thesis using clear_blocks_held [OF assms, of ?k] by simp
qed

subsection \<open>First fit\<close>

definition freeAt :: "nat set \<Rightarrow> nat \<Rightarrow> nat \<Rightarrow> bool" where
  "freeAt H n s \<longleftrightarrow> (\<forall>i \<in> {s..<s + n}. i \<notin> H)"

definition firstFit :: "nat set \<Rightarrow> nat \<Rightarrow> nat \<Rightarrow> nat \<Rightarrow> nat option" where
  "firstFit H cap n al = find (freeAt H n) (filter (\<lambda>s. al dvd s) [0..<Suc cap - n])"

definition spec_alloc :: "nat set \<Rightarrow> nat \<Rightarrow> nat \<Rightarrow> nat \<Rightarrow> nat \<times> nat set" where
  "spec_alloc H cap n al =
     (case firstFit H cap n al of
        Some s \<Rightarrow> (s, H \<union> {s..<s + n})
      | None \<Rightarrow> (0, (H - {..<cap}) \<union> {0..<n}))"

lemma ma_empty_held:
  "ma_inv ma \<Longrightarrow> unat start + n \<le> 262144 \<Longrightarrow> list_all (\<lambda>i. i < n) is \<Longrightarrow>
   ma_empty ma start is = Some (list_all (\<lambda>i. unat start + i \<notin> ma_held ma) is)"
proof (induction "is")
  case (Cons i "is")
  have "unat (start + of_nat i) = unat start + i"
    using Cons.prems by (simp add: unat_word_ariths unat_of_nat take_bit_eq_mod)
  with Cons show ?case by (simp add: ma_get_held)
qed simp

lemma ma_empty_free:
  assumes "ma_inv ma" and "unat start + n \<le> 262144"
  shows "ma_empty ma start [0..<n] = Some (freeAt (ma_held ma) n (unat start))"
proof -
  have "(\<forall>i \<in> {0..<n}. unat start + i \<notin> ma_held ma) \<longleftrightarrow> freeAt (ma_held ma) n (unat start)"
    by (force simp: freeAt_def Ball_def le_iff_add)
  then show ?thesis using ma_empty_held [OF assms, of "[0..<n]"] by (simp add: list_all_iff)
qed

lemma multiples_from:
  assumes "0 < al" and "al dvd s" and "s \<le> e"
  shows "filter (\<lambda>s. al dvd s) [s..<Suc e] = s # filter (\<lambda>s. al dvd s) [s + al..<Suc e]"
    (is "?l = ?r")
proof (rule sorted_distinct_set_unique)
  have step: "x = s \<or> s + al \<le> x" if "al dvd x" "s \<le> x" for x
  proof -
    have "al dvd x - s" using that assms(2) by (simp add: dvd_diff_nat)
    then show ?thesis using that(2) assms(1) by (auto dest: dvd_imp_le)
  qed
  have "x \<in> set ?l \<longleftrightarrow> x \<in> set ?r" for x
    using step [of x] assms by (auto simp del: upt_Suc)
  then show "set ?l = set ?r" by blast
  show "sorted ?l" "distinct ?l" by (simp_all add: sorted_wrt_filter del: upt_Suc)
  show "sorted ?r" "distinct ?r"
    using assms by (auto simp: sorted_wrt_filter simp del: upt_Suc)
qed

lemma ma_scan_first:
  assumes inv: "ma_inv ma" and al: "al \<noteq> 0" "unat al \<le> 2 ^ 58"
    and bound: "unat e + unat n \<le> 262144"
  shows "unat al dvd unat start \<Longrightarrow> unat start \<le> 2 ^ 59 \<Longrightarrow>
    ma_scan ma n al e start =
      Some (map_option of_nat (find (freeAt (ma_held ma) (unat n))
        (filter (\<lambda>s. unat al dvd s) [unat start..<Suc (unat e)])))"
proof (induction "Suc (unat e) - unat start" arbitrary: start rule: less_induct)
  case less
  show ?case
  proof (cases "start \<le> e")
    case False
    then show ?thesis by (subst ma_scan.simps) (simp add: word_le_nat_alt)
  next
    case True
    then have le: "unat start \<le> unat e" by (simp add: word_le_nat_alt)
    have al': "0 < unat al" using al(1) by (simp add: unat_gt_0)
    have next': "unat (start + al) = unat start + unat al"
      using le bound al(2) by (simp add: unat_word_ariths)
    have "ma_empty ma start [0..<unat n] = Some (freeAt (ma_held ma) (unat n) (unat start))"
      using le bound by (intro ma_empty_free [OF inv]) simp
    moreover have "ma_scan ma n al e (start + al) =
        Some (map_option of_nat (find (freeAt (ma_held ma) (unat n))
          (filter (\<lambda>s. unat al dvd s) [unat (start + al)..<Suc (unat e)])))"
      by (rule less.hyps) (use le less.prems next' al' al(2) bound in auto)
    ultimately show ?thesis
      using True multiples_from [OF al' less.prems(1) le] next'
      by (subst ma_scan.simps) simp
  qed
qed

definition unitsOf :: "uint64 \<Rightarrow> nat" where
  "unitsOf x = (max 1 (unat x) + 63) div 64"

lemma firstFit_range:
  assumes "firstFit H cap n al = Some s" and "n \<le> cap"
  shows "s + n \<le> cap" and "al dvd s" and "freeAt H n s"
  using assms by (auto simp: firstFit_def find_Some_iff in_set_conv_nth [symmetric]
      dest!: nth_mem)

lemma firstFit_empty:
  assumes "freeAt H n 0" and "n \<le> cap"
  shows "firstFit H cap n al = Some 0"
proof -
  have "[0..<Suc cap - n] = 0 # [Suc 0..<Suc cap - n]"
    using assms(2) by (subst upt_conv_Cons) auto
  then show ?thesis using assms(1) by (simp add: firstFit_def)
qed

lemma unitsOf_word:
  assumes "unat x \<le> 2 ^ 64 - 64"
  shows "unat (((if x = 0 then 1 else x) + 64 - 1) div 64) = unitsOf x"
proof (cases "x = 0")
  case False
  then have "0 < unat x" by (simp add: unat_gt_0)
  moreover have "unat (x + 64 - 1) = unat x + 63"
    using assms by (simp add: unat_word_ariths)
  ultimately show ?thesis using False by (simp add: unitsOf_def unat_div max_def)
qed (simp add: unitsOf_def)

text \<open>One round of \<^verbatim>\<open>alloc\<close>: a first fit is taken, otherwise the bitmap is cleared and the call repeated.\<close>

definition sizeOk :: "memAlloc \<Rightarrow> uint64 \<Rightarrow> uint64 \<Rightarrow> bool" where
  "sizeOk ma n al \<longleftrightarrow> max 1 (unat n) \<le> 64 * unat (ma_size ma) \<and> unat al \<le> 2 ^ 64 - 64"

lemma sizeOk_units:
  assumes "ma_inv ma" and "sizeOk ma n al"
  shows "unitsOf n \<le> unat (ma_size ma)" and "unat (ma_size ma) \<le> 262144" and "unat n \<le> 2 ^ 64 - 64"
    and "0 < unitsOf al" and "unitsOf al \<le> 2 ^ 58"
  using assms by (auto simp: ma_inv_def sizeOk_def unitsOf_def)

lemma ma_scan_firstFit:
  assumes inv: "ma_inv ma" and ok: "sizeOk ma n al"
    and n': "n' = ((if n = 0 then 1 else n) + 64 - 1) div 64"
    and al': "al' = ((if al = 0 then 1 else al) + 64 - 1) div 64"
  shows "ma_scan ma n' al' (ma_size ma - n') 0 =
    Some (map_option of_nat (firstFit (ma_held ma) (unat (ma_size ma)) (unitsOf n) (unitsOf al)))"
proof -
  note u = sizeOk_units [OF inv ok]
  have n: "unat n' = unitsOf n" unfolding n' using u(3) by (rule unitsOf_word)
  have a: "unat al' = unitsOf al"
    unfolding al' using ok by (intro unitsOf_word) (simp add: sizeOk_def)
  have e: "unat (ma_size ma - n') = unat (ma_size ma) - unitsOf n"
    using u(1) n by (simp add: unat_sub word_le_nat_alt)
  have "al' \<noteq> 0" using a u(4) by auto
  from ma_scan_first [OF inv this, of "ma_size ma - n'" n' 0] u a e n show ?thesis
    by (simp add: firstFit_def Suc_diff_le del: upt_Suc)
qed

lemma ma_alloc_fit:
  assumes inv: "ma_inv ma" and ok: "sizeOk ma n al"
    and fit: "firstFit (ma_held ma) (unat (ma_size ma)) (unitsOf n) (unitsOf al) = Some s"
  shows "\<exists>a ma'. ma_alloc n al ma = Some (a, ma') \<and> ma_inv ma' \<and> ma_size ma' = ma_size ma \<and>
    unat a = 64 * s \<and> ma_held ma' = ma_held ma \<union> {s..<s + unitsOf n}"
proof -
  note u = sizeOk_units [OF inv ok]
  have s: "s + unitsOf n \<le> unat (ma_size ma)" using firstFit_range(1) [OF fit u(1)] .
  define n0 where "n0 = (if n = 0 then 1 else n)"
  have n0: "unat n0 = max 1 (unat n)" by (auto simp: n0_def max_def unat_gt_0 not_le)
  have a: "unat (of_nat s * 64 :: uint64) = 64 * s"
    using s u(2) by (simp add: unat_word_ariths unat_of_nat take_bit_eq_mod)
  have fits: "64 * s + unat n0 \<le> 64 * 262144"
    using s u(2) n0 by (simp add: unitsOf_def)
  obtain ma' where ma': "ma_noteAlloc (of_nat s * 64) n0 ma = Some ma'" "ma_inv ma'"
    "ma_size ma' = ma_size ma" "ma_held ma' = ma_held ma \<union> granulesOf (64 * s) (unat n0)"
    using ma_noteAlloc_held [OF inv, of "of_nat s * 64" n0] a fits by auto
  have "granulesOf (64 * s) (unat n0) = {s..<s + unitsOf n}"
    by (simp add: granulesOf_def unitsOf_def n0 add.assoc)
  with ma' a show ?thesis
    using ma_scan_firstFit [OF inv ok refl refl] fit
    by (subst ma_alloc.simps) (simp add: Let_def memAllocGranule_def n0_def [symmetric])
qed

lemma ma_alloc_refines:
  assumes inv: "ma_inv ma" and ok: "sizeOk ma n al"
  shows "\<exists>a ma'. ma_alloc n al ma = Some (a, ma') \<and> ma_inv ma' \<and> ma_size ma' = ma_size ma \<and>
    unat a = 64 * fst (spec_alloc (ma_held ma) (unat (ma_size ma)) (unitsOf n) (unitsOf al)) \<and>
    ma_held ma' = snd (spec_alloc (ma_held ma) (unat (ma_size ma)) (unitsOf n) (unitsOf al))"
proof (cases "firstFit (ma_held ma) (unat (ma_size ma)) (unitsOf n) (unitsOf al)")
  case (Some s)
  then show ?thesis using ma_alloc_fit [OF inv ok Some] by (simp add: spec_alloc_def)
next
  case None
  let ?n = "if n = 0 then 1 else n" and ?al = "if al = 0 then 1 else al"
  obtain ma1 where ma1: "ma_bankruptcy ma = Some ma1" "ma_inv ma1" "ma_size ma1 = ma_size ma"
    "ma_held ma1 = ma_held ma - {..<unat (ma_size ma)}"
    using ma_bankruptcy_held [OF inv] by blast
  have units: "unitsOf ?n = unitsOf n" "unitsOf ?al = unitsOf al" by (simp_all add: unitsOf_def)
  have ok1: "sizeOk ma1 ?n ?al" using ok ma1(3) by (auto simp: sizeOk_def)
  note u = sizeOk_units(1) [OF inv ok]
  have "freeAt (ma_held ma1) (unitsOf n) 0" using u ma1(4) by (auto simp: freeAt_def)
  then have "firstFit (ma_held ma1) (unat (ma_size ma1)) (unitsOf ?n) (unitsOf ?al) = Some 0"
    unfolding units using u ma1(3) by (intro firstFit_empty) simp_all
  from ma_alloc_fit [OF ma1(2) ok1 this] obtain a ma' where
    ma': "ma_alloc ?n ?al ma1 = Some (a, ma')" "ma_inv ma'" "ma_size ma' = ma_size ma1" "unat a = 0"
      "ma_held ma' = ma_held ma1 \<union> {0..<unitsOf n}"
    by (auto simp: units)
  have "ma_alloc n al ma = Some (a, ma')"
    using ma_scan_firstFit [OF inv ok refl refl] None ma1(1) ma'(1)
    by (subst ma_alloc.simps) (simp add: Let_def memAllocGranule_def)
  with ma' ma1 None show ?thesis by (simp add: spec_alloc_def)
qed

lemma newMemAlloc_inv:
  assumes "newMemAlloc m = Some ma"
  shows "ma_inv ma" and "ma_held ma = {}" and "unat (ma_size ma) = unat m div 64"
proof -
  from assms have le: "m \<le> 16777216" and al: "m mod 262144 = 0"
    and ma: "ma = \<lparr>ma_size = m div 64, ma_mem = Some (replicate 64 0) # replicate 63 None\<rparr>"
    by (auto simp: newMemAlloc_def alloc_consts not_less split: if_splits)
  have m: "unat m \<le> 16777216" "unat m mod 262144 = 0"
    using le arg_cong [OF al, of unat] by (simp_all add: word_le_nat_alt unat_mod)
  show size: "unat (ma_size ma) = unat m div 64" by (simp add: ma unat_div)
  obtain k where k: "unat m = 262144 * k" using m(2) by (auto simp: mod_eq_0_iff_dvd elim: dvdE)
  then have "unat m div 64 = 4096 * k" "k \<le> 64" using m(1) by simp_all
  then show "ma_inv ma"
    using size by (simp add: ma_inv_def ma list_all_iff)
  show "ma_held ma = {}"
    by (auto simp: ma_held_def ma nth_Cons split: nat.splits)
qed

subsection \<open>Used pages\<close>

definition va_inv :: "vmaAlloc \<Rightarrow> bool" where
  "va_inv va \<longleftrightarrow> set (va_used va) = va_m va \<and> distinct (va_used va) \<and>
     (\<forall>p \<in> va_m va. p < va_numPages va)"

interpretation pages: unit_tracker "\<lambda>va. va_inv va \<and> va_numPages va = n" "\<lambda>va. unat ` va_m va"
  "\<lambda>i va. Some (va_note1 (of_nat i) va)" "\<lambda>va. unat (va_numPages va)" for n
proof
  fix va i
  assume a: "va_inv va \<and> va_numPages va = n" and i: "i < unat (va_numPages va)"
  have u: "unat (of_nat i :: uint64) = i"
    using less_trans [OF i uint64_lt] by (rule unat_of_nat64)
  then have "of_nat i < va_numPages va" using i by (simp add: word_less_nat_alt)
  with a have "va_inv (va_note1 (of_nat i) va)" "va_numPages (va_note1 (of_nat i) va) = n"
    by (auto simp: va_inv_def va_note1_def)
  moreover have "unat ` va_m (va_note1 (of_nat i) va) = insert i (unat ` va_m va)"
    using u by (force simp: va_note1_def image_iff)
  ultimately show "\<exists>va'. Some (va_note1 (of_nat i) va) = Some va' \<and> (va_inv va' \<and> va_numPages va' = n) \<and>
      unat (va_numPages va') = unat (va_numPages va) \<and> unat ` va_m va' = insert i (unat ` va_m va)"
    using a by auto
qed

lemma loopM_Some: "loopM (\<lambda>i s. Some (f i s)) xs s = Some (fold f xs s)"
  by (induction xs arbitrary: s) simp_all

lemma va_noteAlloc_held:
  assumes inv: "va_inv va" and bound: "unat page + unat sz \<le> unat (va_numPages va)"
  shows "va_inv (va_noteAlloc page sz va)" and "va_numPages (va_noteAlloc page sz va) = va_numPages va"
    and "unat ` va_m (va_noteAlloc page sz va) =
      unat ` va_m va \<union> {unat page..<unat page + unat sz}"
proof -
  have "unat (page + sz) = unat page + unat sz"
    using le_less_trans [OF bound uint64_lt] by (simp add: unat_word_ariths)
  then have "loopM (\<lambda>i va. Some (va_note1 (of_nat i) va)) [unat page..<unat page + unat sz] va =
      Some (va_noteAlloc page sz va)"
    by (simp add: loopM_Some va_noteAlloc_def fold_map o_def)
  with pages.mark_range [of va "va_numPages va" "unat page" "unat sz"] inv bound
  show "va_inv (va_noteAlloc page sz va)" "va_numPages (va_noteAlloc page sz va) = va_numPages va"
    "unat ` va_m (va_noteAlloc page sz va) = unat ` va_m va \<union> {unat page..<unat page + unat sz}"
    by auto
qed

lemma rand_total: "0 < n \<Longrightarrow> \<exists>k r'. rand n r = Some (of_nat k, r') \<and> k < n"
  using Intn_total [of n r] by (auto simp: rand_def)

definition pagesOk :: "vmaAlloc \<Rightarrow> uint64 \<Rightarrow> bool" where
  "pagesOk va sz \<longleftrightarrow> 1 \<le> unat sz \<and> unat sz + 3 \<le> unat (va_numPages va) \<and> unat (va_numPages va) \<le> 2 ^ 62"

lemma va_fresh_ok:
  assumes ok: "pagesOk va sz" and page: "k < 4"
  shows "unat (va_numPages va - of_nat k - sz) + unat sz \<le> unat (va_numPages va)"
    and "k + unat sz \<le> unat (va_numPages va)"
proof -
  have k: "unat (of_nat k :: uint64) = k" using page by (simp add: unat_of_nat64)
  have "unat (va_numPages va - of_nat k) = unat (va_numPages va) - k"
    using ok page k by (simp add: pagesOk_def unat_sub word_le_nat_alt)
  then have "unat (va_numPages va - of_nat k - sz) = unat (va_numPages va) - k - unat sz"
    using ok page by (subst unat_sub) (auto simp: pagesOk_def word_le_nat_alt)
  with ok page show "unat (va_numPages va - of_nat k - sz) + unat sz \<le> unat (va_numPages va)"
    "k + unat sz \<le> unat (va_numPages va)"
    by (auto simp: pagesOk_def)
qed

lemma va_clamp_ok:
  assumes ok: "pagesOk va sz" and page: "page < va_numPages va"
  shows "unat (if page + sz > va_numPages va then va_numPages va - sz else page) + unat sz
    \<le> unat (va_numPages va)"
proof -
  have "unat (page + sz) = unat page + unat sz"
    using ok page by (simp add: pagesOk_def unat_word_ariths word_less_nat_alt)
  moreover have "unat (va_numPages va - sz) = unat (va_numPages va) - unat sz"
    using ok by (simp add: pagesOk_def unat_sub word_le_nat_alt)
  ultimately show ?thesis using ok by (auto simp: pagesOk_def word_less_nat_alt not_less)
qed

lemma sub_min_less: "(page :: uint64) < n \<Longrightarrow> page - (if off > page then page else off) < n"
  by (auto simp: word_less_nat_alt not_less unat_sub word_le_nat_alt)

lemma va_shift_ok:
  assumes ok: "pagesOk va sz" and page: "page < va_numPages va"
  shows "\<exists>off r'. (if sz > 1 then do {
            (b, r) \<leftarrow> bin r;
            if b then do {
              (off, r) \<leftarrow> rand (if unat sz < 2 ^ 63 then unat sz else 0) r;
              Some (page - (if off > page then page else off), r)
            } else Some (page, r)
          } else Some (page, r)) = Some (off, r') \<and> off < va_numPages va"
proof -
  obtain b r1 where b: "bin r = Some (b, r1)" using bin_total by blast
  have sz: "unat sz < 2 ^ 63" "0 < unat sz" using ok by (simp_all add: pagesOk_def)
  obtain k r2 where "rand (unat sz) r1 = Some (of_nat k, r2)" using rand_total [OF sz(2)] by blast
  with b sz(1) page sub_min_less [OF page, of "of_nat k"] show ?thesis by simp
qed

lemma va_inv_length:
  assumes "va_inv va"
  shows "length (va_used va) \<le> unat (va_numPages va)"
proof -
  have "inj_on unat (va_m va)" by (rule inj_onI) (simp add: word_unat_eq_iff)
  then have "length (va_used va) = card (unat ` va_m va)"
    using assms by (simp add: va_inv_def card_image distinct_card [symmetric])
  also have "\<dots> \<le> card {..<unat (va_numPages va)}"
    using assms by (intro card_mono) (auto simp: va_inv_def word_less_nat_alt)
  finally show ?thesis by simp
qed

lemma va_choose_ok:
  assumes inv: "va_inv va" and ok: "pagesOk va sz"
  shows "\<exists>page r'. va_choose sz va r = Some (page, r') \<and>
    unat page + unat sz \<le> unat (va_numPages va)"
proof -
  obtain fresh r1 where fresh: "(if va_used va = [] then Some (True, r) else oneOf 5 r) = Some (fresh, r1)"
    and used: "\<not> fresh \<Longrightarrow> va_used va \<noteq> []"
    using oneOf_total [of 5 r] by (cases "va_used va = []") auto
  show ?thesis
  proof (cases fresh)
    case True
    obtain k r2 where k: "rand 4 r1 = Some (of_nat k, r2)" "k < 4" using rand_total [of 4 r1] by auto
    obtain low r3 where low: "oneOf 100 r2 = Some (low, r3)" using oneOf_total [of 100 r2] by auto
    have "unat (of_nat k :: uint64) = k" using k(2) by (simp add: unat_of_nat64)
    with True fresh k low va_fresh_ok [OF ok k(2)] show ?thesis by (simp add: va_choose_def)
  next
    case False
    obtain k r2 where k: "rand (length (va_used va)) r1 = Some (of_nat k, r2)" "k < length (va_used va)"
      using rand_total [of "length (va_used va)" r1] used [OF False] by auto
    have "length (va_used va) < 2 ^ 64" using va_inv_length [OF inv] uint64_lt le_less_trans by blast
    then have "unat (of_nat k :: uint64) = k" using k(2) by (intro unat_of_nat64) simp
    then have page: "va_used va ! unat (of_nat k :: uint64) < va_numPages va"
      using inv k(2) by (auto simp: va_inv_def)
    let ?p = "va_used va ! unat (of_nat k :: uint64)"
    obtain off r3 where off: "(if sz > 1 then do {
            (b, r) \<leftarrow> bin r2;
            if b then do {
              (off, r) \<leftarrow> rand (if unat sz < 2 ^ 63 then unat sz else 0) r;
              Some (?p - (if off > ?p then ?p else off), r)
            } else Some (?p, r)
          } else Some (?p, r2)) = Some (off, r3)" "off < va_numPages va"
      using va_shift_ok [OF ok page, of r2] by blast
    with False fresh k va_clamp_ok [OF ok off(2)] show ?thesis by (simp add: va_choose_def)
  qed
qed

lemma va_alloc_held:
  assumes inv: "va_inv va" and ok: "pagesOk va sz"
  shows "\<exists>page va' r'. va_alloc sz va r = Some (page, va', r') \<and> va_inv va' \<and>
    va_numPages va' = va_numPages va \<and> unat page + unat sz \<le> unat (va_numPages va) \<and>
    unat ` va_m va' = unat ` va_m va \<union> {unat page..<unat page + unat sz}"
proof -
  obtain page r' where page: "va_choose sz va r = Some (page, r')"
    and fits: "unat page + unat sz \<le> unat (va_numPages va)"
    using va_choose_ok [OF inv ok] by blast
  have "unat (page + sz) = unat page + unat sz"
    using fits ok by (simp add: pagesOk_def unat_word_ariths)
  then have "va_alloc sz va r = Some (page, va_noteAlloc page sz va, r')"
    using page fits ok by (auto simp: va_alloc_def pagesOk_def word_less_nat_alt word_le_nat_alt)
  with va_noteAlloc_held [OF inv fits] fits show ?thesis by simp
qed

subsection \<open>Properties\<close>

text \<open>
  C9. The bitmap allocator implements first fit over the set of held granules: for a size that fits
  the memory and an alignment below the top of the range it returns (the scan and the retry after
  \<^verbatim>\<open>bankruptcy\<close> terminate), the address is 64 times the first aligned free slot, or 0 after all
  granules of the memory were released, and the granules held afterwards are those of the
  specification.
\<close>

theorem memAlloc_alloc_first_fit:
  assumes "ma_inv ma" and "sizeOk ma n al"
  shows "\<exists>a ma'. ma_alloc n al ma = Some (a, ma') \<and> ma_inv ma' \<and> ma_size ma' = ma_size ma \<and>
    (unat a div 64, ma_held ma') =
      spec_alloc (ma_held ma) (unat (ma_size ma)) (unitsOf n) (unitsOf al) \<and> 64 dvd unat a"
  using ma_alloc_refines [OF assms] by force

theorem memAlloc_alloc_first_fit_witness:
  "\<exists>ma a ma'. newMemAlloc (2 ^ 24) = Some ma \<and> ma_alloc 100 8 ma = Some (a, ma') \<and>
     unat a div 64 = 0 \<and> ma_held ma' = {0, 1}"
proof -
  obtain ma where ma: "newMemAlloc (2 ^ 24) = Some ma"
    by (simp add: newMemAlloc_def alloc_consts)
  note inv = newMemAlloc_inv [OF ma]
  have "sizeOk ma 100 8" using inv(3) by (simp add: sizeOk_def)
  from memAlloc_alloc_first_fit [OF inv(1) this] obtain a ma' where
    al: "ma_alloc 100 8 ma = Some (a, ma')"
    "(unat a div 64, ma_held ma') = spec_alloc {} 262144 2 1"
    using inv by (auto simp: unitsOf_def)
  have "firstFit {} 262144 2 1 = Some 0" by (rule firstFit_empty) (simp_all add: freeAt_def)
  then have "spec_alloc {} 262144 2 1 = (0, {0..<2})"
    by (simp add: spec_alloc_def numeral_2_eq_2)
  moreover have "{0..<2} = {0, 1 :: nat}" by auto
  ultimately have "unat a div 64 = 0" "ma_held ma' = {0, 1}" using al(2) by simp_all
  with ma al(1) show ?thesis by blast
qed

text \<open>
  C10. A block the bitmap allocator hands out lies inside the memory and honours the requested
  alignment (when it divides or is a multiple of the granule, as every power of two is), the block
  is marked afterwards, and unless the allocator had to declare bankruptcy the block was disjoint
  from everything held before.
\<close>

lemma unitsOf_dvd:
  assumes "unitsOf al dvd s" and "unat al dvd 64 \<or> al \<noteq> 0 \<and> 64 dvd unat al"
  shows "unat al dvd 64 * s"
proof (cases "unat al dvd 64")
  case False
  with assms(2) obtain q where q: "unat al = 64 * q" and "al \<noteq> 0" by (auto elim!: dvdE)
  then have "0 < q" by (cases q) (auto simp: unat_eq_0)
  with q have "unitsOf al = q" by (simp add: unitsOf_def)
  with assms(1) q show ?thesis by simp
qed simp

lemma granulesOf_units: "granulesOf (64 * s) (unat n) \<subseteq> {s..<s + unitsOf n}"
  by (auto simp: granulesOf_def unitsOf_def max_def add.assoc)

theorem memAlloc_alloc_safe:
  assumes "ma_inv ma" and "sizeOk ma n al" and "ma_alloc n al ma = Some (a, ma')"
    and "unat al dvd 64 \<or> al \<noteq> 0 \<and> 64 dvd unat al"
  shows "unat a + unat n \<le> 64 * unat (ma_size ma) \<and> unat al dvd unat a \<and>
    granulesOf (unat a) (unat n) \<subseteq> ma_held ma' \<and>
    (granulesOf (unat a) (unat n) \<inter> ma_held ma = {} \<or>
     firstFit (ma_held ma) (unat (ma_size ma)) (unitsOf n) (unitsOf al) = None)"
proof -
  define s where "s = fst (spec_alloc (ma_held ma) (unat (ma_size ma)) (unitsOf n) (unitsOf al))"
  have a: "unat a = 64 * s" and held: "ma_held ma' =
      snd (spec_alloc (ma_held ma) (unat (ma_size ma)) (unitsOf n) (unitsOf al))"
    using ma_alloc_refines [OF assms(1,2)] assms(3) by (auto simp: s_def)
  note u = sizeOk_units(1) [OF assms(1,2)]
  have s: "s + unitsOf n \<le> unat (ma_size ma)" "unitsOf al dvd s"
      "{s..<s + unitsOf n} \<subseteq> ma_held ma'"
    and free: "freeAt (ma_held ma) (unitsOf n) s \<or>
      firstFit (ma_held ma) (unat (ma_size ma)) (unitsOf n) (unitsOf al) = None"
    using u firstFit_range [of "ma_held ma" "unat (ma_size ma)" "unitsOf n" "unitsOf al"] held
    by (auto simp: s_def spec_alloc_def split: option.splits)
  have "unat n \<le> 64 * unitsOf n" unfolding unitsOf_def by (cases "unat n"; simp; presburger)
  with s(1) a have "unat a + unat n \<le> 64 * unat (ma_size ma)" by simp
  moreover have "unat al dvd unat a" using unitsOf_dvd [OF s(2) assms(4)] a by simp
  ultimately show ?thesis
    using granulesOf_units [of s n] s(3) free a by (auto simp: freeAt_def)
qed

theorem memAlloc_alloc_safe_witness:
  "\<exists>ma a ma'. newMemAlloc (2 ^ 24) = Some ma \<and> ma_alloc 100 8 ma = Some (a, ma') \<and> 8 dvd unat a"
proof -
  obtain ma where ma: "newMemAlloc (2 ^ 24) = Some ma"
    by (simp add: newMemAlloc_def alloc_consts)
  note inv = newMemAlloc_inv [OF ma]
  have ok: "sizeOk ma 100 8" using inv(3) by (simp add: sizeOk_def)
  obtain a ma' where al: "ma_alloc 100 8 ma = Some (a, ma')"
    using ma_alloc_refines [OF inv(1) ok] by blast
  from memAlloc_alloc_safe [OF inv(1) ok al] ma al show ?thesis by auto
qed

text \<open>
  C11. The page allocator, asked for at least one page and leaving three, never panics and never
  wraps: the pages it returns are inside the address space, they are recorded as used, and the list
  of used pages stays a duplicate-free enumeration of the set.
\<close>

theorem vmaAlloc_alloc_safe:
  assumes "va_inv va" and "pagesOk va sz"
  shows "\<exists>page va' r'. va_alloc sz va r = Some (page, va', r') \<and> va_inv va' \<and>
    va_numPages va' = va_numPages va \<and> unat page + unat sz \<le> unat (va_numPages va) \<and>
    unat ` va_m va' = unat ` va_m va \<union> {unat page..<unat page + unat sz}"
  using assms by (rule va_alloc_held)

theorem vmaAlloc_alloc_safe_witness:
  "\<exists>page va' r'. va_alloc 4 (newVmaAlloc 4096) [2, 7] = Some (page, va', r') \<and> va_inv va'"
  using vmaAlloc_alloc_safe [of "newVmaAlloc 4096" 4 "[2, 7]"]
  by (auto simp: va_inv_def newVmaAlloc_def pagesOk_def)


end
