(* ===== verification/Heatmap.thy ===== *)
theory Heatmap
  imports Prelude
begin

text \<open>
  The heatmap of \<^verbatim>\<open>prog/heatmap.go\<close>, which picks the bytes of an image to mutate. The data is a
  list, a segment a pair of offset and length; the closure \<^verbatim>\<open>saveSegment\<close> works on the loop state.
  \<open>hotIndices\<close> is what the code is meant to choose from: the positions in chunks that are not one
  repeated byte. The lemmas show that the segments enumerate exactly those positions, in order, and
  that \<open>translateIdx\<close> indexes that enumeration.
\<close>

record segment =
  seg_offset :: nat
  seg_length :: nat

definition granularity :: nat where "granularity = 64"

record segState =
  ss_offset :: nat
  ss_currentLength :: nat
  ss_totalLength :: nat
  ss_segments :: "segment list"

definition saveSegment :: "segState \<Rightarrow> segState" where
  "saveSegment s =
     (if ss_currentLength s \<noteq> 0 then
        s\<lparr>ss_segments := ss_segments s @
            [\<lparr>seg_offset = ss_offset s, seg_length = ss_currentLength s\<rparr>],
          ss_offset := ss_offset s + ss_currentLength s,
          ss_totalLength := ss_totalLength s + ss_currentLength s,
          ss_currentLength := 0\<rparr>
      else s)"

definition isConstantChunk :: "'a list \<Rightarrow> bool" where
  "isConstantChunk chunk = list_all (\<lambda>byt. byt = hd chunk) chunk"

text \<open>
  A granularity of zero makes the chunk empty, and reading its first byte panics.
\<close>

function segmentLoop :: "nat \<Rightarrow> 'a list \<Rightarrow> segState \<Rightarrow> segState option" where
  "segmentLoop g data s =
     (if data = [] then Some s
      else if g = 0 then None
      else
        let chunk = (if length data < g then data else take g data);
            data = (if length data < g then [] else drop g data);
            s = (if \<not> isConstantChunk chunk then
                   s\<lparr>ss_currentLength := ss_currentLength s + length chunk\<rparr>
                 else
                   let s = saveSegment s in s\<lparr>ss_offset := ss_offset s + length chunk\<rparr>)
        in segmentLoop g data s)"
  by pat_completeness auto
termination by (relation "measure (\<lambda>(g, data, s). length data)") auto

declare segmentLoop.simps [simp del]

definition calculateLengthAndSegments :: "'a list \<Rightarrow> nat \<Rightarrow> (nat \<times> segment list) option" where
  "calculateLengthAndSegments data g = do {
     s \<leftarrow> segmentLoop g data
       \<lparr>ss_offset = 0, ss_currentLength = 0, ss_totalLength = 0, ss_segments = []\<rparr>;
     let s = saveSegment s;
     Some (if ss_segments s = [] then
             (length data, ss_segments s @ [\<lparr>seg_offset = 0, seg_length = length data\<rparr>])
           else (ss_totalLength s, ss_segments s))
   }"

fun translateLoop :: "nat \<Rightarrow> segment list \<Rightarrow> nat option" where
  "translateLoop idx [] = None"
| "translateLoop idx (seg # segs) =
     (if idx < seg_length seg then Some (seg_offset seg + idx)
      else translateLoop (idx - seg_length seg) segs)"

definition translateIdx :: "int \<Rightarrow> segment list \<Rightarrow> nat option" where
  "translateIdx idx segs = (if idx < 0 then None else translateLoop (nat idx) segs)"

record GenericHeatmap =
  hm_segments :: "segment list"
  hm_length :: nat

definition MakeGenericHeatmap :: "'a list \<Rightarrow> GenericHeatmap option" where
  "MakeGenericHeatmap data =
     (if data = [] then None
      else do {
        (len, segs) \<leftarrow> calculateLengthAndSegments data granularity;
        Some \<lparr>hm_segments = segs, hm_length = len\<rparr>
      })"

definition NumMutations :: "GenericHeatmap \<Rightarrow> rng \<Rightarrow> (nat \<times> rng) option" where
  "NumMutations hm r = do {
     let n = 1;
     (a, r) \<leftarrow> Intn (hm_length hm div (4 * 2 ^ 10) + 1) r;
     let n = n + a;
     (b, r) \<leftarrow> Intn 5 r;
     let n = n + b;
     Some (if n > 10 then 10 else n, r)
   }"

definition ChooseLocation :: "GenericHeatmap \<Rightarrow> rng \<Rightarrow> (nat \<times> rng) option" where
  "ChooseLocation hm r = do {
     (heatmapIdx, r) \<leftarrow> Intn (hm_length hm) r;
     rawIdx \<leftarrow> translateIdx (int heatmapIdx) (hm_segments hm);
     Some (rawIdx, r)
   }"

subsection \<open>What the segments enumerate\<close>

definition segIndices :: "segment list \<Rightarrow> nat list" where
  "segIndices segs = concat (map (\<lambda>s. [seg_offset s..<seg_offset s + seg_length s]) segs)"

definition chunkAt :: "nat \<Rightarrow> 'a list \<Rightarrow> nat \<Rightarrow> 'a list" where
  "chunkAt g data i = take g (drop (i div g * g) data)"

definition hot :: "nat \<Rightarrow> 'a list \<Rightarrow> nat \<Rightarrow> bool" where
  "hot g data i \<longleftrightarrow> \<not> isConstantChunk (chunkAt g data i)"

definition hotIndices :: "nat \<Rightarrow> 'a list \<Rightarrow> nat list" where
  "hotIndices g data =
     (if filter (hot g data) [0..<length data] = [] then [0..<length data]
      else filter (hot g data) [0..<length data])"

lemma segIndices_simps [simp]:
  "segIndices [] = []"
  "segIndices (s # segs) = [seg_offset s..<seg_offset s + seg_length s] @ segIndices segs"
  "segIndices (xs @ ys) = segIndices xs @ segIndices ys"
  by (simp_all add: segIndices_def)

lemma translateLoop_nth:
  "translateLoop idx segs = (if idx < length (segIndices segs) then Some (segIndices segs ! idx) else None)"
  by (induction idx segs rule: translateLoop.induct) (auto simp: nth_append)

definition seg_inv :: "nat \<Rightarrow> 'a list \<Rightarrow> nat \<Rightarrow> segState \<Rightarrow> bool" where
  "seg_inv g data p s \<longleftrightarrow>
     ss_offset s + ss_currentLength s = p \<and>
     segIndices (ss_segments s) @ [ss_offset s..<p] = filter (hot g data) [0..<p] \<and>
     ss_totalLength s = length (segIndices (ss_segments s)) \<and>
     list_all (\<lambda>x. 0 < seg_length x) (ss_segments s)"

lemma saveSegment_inv:
  assumes "seg_inv g data p s"
  shows "seg_inv g data p (saveSegment s)" and "ss_currentLength (saveSegment s) = 0"
proof -
  have e: "segIndices (ss_segments s) @ [ss_offset s..<p] = filter (hot g data) [0..<p]"
    and p: "p = ss_offset s + ss_currentLength s"
    using assms by (simp_all add: seg_inv_def)
  have "length (segIndices (ss_segments s)) + ss_currentLength s = length (filter (hot g data) [0..<p])"
    unfolding e [symmetric] by (simp add: p)
  with assms show "seg_inv g data p (saveSegment s)" "ss_currentLength (saveSegment s) = 0"
    by (auto simp: seg_inv_def saveSegment_def)
qed

lemma chunk_step:
  assumes "p = k * g" and "0 < g" and "p < length data" and "n = min g (length data - p)"
  shows "filter (hot g data) [p..<p + n] =
    (if isConstantChunk (take g (drop p data)) then [] else [p..<p + n])"
proof -
  have "hot g data i \<longleftrightarrow> \<not> isConstantChunk (take g (drop p data))" if "i \<in> {p..<p + n}" for i
  proof -
    from that assms have "i div g = k"
      by (intro div_nat_eqI) (auto simp: min_def mult.commute split: if_splits)
    then show ?thesis by (simp add: hot_def chunkAt_def assms(1))
  qed
  then show ?thesis by (auto simp: filter_empty_conv filter_id_conv)
qed

lemma filter_hot_step:
  assumes "p = k * g" and "0 < g" and "p < length data" and "n = min g (length data - p)"
  shows "filter (hot g data) [0..<p + n] = filter (hot g data) [0..<p] @
    (if isConstantChunk (take g (drop p data)) then [] else [p..<p + n])"
  using chunk_step [OF assms] by (simp add: upt_add_eq_append [of 0 p n])

lemma segmentLoop_inv:
  assumes g: "0 < g"
  shows "seg_inv g data p s \<Longrightarrow> p \<le> length data \<Longrightarrow> p = length data \<or> p = k * g \<Longrightarrow>
    \<exists>s'. segmentLoop g (drop p data) s = Some s' \<and> seg_inv g data (length data) s'"
proof (induction "length data - p" arbitrary: p s k rule: less_induct)
  case less
  show ?case
  proof (cases "p = length data")
    case True
    with less.prems show ?thesis by (simp add: segmentLoop.simps)
  next
    case False
    with less.prems have p: "p < length data" "p = k * g" by auto
    define n where "n = min g (length data - p)"
    define chunk where "chunk = take g (drop p data)"
    define s1 where "s1 = (if \<not> isConstantChunk chunk then
                   s\<lparr>ss_currentLength := ss_currentLength s + length chunk\<rparr>
                 else let s = saveSegment s in s\<lparr>ss_offset := ss_offset s + length chunk\<rparr>)"
    have len: "length chunk = n" by (simp add: chunk_def n_def)
    have step: "segmentLoop g (drop p data) s = segmentLoop g (drop (p + n) data) s1"
      using p g by (subst segmentLoop.simps)
        (auto simp: s1_def chunk_def n_def Let_def min_def add.commute)
    have "seg_inv g data (p + n) s1"
    proof (cases "isConstantChunk chunk")
      case True
      with filter_hot_step [OF p(2) g p(1) n_def] saveSegment_inv [OF less.prems(1)] len
      show ?thesis
        by (auto simp: seg_inv_def s1_def chunk_def Let_def)
    next
      case False
      have "[ss_offset s..<p + n] = [ss_offset s..<p] @ [p..<p + n]"
        using less.prems(1) by (intro upt_add_eq_append) (simp add: seg_inv_def)
      with False filter_hot_step [OF p(2) g p(1) n_def] less.prems(1) len show ?thesis
        by (auto simp: seg_inv_def s1_def chunk_def)
    qed
    moreover have "p + n = length data \<or> p + n = Suc k * g" using p by (auto simp: n_def)
    ultimately show ?thesis
      using less.hyps [of "p + n" s1 "Suc k"] p g step by (auto simp: n_def)
  qed
qed

lemma calculate_spec:
  assumes "0 < g" and "data \<noteq> []"
  shows "\<exists>segs. calculateLengthAndSegments data g = Some (length (hotIndices g data), segs) \<and>
    segIndices segs = hotIndices g data"
proof -
  let ?s0 = "\<lparr>ss_offset = 0, ss_currentLength = 0, ss_totalLength = 0, ss_segments = []\<rparr>"
  have "seg_inv g data 0 ?s0" by (simp add: seg_inv_def)
  from segmentLoop_inv [OF assms(1) this, of 0] obtain s where
    s: "segmentLoop g data ?s0 = Some s" and inv: "seg_inv g data (length data) s"
    by auto
  let ?segs = "ss_segments (saveSegment s)"
  from saveSegment_inv [OF inv] have fin: "segIndices ?segs = filter (hot g data) [0..<length data]"
    "ss_totalLength (saveSegment s) = length (segIndices ?segs)"
    and ne: "list_all (\<lambda>x. 0 < seg_length x) ?segs"
    by (auto simp: seg_inv_def)
  have "segIndices ?segs = [] \<longleftrightarrow> ?segs = []" using ne by (cases ?segs) auto
  with fin s show ?thesis
    by (auto simp: calculateLengthAndSegments_def hotIndices_def)
qed

lemma hotIndices_set: "set (hotIndices g data) \<subseteq> {..<length data}"
  by (auto simp: hotIndices_def)

lemma hotIndices_sorted: "sorted_wrt (<) (hotIndices g data)"
  by (auto simp: hotIndices_def intro: sorted_wrt_filter)

lemma hotIndices_pos: "data \<noteq> [] \<Longrightarrow> 0 < length (hotIndices g data)"
  by (auto simp: hotIndices_def)

lemma MakeGenericHeatmap_spec:
  assumes "data \<noteq> []"
  shows "\<exists>hm. MakeGenericHeatmap data = Some hm \<and> hm_length hm = length (hotIndices granularity data) \<and>
    segIndices (hm_segments hm) = hotIndices granularity data"
  using calculate_spec [of granularity data] assms
  by (auto simp: MakeGenericHeatmap_def granularity_def)

subsection \<open>Properties\<close>

text \<open>
  C13. On non-empty data the heatmap is built without a panic, and a draw of a location returns
  exactly the drawn element of the increasing list of positions that lie in chunks which are not a
  single repeated byte (of all positions, when every chunk is): translating a heatmap index never
  runs out of segments, and every such position is drawn by some choice.
\<close>

theorem heatmap_chooses_hot:
  assumes "data \<noteq> []"
  shows "\<exists>hm. MakeGenericHeatmap data = Some hm \<and> hm_length hm = length (hotIndices 64 data) \<and>
    sorted_wrt (<) (hotIndices 64 data) \<and> set (hotIndices 64 data) \<subseteq> {..<length data} \<and>
    ChooseLocation hm r =
      Option.bind (Intn (hm_length hm) r) (\<lambda>(k, r'). Some (hotIndices 64 data ! k, r')) \<and>
    (\<exists>i r'. ChooseLocation hm r = Some (i, r') \<and> i \<in> set (hotIndices 64 data))"
proof -
  obtain hm where hm: "MakeGenericHeatmap data = Some hm" "hm_length hm = length (hotIndices 64 data)"
    "segIndices (hm_segments hm) = hotIndices 64 data"
    using MakeGenericHeatmap_spec [OF assms] by (auto simp: granularity_def)
  obtain k r' where k: "Intn (hm_length hm) r = Some (k, r')" "k < hm_length hm"
    using Intn_total [of "hm_length hm" r] hotIndices_pos [OF assms, of 64] hm(2) by auto
  then have "ChooseLocation hm r = Some (hotIndices 64 data ! k, r')"
    using hm by (simp add: ChooseLocation_def translateIdx_def translateLoop_nth)
  with k hm show ?thesis
    using hotIndices_sorted [of 64 data] hotIndices_set [of 64 data] by auto
qed

theorem heatmap_chooses_hot_witness:
  "\<exists>hm i r'. MakeGenericHeatmap [1, 2 :: nat] = Some hm \<and> ChooseLocation hm [1] = Some (i, r') \<and> i < 2"
  using heatmap_chooses_hot [of "[1, 2 :: nat]" "[1]"] by (fastforce dest: subsetD)

text \<open>The number of mutations of an image is between one and ten.\<close>

lemma NumMutations_range:
  "\<exists>n r'. NumMutations hm r = Some (n, r') \<and> 1 \<le> n \<and> n \<le> 10"
proof -
  obtain a r1 where a: "Intn (hm_length hm div (4 * 2 ^ 10) + 1) r = Some (a, r1)"
    using Intn_total [of "hm_length hm div (4 * 2 ^ 10) + 1" r] by auto
  obtain b r2 where b: "Intn 5 r1 = Some (b, r2)" using Intn_total [of 5 r1] by auto
  show ?thesis using a b by (simp add: NumMutations_def)
qed

lemma translateIdx_example:
  "translateIdx 25 [\<lparr>seg_offset = 10, seg_length = 20\<rparr>, \<lparr>seg_offset = 50, seg_length = 10\<rparr>] = Some 55"
  by (simp add: translateIdx_def)

end
