(* ===== verification/ProgTypes.thy ===== *)
theory ProgTypes
  imports Prelude
begin

text \<open>
  The type descriptions of \<^verbatim>\<open>prog/types.go\<close>. The Go types embed \<^verbatim>\<open>TypeCommon\<close> and \<^verbatim>\<open>IntTypeCommon\<close>;
  here these are records, the second extending the first. A type that mentions other types holds
  their \<^verbatim>\<open>Ref\<close>, the index into the global table \<^verbatim>\<open>typeRefs\<close> through which the program's arguments
  reach their types, so recursive types are finite tables. A method that panics returns None.
\<close>

unbundle bit_operations_syntax

type_synonym Ref = nat

datatype Dir = DirIn | DirOut | DirInOut

definition Dir_String :: "Dir \<Rightarrow> string" where
  "Dir_String dir = (case dir of DirIn \<Rightarrow> ''in'' | DirOut \<Rightarrow> ''out'' | DirInOut \<Rightarrow> ''inout'')"

record Field =
  fld_Name :: string
  fld_Type :: Ref
  fld_HasDirection :: bool
  fld_Direction :: Dir

definition Field_Dir :: "Field \<Rightarrow> Dir \<Rightarrow> Dir" where
  "Field_Dir f def = (if fld_HasDirection f then fld_Direction f else def)"

datatype BinaryFormat =
  FormatNative | FormatBigEndian | FormatStrDec | FormatStrHex | FormatStrOct

record TypeCommon =
  TypeName :: string
  TypeSize :: uint64
  TypeAlign :: uint64
  IsOptional :: bool
  IsVarlen :: bool

record IntTypeCommon = TypeCommon +
  ArgFormat :: BinaryFormat
  BitfieldOff :: uint64
  BitfieldLen :: uint64
  BitfieldUnit :: uint64
  BitfieldUnitOff :: uint64

record ResourceCtor =
  rc_Call :: nat
  rc_Precise :: bool

record ResourceDesc =
  rd_Name :: string
  rd_Kind :: "string list"
  rd_Values :: "uint64 list"
  rd_Ctors :: "ResourceCtor list"

datatype IntKind = IntPlain | IntRange
datatype CsumKind = CsumInet | CsumPseudo
datatype BufferKind =
  BufferBlobRand | BufferBlobRange | BufferString | BufferFilename | BufferText | BufferGlob |
  BufferCompressed
datatype TextKind =
  TextTarget | TextX86Real | TextX86bit16 | TextX86bit32 | TextX86bit64 | TextArm64 | TextPpc64
datatype ArrayKind = ArrayRandLen | ArrayRangeLen

datatype Type =
    ResourceType TypeCommon (ResourceFormat: BinaryFormat) (Desc: ResourceDesc)
  | ConstType IntTypeCommon (ConstVal: uint64) (ConstIsPad: bool)
  | IntType IntTypeCommon IntKind (IntRangeBegin: uint64) (IntRangeEnd: uint64) (IntAlign: uint64)
  | FlagsType IntTypeCommon (FlagsVals: "uint64 list") (FlagsBitMask: bool)
  | LenType IntTypeCommon (LenBitSize: uint64) (LenOffset: bool) (LenPath: "string list")
  | ProcType IntTypeCommon (ValuesStart: uint64) (ValuesPerProc: uint64)
  | CsumType IntTypeCommon CsumKind (CsumBuf: string) (CsumProtocol: uint64)
  | VmaType TypeCommon (VmaRangeBegin: uint64) (VmaRangeEnd: uint64)
  | BufferType TypeCommon BufferKind (BufRangeBegin: uint64) (BufRangeEnd: uint64) TextKind
      (BufSubKind: string) (BufValues: "byte list list") (BufNoZ: bool)
  | ArrayType TypeCommon (ArrayElem: Ref) ArrayKind (ArrRangeBegin: uint64) (ArrRangeEnd: uint64)
  | PtrType TypeCommon (PtrElem: Ref) (PtrElemDir: Dir)
  | StructType TypeCommon (StructFields: "Field list") (AlignAttr: uint64) (OverlayField: nat)
  | UnionType TypeCommon (UnionFields: "Field list")

fun intCommon :: "Type \<Rightarrow> IntTypeCommon option" where
  "intCommon (ConstType c _ _) = Some c"
| "intCommon (IntType c _ _ _ _) = Some c"
| "intCommon (FlagsType c _ _) = Some c"
| "intCommon (LenType c _ _ _) = Some c"
| "intCommon (ProcType c _ _) = Some c"
| "intCommon (CsumType c _ _ _) = Some c"
| "intCommon _ = None"

fun common :: "Type \<Rightarrow> TypeCommon" where
  "common (ResourceType c _ _) = c"
| "common (VmaType c _ _) = c"
| "common (BufferType c _ _ _ _ _ _ _) = c"
| "common (ArrayType c _ _ _ _) = c"
| "common (PtrType c _ _) = c"
| "common (StructType c _ _ _) = c"
| "common (UnionType c _) = c"
| "common (ConstType c _ _) = TypeCommon.truncate c"
| "common (IntType c _ _ _ _) = TypeCommon.truncate c"
| "common (FlagsType c _ _) = TypeCommon.truncate c"
| "common (LenType c _ _ _) = TypeCommon.truncate c"
| "common (ProcType c _ _) = TypeCommon.truncate c"
| "common (CsumType c _ _ _) = TypeCommon.truncate c"

definition Name :: "Type \<Rightarrow> string" where
  "Name t = TypeName (common t)"

definition TemplateName :: "Type \<Rightarrow> string" where
  "TemplateName t = takeWhile (\<lambda>c. c \<noteq> CHR ''['') (TypeName (common t))"

definition Optional :: "Type \<Rightarrow> bool" where
  "Optional t = IsOptional (common t)"

definition Varlen :: "Type \<Rightarrow> bool" where
  "Varlen t = IsVarlen (common t)"

definition Size :: "Type \<Rightarrow> uint64 option" where
  "Size t = (if IsVarlen (common t) then None else Some (TypeSize (common t)))"

definition Alignment :: "Type \<Rightarrow> uint64" where
  "Alignment t = TypeAlign (common t)"

definition Format :: "Type \<Rightarrow> BinaryFormat" where
  "Format t =
     (case t of
        ResourceType c f d \<Rightarrow> f
      | _ \<Rightarrow> (case intCommon t of Some c \<Rightarrow> ArgFormat c | None \<Rightarrow> FormatNative))"

definition TypeBitSize :: "Type \<Rightarrow> uint64 option" where
  "TypeBitSize t =
     (case intCommon t of
        None \<Rightarrow> None
      | Some c \<Rightarrow>
          Some (if ArgFormat c \<noteq> FormatNative \<and> ArgFormat c \<noteq> FormatBigEndian then 64
                else if BitfieldLen c \<noteq> 0 then BitfieldLen c
                else TypeSize c * 8))"

definition BitfieldOffset :: "Type \<Rightarrow> uint64" where
  "BitfieldOffset t = (case intCommon t of Some c \<Rightarrow> BitfieldOff c | None \<Rightarrow> 0)"

definition BitfieldLength :: "Type \<Rightarrow> uint64" where
  "BitfieldLength t = (case intCommon t of Some c \<Rightarrow> BitfieldLen c | None \<Rightarrow> 0)"

definition UnitSize :: "Type \<Rightarrow> uint64 option" where
  "UnitSize t =
     (case intCommon t of
        Some c \<Rightarrow> if BitfieldLen c \<noteq> 0 then Some (BitfieldUnit c) else Size t
      | None \<Rightarrow> Size t)"

definition UnitOffset :: "Type \<Rightarrow> uint64" where
  "UnitOffset t = (case intCommon t of Some c \<Rightarrow> BitfieldUnitOff c | None \<Rightarrow> 0)"

definition IsBitfield :: "Type \<Rightarrow> bool" where
  "IsBitfield t = (case intCommon t of Some c \<Rightarrow> BitfieldLen c \<noteq> 0 | None \<Rightarrow> False)"

definition IsPad :: "Type \<Rightarrow> bool" where
  "IsPad t = (case t of ConstType c v pad \<Rightarrow> pad | _ \<Rightarrow> False)"

definition ResourceDefault :: "ResourceDesc \<Rightarrow> uint64 option" where
  "ResourceDefault d = (case rd_Values d of [] \<Rightarrow> None | v # _ \<Rightarrow> Some v)"

definition SpecialValues :: "ResourceDesc \<Rightarrow> uint64 list" where
  "SpecialValues d = rd_Values d"

definition IsCompressed :: "BufferKind \<Rightarrow> bool" where
  "IsCompressed k = (k = BufferCompressed)"

definition isReadableDataType :: "BufferKind \<Rightarrow> bool" where
  "isReadableDataType k = (k = BufferString \<or> k = BufferFilename \<or> k = BufferGlob)"

definition procDefaultValue :: uint64 where "procDefaultValue = 0xffffffffffffffff"
definition MaxPids :: nat where "MaxPids = 32"
definition MaxArgs :: nat where "MaxArgs = 9"

record SyscallAttrs =
  sa_Disabled :: bool
  sa_Timeout :: uint64
  sa_ProgTimeout :: uint64
  sa_IgnoreReturn :: bool
  sa_BreaksReturns :: bool
  sa_NoGenerate :: bool
  sa_NoMinimize :: bool

record Syscall =
  sys_ID :: nat
  sys_NR :: uint64
  sys_Name :: string
  sys_CallName :: string
  sys_MissingArgs :: nat
  sys_Args :: "Field list"
  sys_Ret :: "Ref option"
  sys_Attrs :: SyscallAttrs

definition isUpper :: "char \<Rightarrow> bool" where
  "isUpper c = (65 \<le> (of_char c :: nat) \<and> (of_char c :: nat) \<le> 90)"

definition toLower :: "char \<Rightarrow> char" where
  "toLower c = (if isUpper c then char_of (of_char c + 32 :: nat) else c)"

text \<open>
  The loop of \<^verbatim>\<open>CppName\<close>, with the previous character; the names it is applied to are ASCII
  identifiers.
\<close>

fun CppNameLoop :: "char option \<Rightarrow> string \<Rightarrow> string" where
  "CppNameLoop prev [] = []"
| "CppNameLoop prev (c # cs) =
     (if isUpper c \<and> (case prev of None \<Rightarrow> False | Some p \<Rightarrow> \<not> isUpper p) then ''_'' else []) @
     [toLower c] @ CppNameLoop (Some c) cs"

definition CppName :: "string \<Rightarrow> string" where
  "CppName name = CppNameLoop None name"

end
