(* ===== verification/ProgArgs.thy ===== *)
theory ProgArgs
  imports ProgTypes
begin

text \<open>
  Programs, calls and arguments: \<^verbatim>\<open>prog/prog.go\<close>, the argument methods of \<^verbatim>\<open>prog/types.go\<close>, and the
  traversal of \<^verbatim>\<open>prog/analysis.go\<close>.

  The arguments of a call form a tree; only result arguments are referred to from elsewhere (by
  \<^verbatim>\<open>Res\<close> and \<^verbatim>\<open>uses\<close>). So a tree node \<open>ResultArg p\<close> is a pointer into a heap of result objects, and
  the other arguments are values with the identity (\<open>arg_id\<close>) under which the program keys its maps.
  The type of an argument is looked up in the table \<open>tt\<close> by its reference, as the method \<^verbatim>\<open>Type\<close> does.
\<close>

record ArgCommon =
  arg_id :: nat
  arg_ref :: Ref
  arg_dir :: Dir

record ResultObj =
  ro_ref :: Ref
  ro_dir :: Dir
  ro_Res :: "nat option"
  ro_OpDiv :: uint64
  ro_OpAdd :: uint64
  ro_Val :: uint64
  ro_uses :: "nat set"

type_synonym heap = "nat \<rightharpoonup> ResultObj"

datatype Arg =
    ConstArg ArgCommon (ConstArgVal: uint64)
  | PointerArg ArgCommon (Address: uint64) (VmaSize: uint64) (PointerRes: "Arg option")
  | DataArg ArgCommon (data: "byte list") (outSize: uint64)
  | GroupArg ArgCommon (Inner: "Arg list")
  | UnionArg ArgCommon (UnionOption: Arg) (UnionIndex: nat)
  | ResultArg nat

record CallProps =
  cp_FailNth :: int
  cp_Async :: bool
  cp_Rerun :: int

record Call =
  call_Meta :: Syscall
  call_Args :: "Arg list"
  call_Ret :: "nat option"
  call_Props :: CallProps
  call_Comment :: string

record Target =
  tgt_Syscalls :: "Syscall list"
  tgt_SpecialPointers :: "uint64 list"
  tgt_DataOffset :: uint64

definition typeAt :: "Type list \<Rightarrow> Ref \<Rightarrow> Type option" where
  "typeAt tt r = (if r = 0 \<or> length tt \<le> r then None else Some (tt ! r))"

fun argRef :: "heap \<Rightarrow> Arg \<Rightarrow> Ref option" where
  "argRef h (ResultArg p) = map_option ro_ref (h p)"
| "argRef h (ConstArg c _) = Some (arg_ref c)"
| "argRef h (PointerArg c _ _ _) = Some (arg_ref c)"
| "argRef h (DataArg c _ _) = Some (arg_ref c)"
| "argRef h (GroupArg c _) = Some (arg_ref c)"
| "argRef h (UnionArg c _ _) = Some (arg_ref c)"

fun argDir :: "heap \<Rightarrow> Arg \<Rightarrow> Dir option" where
  "argDir h (ResultArg p) = map_option ro_dir (h p)"
| "argDir h (ConstArg c _) = Some (arg_dir c)"
| "argDir h (PointerArg c _ _ _) = Some (arg_dir c)"
| "argDir h (DataArg c _ _) = Some (arg_dir c)"
| "argDir h (GroupArg c _) = Some (arg_dir c)"
| "argDir h (UnionArg c _ _) = Some (arg_dir c)"

definition argType :: "Type list \<Rightarrow> heap \<Rightarrow> Arg \<Rightarrow> Type option" where
  "argType tt h a = Option.bind (argRef h a) (typeAt tt)"

subsection \<open>Constructors\<close>

definition maxSpecialPointers :: uint64 where "maxSpecialPointers = 16"

text \<open>The identity of a new argument is passed in; \<^verbatim>\<open>t.ref()\<close> panics on an unassigned reference.\<close>

definition mkCommon :: "nat \<Rightarrow> Ref \<Rightarrow> Dir \<Rightarrow> ArgCommon option" where
  "mkCommon i r dir = (if r = 0 then None else Some \<lparr>arg_id = i, arg_ref = r, arg_dir = dir\<rparr>)"

definition MakeConstArg :: "nat \<Rightarrow> Ref \<Rightarrow> Dir \<Rightarrow> uint64 \<Rightarrow> Arg option" where
  "MakeConstArg i r dir v = map_option (\<lambda>c. ConstArg c v) (mkCommon i r dir)"

definition MakePointerArg :: "nat \<Rightarrow> Ref \<Rightarrow> Dir \<Rightarrow> uint64 \<Rightarrow> Arg option \<Rightarrow> Arg option" where
  "MakePointerArg i r dir addr dat =
     (if dat = None then None
      else map_option (\<lambda>c. PointerArg c addr 0 dat) (mkCommon i r DirIn))"

definition MakeVmaPointerArg :: "nat \<Rightarrow> Ref \<Rightarrow> Dir \<Rightarrow> uint64 \<Rightarrow> uint64 \<Rightarrow> Arg option" where
  "MakeVmaPointerArg i r dir addr sz =
     (if addr mod 1024 \<noteq> 0 then None
      else map_option (\<lambda>c. PointerArg c addr sz None) (mkCommon i r dir))"

definition MakeSpecialPointerArg ::
  "Type list \<Rightarrow> nat \<Rightarrow> Ref \<Rightarrow> Dir \<Rightarrow> uint64 \<Rightarrow> Arg option" where
  "MakeSpecialPointerArg tt i r dir index =
     (if index \<ge> maxSpecialPointers then None
      else do {
        t \<leftarrow> typeAt tt r;
        let dir = (case t of PtrType _ _ _ \<Rightarrow> DirIn | _ \<Rightarrow> dir);
        map_option (\<lambda>c. PointerArg c (- index) 0 None) (mkCommon i r dir)
      })"

definition MakeDataArg :: "nat \<Rightarrow> Ref \<Rightarrow> Dir \<Rightarrow> byte list \<Rightarrow> Arg option" where
  "MakeDataArg i r dir d =
     (if dir = DirOut then None else map_option (\<lambda>c. DataArg c d 0) (mkCommon i r dir))"

definition MakeOutDataArg :: "nat \<Rightarrow> Ref \<Rightarrow> Dir \<Rightarrow> uint64 \<Rightarrow> Arg option" where
  "MakeOutDataArg i r dir sz =
     (if dir \<noteq> DirOut then None else map_option (\<lambda>c. DataArg c [] sz) (mkCommon i r dir))"

definition MakeGroupArg :: "nat \<Rightarrow> Ref \<Rightarrow> Dir \<Rightarrow> Arg list \<Rightarrow> Arg option" where
  "MakeGroupArg i r dir inner = map_option (\<lambda>c. GroupArg c inner) (mkCommon i r dir)"

definition MakeUnionArg :: "nat \<Rightarrow> Ref \<Rightarrow> Dir \<Rightarrow> Arg \<Rightarrow> nat \<Rightarrow> Arg option" where
  "MakeUnionArg i r dir opt index = map_option (\<lambda>c. UnionArg c opt index) (mkCommon i r dir)"

text \<open>\<open>p\<close> is the address of the new object; the object it refers to records the use.\<close>

definition MakeResultArg ::
  "nat \<Rightarrow> Ref \<Rightarrow> Dir \<Rightarrow> nat option \<Rightarrow> uint64 \<Rightarrow> heap \<Rightarrow> heap option" where
  "MakeResultArg p t dir r v h =
     (if t = 0 then None
      else
        let obj = \<lparr>ro_ref = t, ro_dir = dir, ro_Res = r, ro_OpDiv = 0, ro_OpAdd = 0, ro_Val = v,
                   ro_uses = {}\<rparr>;
            h = h(p \<mapsto> obj)
        in case r of
             None \<Rightarrow> Some h
           | Some q \<Rightarrow> do {
               o_q \<leftarrow> h q;
               Some (h(q \<mapsto> o_q\<lparr>ro_uses := insert p (ro_uses o_q)\<rparr>))
             })"

definition MakeReturnArg :: "nat \<Rightarrow> Ref option \<Rightarrow> heap \<Rightarrow> (nat option \<times> heap) option" where
  "MakeReturnArg p t h =
     (case t of
        None \<Rightarrow> Some (None, h)
      | Some r \<Rightarrow> do {
          h \<leftarrow> MakeResultArg p r DirOut None 0 h;
          Some (Some p, h)
        })"

definition MakeCall :: "nat \<Rightarrow> Syscall \<Rightarrow> Arg list \<Rightarrow> heap \<Rightarrow> (Call \<times> heap) option" where
  "MakeCall p meta args h = do {
     (ret, h) \<leftarrow> MakeReturnArg p (sys_Ret meta) h;
     Some (\<lparr>call_Meta = meta, call_Args = args, call_Ret = ret,
            call_Props = \<lparr>cp_FailNth = 0, cp_Async = False, cp_Rerun = 0\<rparr>, call_Comment = []\<rparr>, h)
   }"

subsection \<open>Methods of arguments\<close>

fun argIsSpecial :: "Arg \<Rightarrow> bool" where
  "argIsSpecial (PointerArg c addr vma res) = (vma = 0 \<and> res = None \<and> - addr < maxSpecialPointers)"
| "argIsSpecial _ = False"

definition PhysicalAddr :: "Target \<Rightarrow> Arg \<Rightarrow> uint64 option" where
  "PhysicalAddr target arg =
     (if argIsSpecial arg then
        (if unat (- Address arg) < length (tgt_SpecialPointers target)
         then Some (tgt_SpecialPointers target ! unat (- Address arg)) else None)
      else Some (tgt_DataOffset target + Address arg))"

definition ConstArg_Value :: "Type \<Rightarrow> uint64 \<Rightarrow> (uint64 \<times> uint64) option" where
  "ConstArg_Value t v =
     (case t of
        IntType _ _ _ _ _ \<Rightarrow> Some (v, 0)
      | ConstType _ _ _ \<Rightarrow> Some (v, 0)
      | FlagsType _ _ _ \<Rightarrow> Some (v, 0)
      | LenType _ _ _ _ \<Rightarrow> Some (v, 0)
      | ResourceType _ _ _ \<Rightarrow> Some (v, 0)
      | CsumType _ _ _ _ \<Rightarrow> Some (0, 0)
      | ProcType c start per \<Rightarrow> if v = procDefaultValue then Some (0, 0) else Some (start + v, per)
      | _ \<Rightarrow> None)"

text \<open>
  The size of a struct of variable length: the loop over the fields with the running offset, which
  restarts at the overlay field, and the dynamic alignment at the end of either part.
\<close>

fun structSizeLoop ::
  "uint64 \<Rightarrow> nat \<Rightarrow> nat \<Rightarrow> nat \<Rightarrow> uint64 list \<Rightarrow> uint64 \<Rightarrow> uint64 \<Rightarrow> uint64" where
  "structSizeLoop align overlay n i [] sz off = sz"
| "structSizeLoop align overlay n i (fs # szs) sz off =
     (let off = (if i = overlay then 0 else off) + fs;
          off = (if (i + 1 = n \<or> i + 1 = overlay) \<and> align \<noteq> 0 \<and> off mod align \<noteq> 0
                 then off + (align - off mod align) else off)
      in structSizeLoop align overlay n (Suc i) szs (if sz < off then off else sz) off)"

fun argSize :: "Type list \<Rightarrow> heap \<Rightarrow> Arg \<Rightarrow> uint64 option"
  and argSizes :: "Type list \<Rightarrow> heap \<Rightarrow> Arg list \<Rightarrow> uint64 list option"
where
  "argSize tt h (ConstArg c v) = Option.bind (typeAt tt (arg_ref c)) Size"
| "argSize tt h (PointerArg c addr vma res) = Option.bind (typeAt tt (arg_ref c)) Size"
| "argSize tt h (DataArg c d sz) = Some (if d \<noteq> [] then of_nat (length d) else sz)"
| "argSize tt h (GroupArg c inner) = do {
     t \<leftarrow> typeAt tt (arg_ref c);
     if \<not> Varlen t then Size t
     else do {
       szs \<leftarrow> argSizes tt h inner;
       case t of
         StructType _ _ align overlay \<Rightarrow> Some (structSizeLoop align overlay (length inner) 0 szs 0 0)
       | ArrayType _ _ _ _ _ \<Rightarrow> Some (sum_list szs)
       | _ \<Rightarrow> None
     }
   }"
| "argSize tt h (UnionArg c opt i) = do {
     t \<leftarrow> typeAt tt (arg_ref c);
     if \<not> Varlen t then Size t else argSize tt h opt
   }"
| "argSize tt h (ResultArg p) = Option.bind (argRef h (ResultArg p)) (\<lambda>r. Option.bind (typeAt tt r) Size)"
| "argSizes tt h [] = Some []"
| "argSizes tt h (a # as) = do { s \<leftarrow> argSize tt h a; ss \<leftarrow> argSizes tt h as; Some (s # ss) }"

definition DataArg_Data :: "Arg \<Rightarrow> byte list option" where
  "DataArg_Data a =
     (case a of DataArg c d sz \<Rightarrow> if arg_dir c = DirOut then None else Some d | _ \<Rightarrow> None)"

definition DataArg_SetData :: "Arg \<Rightarrow> byte list \<Rightarrow> Arg option" where
  "DataArg_SetData a d' =
     (case a of DataArg c d sz \<Rightarrow> if arg_dir c = DirOut then None else Some (DataArg c d' sz) | _ \<Rightarrow> None)"

definition fixedInnerSize :: "Type \<Rightarrow> bool option" where
  "fixedInnerSize t =
     (case t of
        StructType _ _ _ _ \<Rightarrow> Some True
      | ArrayType _ _ k b e \<Rightarrow> Some (k = ArrayRangeLen \<and> b = e)
      | _ \<Rightarrow> None)"

fun InnerArg :: "Type list \<Rightarrow> heap \<Rightarrow> Arg \<Rightarrow> Arg option option" where
  "InnerArg tt h (PointerArg c addr vma res) = do {
     t \<leftarrow> typeAt tt (arg_ref c);
     case t of
       PtrType _ _ _ \<Rightarrow> (case res of None \<Rightarrow> Some None | Some r \<Rightarrow> InnerArg tt h r)
     | _ \<Rightarrow> Some (Some (PointerArg c addr vma res))
   }"
| "InnerArg tt h a = do {
     t \<leftarrow> argType tt h a;
     case t of PtrType _ _ _ \<Rightarrow> None | _ \<Rightarrow> Some (Some a)
   }"

subsection \<open>Default arguments\<close>

definition isDefaultBuffer :: "Type \<Rightarrow> byte list list \<Rightarrow> Arg \<Rightarrow> uint64 \<Rightarrow> bool option" where
  "isDefaultBuffer t values a asz = do {
     sz \<leftarrow> (if \<not> Varlen t then Size t else Some 0);
     if asz \<noteq> sz then Some False
     else case a of
       DataArg c d n \<Rightarrow>
         if arg_dir c = DirOut then Some True
         else if length values = 1 then Some (d = values ! 0)
         else Some (list_all (\<lambda>v. v = 0) d)
     | _ \<Rightarrow> None
   }"

fun isDefault :: "Type list \<Rightarrow> heap \<Rightarrow> Arg \<Rightarrow> bool option"
  and allDefault :: "Type list \<Rightarrow> heap \<Rightarrow> Arg list \<Rightarrow> bool option"
where
  "isDefault tt h (ConstArg c v) = do {
     t \<leftarrow> typeAt tt (arg_ref c);
     case t of
       ConstType _ cv _ \<Rightarrow> Some (v = cv)
     | IntType _ _ _ _ _ \<Rightarrow> Some (v = 0)
     | FlagsType _ _ _ \<Rightarrow> Some (v = 0)
     | LenType _ _ _ _ \<Rightarrow> Some (v = 0)
     | ProcType _ _ _ \<Rightarrow> Some (v = procDefaultValue)
     | CsumType _ _ _ _ \<Rightarrow> Some (v = 0)
     | _ \<Rightarrow> None
   }"
| "isDefault tt h (PointerArg c addr vma res) = do {
     t \<leftarrow> typeAt tt (arg_ref c);
     case t of
       VmaType _ _ _ \<Rightarrow> Some (argIsSpecial (PointerArg c addr vma res) \<and> addr = 0)
     | PtrType _ _ _ \<Rightarrow>
         if Optional t then Some (argIsSpecial (PointerArg c addr vma res) \<and> addr = 0)
         else if addr = 0 then (case res of None \<Rightarrow> Some False | Some r \<Rightarrow> isDefault tt h r)
         else Some False
     | _ \<Rightarrow> None
   }"
| "isDefault tt h (DataArg c d sz) = do {
     t \<leftarrow> typeAt tt (arg_ref c);
     case t of
       BufferType _ _ _ _ _ _ values _ \<Rightarrow>
         isDefaultBuffer t values (DataArg c d sz) (if d \<noteq> [] then of_nat (length d) else sz)
     | _ \<Rightarrow> None
   }"
| "isDefault tt h (GroupArg c inner) = do {
     t \<leftarrow> typeAt tt (arg_ref c);
     case t of
       ArrayType _ _ k b e \<Rightarrow>
         if \<not> (k = ArrayRangeLen \<and> b = e) \<and> inner \<noteq> [] then Some False else allDefault tt h inner
     | StructType _ _ _ _ \<Rightarrow> allDefault tt h inner
     | _ \<Rightarrow> None
   }"
| "isDefault tt h (UnionArg c opt i) = do {
     t \<leftarrow> typeAt tt (arg_ref c);
     case t of UnionType _ _ \<Rightarrow> (if i = 0 then isDefault tt h opt else Some False) | _ \<Rightarrow> None
   }"
| "isDefault tt h (ResultArg p) = do {
     ob \<leftarrow> h p;
     t \<leftarrow> typeAt tt (ro_ref ob);
     case t of
       ResourceType _ _ d \<Rightarrow>
         if ro_Res ob = None \<and> ro_OpDiv ob = 0 \<and> ro_OpAdd ob = 0 \<and> ro_uses ob = {}
         then map_option (\<lambda>v. ro_Val ob = v) (ResourceDefault d) else Some False
     | _ \<Rightarrow> None
   }"
| "allDefault tt h [] = Some True"
| "allDefault tt h (a # as) = do {
     b \<leftarrow> isDefault tt h a;
     if b then allDefault tt h as else Some False
   }"

end
