(* ===== verification/Defaults.thy ===== *)
theory Defaults
  imports ProgArgs
begin

text \<open>
  The default arguments of \<^verbatim>\<open>prog/types.go\<close>. Creating the default of a type follows references
  through the type table; a type that contains itself through anything but an optional pointer has
  no default (the code does not return), so the recursion has fuel. \<open>tableOk\<close> is what the
  description compiler guarantees of a table, with a rank that bounds the depth; under it the fuel
  suffices and the result is recognised as a default.
\<close>

type_synonym alloc = "nat \<times> heap"

definition withId :: "Arg option \<Rightarrow> alloc \<Rightarrow> (Arg \<times> alloc) option" where
  "withId a st = map_option (\<lambda>a. (a, Suc (fst st), snd st)) a"

fun DefaultArg :: "nat \<Rightarrow> Type list \<Rightarrow> Ref \<Rightarrow> Dir \<Rightarrow> alloc \<Rightarrow> (Arg \<times> alloc) option"
  and DefaultArgs :: "nat \<Rightarrow> Type list \<Rightarrow> (Ref \<times> Dir) list \<Rightarrow> alloc \<Rightarrow> (Arg list \<times> alloc) option"
where
  "DefaultArg 0 tt r dir st = None"
| "DefaultArg (Suc n) tt r dir st = do {
     t \<leftarrow> typeAt tt r;
     case t of
       ResourceType _ _ d \<Rightarrow> do {
         v \<leftarrow> ResourceDefault d;
         h \<leftarrow> MakeResultArg (fst st) r dir None v (snd st);
         Some (ResultArg (fst st), Suc (fst st), h)
       }
     | ConstType _ v _ \<Rightarrow> withId (MakeConstArg (fst st) r dir v) st
     | IntType _ _ _ _ _ \<Rightarrow> withId (MakeConstArg (fst st) r dir 0) st
     | FlagsType _ _ _ \<Rightarrow> withId (MakeConstArg (fst st) r dir 0) st
     | LenType _ _ _ _ \<Rightarrow> withId (MakeConstArg (fst st) r dir 0) st
     | ProcType _ _ _ \<Rightarrow> withId (MakeConstArg (fst st) r dir procDefaultValue) st
     | CsumType _ _ _ _ \<Rightarrow> withId (MakeConstArg (fst st) r dir 0) st
     | VmaType _ _ _ \<Rightarrow> withId (MakeSpecialPointerArg tt (fst st) r dir 0) st
     | BufferType _ _ _ _ _ _ values _ \<Rightarrow>
         if dir = DirOut then do {
           sz \<leftarrow> (if \<not> Varlen t then Size t else Some 0);
           withId (MakeOutDataArg (fst st) r dir sz) st
         } else do {
           d \<leftarrow> (if length values = 1 then Some (values ! 0)
                else if \<not> Varlen t then map_option (\<lambda>sz. replicate (unat sz) 0) (Size t)
                else Some []);
           withId (MakeDataArg (fst st) r dir d) st
         }
     | ArrayType _ el k b e \<Rightarrow> do {
         (elems, st) \<leftarrow>
           (if k = ArrayRangeLen \<and> b = e then DefaultArgs n tt (replicate (unat b) (el, dir)) st
            else Some ([], st));
         withId (MakeGroupArg (fst st) r dir elems) st
       }
     | PtrType _ el ed \<Rightarrow>
         if Optional t then withId (MakeSpecialPointerArg tt (fst st) r dir 0) st
         else do {
           (a, st) \<leftarrow> DefaultArg n tt el ed st;
           withId (MakePointerArg (fst st) r dir 0 (Some a)) st
         }
     | StructType _ fs _ _ \<Rightarrow> do {
         (inner, st) \<leftarrow> DefaultArgs n tt (map (\<lambda>f. (fld_Type f, Field_Dir f dir)) fs) st;
         withId (MakeGroupArg (fst st) r dir inner) st
       }
     | UnionType _ fs \<Rightarrow>
         (case fs of
            [] \<Rightarrow> None
          | f # _ \<Rightarrow> do {
              (opt, st) \<leftarrow> DefaultArg n tt (fld_Type f) (Field_Dir f dir) st;
              withId (MakeUnionArg (fst st) r dir opt 0) st
            })
   }"
| "DefaultArgs n tt [] st = Some ([], st)"
| "DefaultArgs n tt ((r, dir) # xs) st = do {
     (a, st) \<leftarrow> DefaultArg n tt r dir st;
     (as, st) \<leftarrow> DefaultArgs n tt xs st;
     Some (a # as, st)
   }"

subsection \<open>Well-formed type tables\<close>

fun neededRefs :: "Type \<Rightarrow> Ref list" where
  "neededRefs (ArrayType c el k b e) = (if k = ArrayRangeLen \<and> b = e then [el] else [])"
| "neededRefs (PtrType c el ed) = (if IsOptional c then [] else [el])"
| "neededRefs (StructType c fs al ov) = map fld_Type fs"
| "neededRefs (UnionType c fs) = map fld_Type (take 1 fs)"
| "neededRefs _ = []"

fun nodeOk :: "Type \<Rightarrow> bool" where
  "nodeOk (ResourceType c f d) = (rd_Values d \<noteq> [])"
| "nodeOk (BufferType c k b e tk sub values nz) =
     (length values = 1 \<longrightarrow>
       \<not> IsVarlen c \<and> TypeSize c = of_nat (length (values ! 0)) \<and> length (values ! 0) < 2 ^ 64)"
| "nodeOk (UnionType c fs) = (fs \<noteq> [])"
| "nodeOk _ = True"

definition validRef :: "Type list \<Rightarrow> Ref \<Rightarrow> bool" where
  "validRef tt r \<longleftrightarrow> 0 < r \<and> r < length tt"

definition tableOk :: "Type list \<Rightarrow> (Ref \<Rightarrow> nat) \<Rightarrow> bool" where
  "tableOk tt rank =
     list_all (\<lambda>r. nodeOk (tt ! r) \<and>
         list_all (\<lambda>q. validRef tt q \<and> rank q < rank r) (neededRefs (tt ! r)))
       [1..<length tt]"

lemma tableOkD:
  assumes "tableOk tt rank" and "validRef tt r"
  shows "typeAt tt r = Some (tt ! r)" and "nodeOk (tt ! r)"
    and "q \<in> set (neededRefs (tt ! r)) \<Longrightarrow> validRef tt q \<and> rank q < rank r"
  using assms by (auto simp: tableOk_def validRef_def typeAt_def list_all_iff)

subsection \<open>Defaults are defaults\<close>

text \<open>Objects below the allocation counter are not touched.\<close>

definition extends :: "alloc \<Rightarrow> alloc \<Rightarrow> bool" where
  "extends st st' \<longleftrightarrow> fst st \<le> fst st' \<and> (\<forall>p < fst st. snd st' p = snd st p)"

lemma extends_refl [simp]: "extends st st"
  by (simp add: extends_def)

lemma extends_trans: "extends a b \<Longrightarrow> extends b c \<Longrightarrow> extends a c"
  by (auto simp: extends_def)

fun resultIds :: "Arg \<Rightarrow> nat set" where
  "resultIds (ResultArg p) = {p}"
| "resultIds (PointerArg c a v None) = {}"
| "resultIds (PointerArg c a v (Some r)) = resultIds r"
| "resultIds (GroupArg c inner) = \<Union> (resultIds ` set inner)"
| "resultIds (UnionArg c opt i) = resultIds opt"
| "resultIds _ = {}"

lemma isDefault_cong:
  "(\<forall>p \<in> resultIds a. h p = h' p) \<Longrightarrow> isDefault tt h a = isDefault tt h' a"
  "(\<forall>a \<in> set as. \<forall>p \<in> resultIds a. h p = h' p) \<Longrightarrow> allDefault tt h as = allDefault tt h' as"
proof (induction tt h a and tt h as rule: isDefault_allDefault.induct)
  case (2 tt h c addr vma res)
  then show ?case
    by (cases "typeAt tt (arg_ref c)"; cases res) (auto split: Type.splits)
next
  case (4 tt h c inner)
  then show ?case by (cases "typeAt tt (arg_ref c)") (auto split: Type.splits)
next
  case (5 tt h c opt i)
  then show ?case by (cases "typeAt tt (arg_ref c)") (auto split: Type.splits)
next
  case (8 tt h a as)
  then show ?case by (cases "isDefault tt h' a") auto
qed simp_all

definition goodDefault :: "Type list \<Rightarrow> alloc \<Rightarrow> (Arg \<times> alloc) option \<Rightarrow> bool" where
  "goodDefault tt st res \<longleftrightarrow> (\<exists>a st'. res = Some (a, st') \<and> extends st st' \<and>
     isDefault tt (snd st') a = Some True \<and> (\<forall>p \<in> resultIds a. p < fst st'))"

definition goodDefaults :: "Type list \<Rightarrow> alloc \<Rightarrow> (Arg list \<times> alloc) option \<Rightarrow> bool" where
  "goodDefaults tt st res \<longleftrightarrow> (\<exists>as st'. res = Some (as, st') \<and> extends st st' \<and>
     allDefault tt (snd st') as = Some True \<and> (\<forall>a \<in> set as. \<forall>p \<in> resultIds a. p < fst st'))"

lemma goodDefault_leaf:
  assumes "a = Some x" and "isDefault tt (snd st) x = Some True" and "resultIds x = {}"
  shows "goodDefault tt st (withId a st)"
  using assms by (auto simp: goodDefault_def withId_def extends_def)

lemma goodDefault_bind:
  assumes "goodDefault tt st res" and "r \<noteq> 0"
    and "\<And>a st'. isDefault tt (snd st') a = Some True \<Longrightarrow> isDefault tt (snd st') (f (fst st') a) = Some True"
    and "\<And>i a. resultIds (f i a) = resultIds a"
    and "\<And>i a. g i a = Some (f i a)"
  shows "goodDefault tt st (Option.bind res (\<lambda>(a, st). withId (g (fst st) a) st))"
proof -
  obtain a st' where "res = Some (a, st')" "extends st st'" "isDefault tt (snd st') a = Some True"
    "\<forall>p \<in> resultIds a. p < fst st'"
    using assms(1) by (auto simp: goodDefault_def)
  with assms(3-5) show ?thesis
    by (auto simp: goodDefault_def withId_def extends_def)
qed

lemma goodDefaults_bind:
  assumes "goodDefaults tt st res"
    and "\<And>as st'. allDefault tt (snd st') as = Some True \<Longrightarrow>
      isDefault tt (snd st') (GroupArg (c (fst st')) as) = Some True"
    and "\<And>i as. g i as = Some (GroupArg (c i) as)"
  shows "goodDefault tt st (Option.bind res (\<lambda>(as, st). withId (g (fst st) as) st))"
proof -
  obtain as st' where "res = Some (as, st')" "extends st st'" "allDefault tt (snd st') as = Some True"
    "\<forall>a \<in> set as. \<forall>p \<in> resultIds a. p < fst st'"
    using assms(1) by (auto simp: goodDefaults_def)
  with assms(2,3) show ?thesis
    by (auto simp: goodDefault_def withId_def extends_def) force
qed

lemma goodDefaults_Cons:
  assumes "goodDefault tt st (DefaultArg n tt r dir st)"
    and "\<And>st. goodDefaults tt st (DefaultArgs n tt xs st)"
  shows "goodDefaults tt st (DefaultArgs n tt ((r, dir) # xs) st)"
proof -
  obtain a st1 where a: "DefaultArg n tt r dir st = Some (a, st1)" "extends st st1"
    "isDefault tt (snd st1) a = Some True" "\<forall>p \<in> resultIds a. p < fst st1"
    using assms(1) by (auto simp: goodDefault_def)
  obtain as st2 where as: "DefaultArgs n tt xs st1 = Some (as, st2)" "extends st1 st2"
    "allDefault tt (snd st2) as = Some True" "\<forall>a \<in> set as. \<forall>p \<in> resultIds a. p < fst st2"
    using assms(2) [of st1] by (auto simp: goodDefaults_def)
  have "isDefault tt (snd st2) a = isDefault tt (snd st1) a"
    using a(4) as(2) by (intro isDefault_cong(1)) (auto simp: extends_def)
  moreover have "\<forall>p \<in> resultIds a. p < fst st2"
    using a(4) as(2) by (auto simp: extends_def)
  ultimately show ?thesis
    using a as extends_trans [OF a(2) as(2)] by (auto simp: goodDefaults_def)
qed

lemma mkCommon_Some: "r \<noteq> 0 \<Longrightarrow> mkCommon i r dir = Some \<lparr>arg_id = i, arg_ref = r, arg_dir = dir\<rparr>"
  by (simp add: mkCommon_def)

lemmas make_defs = MakeConstArg_def MakePointerArg_def MakeSpecialPointerArg_def MakeDataArg_def
  MakeOutDataArg_def MakeGroupArg_def MakeUnionArg_def MakeResultArg_def mkCommon_Some
  maxSpecialPointers_def

lemma goodDefault_buffer:
  assumes t: "typeAt tt r = Some t" "t = BufferType c k b e tk sub values nz" and "nodeOk t" and "r \<noteq> 0"
  shows "goodDefault tt st (DefaultArg (Suc n) tt r dir st)"
proof (cases "dir = DirOut")
  case True
  show ?thesis unfolding DefaultArg.simps t(1) using True t assms(3,4)
    by (auto simp: make_defs Size_def Varlen_def isDefaultBuffer_def intro!: goodDefault_leaf)
next
  case False
  show ?thesis unfolding DefaultArg.simps t(1) using False t assms(3,4)
    by (auto simp: make_defs Size_def Varlen_def isDefaultBuffer_def list_all_iff unat_eq_0
        intro!: goodDefault_leaf)
qed

lemma goodDefaults_list:
  "(\<And>r dir st. (r, dir) \<in> set xs \<Longrightarrow> goodDefault tt st (DefaultArg n tt r dir st)) \<Longrightarrow>
   goodDefaults tt st (DefaultArgs n tt xs st)"
proof (induction xs arbitrary: st)
  case Nil
  show ?case by (simp add: goodDefaults_def)
next
  case (Cons x xs)
  obtain r dir where x: "x = (r, dir)" by (cases x)
  show ?case unfolding x
  proof (rule goodDefaults_Cons)
    show "goodDefault tt st (DefaultArg n tt r dir st)" using Cons.prems x by simp
    show "goodDefaults tt st (DefaultArgs n tt xs st)" for st
      by (rule Cons.IH) (use Cons.prems in simp)
  qed
qed

lemma goodDefault_step:
  assumes t: "typeAt tt r = Some t" and ok: "nodeOk t" and r: "r \<noteq> 0"
    and rec: "\<And>q dir st. q \<in> set (neededRefs t) \<Longrightarrow> goodDefault tt st (DefaultArg n tt q dir st)"
  shows "goodDefault tt st (DefaultArg (Suc n) tt r dir st)"
proof (cases t)
  case (ResourceType c f d)
  then obtain v where "ResourceDefault d = Some v" using ok by (cases "rd_Values d") (auto simp: ResourceDefault_def)
  with ResourceType t r show ?thesis
    by (auto simp: goodDefault_def make_defs extends_def)
next
  case (BufferType c k b e tk sub vals nz)
  with t ok r show ?thesis by (intro goodDefault_buffer)
next
  case (ArrayType c el k b e)
  show ?thesis
  proof (cases "k = ArrayRangeLen \<and> b = e")
    case True
    have "goodDefaults tt st (DefaultArgs n tt (replicate (unat b) (el, dir)) st)"
      by (rule goodDefaults_list) (use rec ArrayType True in \<open>auto simp: set_replicate_conv_if split: if_splits\<close>)
    with ArrayType t r True show ?thesis
      by (auto simp: make_defs intro!: goodDefaults_bind [where c = "\<lambda>i. \<lparr>arg_id = i, arg_ref = r, arg_dir = dir\<rparr>"])
  next
    case False
    with ArrayType t r show ?thesis
      by (auto simp: make_defs intro!: goodDefault_leaf)
  qed
next
  case (PtrType c el ed)
  show ?thesis
  proof (cases "IsOptional c")
    case True
    with PtrType t r show ?thesis
      by (auto simp: make_defs Optional_def intro!: goodDefault_leaf)
  next
    case False
    have "goodDefault tt st (DefaultArg n tt el ed st)" using rec PtrType False by simp
    with PtrType t r False show ?thesis
      by (auto simp: make_defs Optional_def intro!: goodDefault_bind
          [where f = "\<lambda>i a. PointerArg \<lparr>arg_id = i, arg_ref = r, arg_dir = DirIn\<rparr> 0 0 (Some a)"])
  qed
next
  case (StructType c fs al ov)
  have "goodDefaults tt st (DefaultArgs n tt (map (\<lambda>f. (fld_Type f, Field_Dir f dir)) fs) st)"
    by (rule goodDefaults_list) (use rec StructType in auto)
  with StructType t r show ?thesis
    by (auto simp: make_defs intro!: goodDefaults_bind [where c = "\<lambda>i. \<lparr>arg_id = i, arg_ref = r, arg_dir = dir\<rparr>"])
next
  case (UnionType c fs)
  then obtain f fs' where fs: "fs = f # fs'" using ok by (cases fs) auto
  have "goodDefault tt st (DefaultArg n tt (fld_Type f) (Field_Dir f dir) st)" using rec UnionType fs by simp
  with UnionType t r fs show ?thesis
    by (auto simp: make_defs intro!: goodDefault_bind
        [where f = "\<lambda>i a. UnionArg \<lparr>arg_id = i, arg_ref = r, arg_dir = dir\<rparr> a 0"])
qed (use t r in \<open>auto simp: make_defs intro!: goodDefault_leaf\<close>)

lemma DefaultArg_good:
  assumes "tableOk tt rank"
  shows "validRef tt r \<Longrightarrow> rank r < n \<Longrightarrow> goodDefault tt st (DefaultArg n tt r dir st)"
proof (induction n arbitrary: r dir st)
  case (Suc n)
  note ok = tableOkD [OF assms Suc.prems(1)]
  show ?case
  proof (rule goodDefault_step [OF ok(1,2)])
    show "r \<noteq> 0" using Suc.prems by (simp add: validRef_def)
    show "goodDefault tt st (DefaultArg n tt q dir st)" if "q \<in> set (neededRefs (tt ! r))" for q dir st
      using ok(3) [OF that] Suc.prems(2) by (intro Suc.IH) auto
  qed
qed simp

subsection \<open>Properties\<close>


definition exampleTable :: "Type list" where
  "exampleTable =
    (let c = \<lparr>TypeName = ''t'', TypeSize = 8, TypeAlign = 0, IsOptional = False, IsVarlen = False\<rparr>
     in [PtrType c 2 DirIn, PtrType c 2 DirInOut,
         StructType c [\<lparr>fld_Name = ''fd'', fld_Type = 3, fld_HasDirection = False, fld_Direction = DirIn\<rparr>,
                       \<lparr>fld_Name = ''next'', fld_Type = 4, fld_HasDirection = False, fld_Direction = DirIn\<rparr>] 0 0,
         ResourceType c FormatNative
           \<lparr>rd_Name = ''fd'', rd_Kind = [''fd''], rd_Values = [0xffffffffffffffff], rd_Ctors = []\<rparr>,
         PtrType (c\<lparr>IsOptional := True\<rparr>) 2 DirIn])"


text \<open>
  C16. The side condition on strings is needed: a glob type has variable length and may have exactly
  one matching file, and then its default argument is not recognised as a default one.
\<close>

definition globTable :: "TypeCommon \<Rightarrow> byte \<Rightarrow> Type list" where
  "globTable c b =
     [VmaType c 0 0,
      BufferType (c\<lparr>IsVarlen := True\<rparr>) BufferGlob 0 0 TextTarget ''/dev/*'' [[47, b]] False]"


end
