(* ===== verification/Foreach.thy ===== *)
theory Foreach
  imports ProgArgs
begin

text \<open>
  The traversal of the arguments of a call, \<^verbatim>\<open>ForeachArg\<close> of \<^verbatim>\<open>prog/analysis.go\<close>. The callback works on
  a state \<open>'s\<close>, may panic, and says whether the sub-arguments are to be skipped (\<^verbatim>\<open>ctx.Stop\<close>). The
  size of an argument is taken in the current state, since a callback may change arguments. The
  consistency check under the \<^verbatim>\<open>debug\<close> flag is not modelled.

  \<open>foreach_visits\<close> turns a traversal with a callback that never stops into a loop over the list of
  visited arguments with their contexts, which the other components reason about.
\<close>

record ArgCtx =
  ctx_Parent :: "Arg list option"
  ctx_Fields :: "Field list"
  ctx_Base :: "Arg option"
  ctx_Offset :: uint64

definition noCtx :: ArgCtx where
  "noCtx = \<lparr>ctx_Parent = None, ctx_Fields = [], ctx_Base = None, ctx_Offset = 0\<rparr>"

definition groupCtx :: "Type \<Rightarrow> Arg list \<Rightarrow> ArgCtx \<Rightarrow> ArgCtx" where
  "groupCtx t inner ctx =
     (case t of
        StructType _ fs _ _ \<Rightarrow> ctx\<lparr>ctx_Parent := Some inner, ctx_Fields := fs\<rparr>
      | _ \<Rightarrow> ctx)"

definition groupOverlay :: "Type \<Rightarrow> nat" where
  "groupOverlay t = (case t of StructType _ _ _ ov \<Rightarrow> ov | _ \<Rightarrow> 0)"

fun foreachArgImpl ::
    "Type list \<Rightarrow> ('s \<Rightarrow> Arg \<Rightarrow> uint64 option) \<Rightarrow> (Arg \<Rightarrow> ArgCtx \<Rightarrow> 's \<Rightarrow> ('s \<times> bool) option) \<Rightarrow>
     Arg \<Rightarrow> ArgCtx \<Rightarrow> 's \<Rightarrow> 's option"
  and foreachInner ::
    "Type list \<Rightarrow> ('s \<Rightarrow> Arg \<Rightarrow> uint64 option) \<Rightarrow> (Arg \<Rightarrow> ArgCtx \<Rightarrow> 's \<Rightarrow> ('s \<times> bool) option) \<Rightarrow>
     nat \<Rightarrow> nat \<Rightarrow> uint64 \<Rightarrow> Arg list \<Rightarrow> ArgCtx \<Rightarrow> 's \<Rightarrow> 's option"
where
  "foreachArgImpl tt sz f (GroupArg c inner) ctx s = do {
     (s, stop) \<leftarrow> f (GroupArg c inner) ctx s;
     if stop then Some s
     else do {
       t \<leftarrow> typeAt tt (arg_ref c);
       foreachInner tt sz f 0 (groupOverlay t) (ctx_Offset ctx) inner (groupCtx t inner ctx) s
     }
   }"
| "foreachArgImpl tt sz f (PointerArg c addr vma res) ctx s = do {
     (s, stop) \<leftarrow> f (PointerArg c addr vma res) ctx s;
     if stop then Some s
     else case res of
       None \<Rightarrow> Some s
     | Some a \<Rightarrow>
         foreachArgImpl tt sz f a
           (ctx\<lparr>ctx_Base := Some (PointerArg c addr vma res), ctx_Offset := 0\<rparr>) s
   }"
| "foreachArgImpl tt sz f (UnionArg c opt i) ctx s = do {
     (s, stop) \<leftarrow> f (UnionArg c opt i) ctx s;
     if stop then Some s else foreachArgImpl tt sz f opt ctx s
   }"
| "foreachArgImpl tt sz f a ctx s = do {
     (s, stop) \<leftarrow> f a ctx s;
     Some s
   }"
| "foreachInner tt sz f i overlay off0 [] ctx s = Some s"
| "foreachInner tt sz f i overlay off0 (a # as) ctx s = do {
     let ctx = (if i = overlay then ctx\<lparr>ctx_Offset := off0\<rparr> else ctx);
     s \<leftarrow> foreachArgImpl tt sz f a ctx s;
     n \<leftarrow> sz s a;
     foreachInner tt sz f (Suc i) overlay off0 as (ctx\<lparr>ctx_Offset := ctx_Offset ctx + n\<rparr>) s
   }"

definition ForeachSubArg ::
  "Type list \<Rightarrow> ('s \<Rightarrow> Arg \<Rightarrow> uint64 option) \<Rightarrow> (Arg \<Rightarrow> ArgCtx \<Rightarrow> 's \<Rightarrow> ('s \<times> bool) option) \<Rightarrow>
   Arg \<Rightarrow> 's \<Rightarrow> 's option" where
  "ForeachSubArg tt sz f arg s = foreachArgImpl tt sz f arg noCtx s"

fun foreachTop ::
  "Type list \<Rightarrow> ('s \<Rightarrow> Arg \<Rightarrow> uint64 option) \<Rightarrow> (Arg \<Rightarrow> ArgCtx \<Rightarrow> 's \<Rightarrow> ('s \<times> bool) option) \<Rightarrow>
   Arg list \<Rightarrow> ArgCtx \<Rightarrow> 's \<Rightarrow> 's option" where
  "foreachTop tt sz f [] ctx s = Some s"
| "foreachTop tt sz f (a # as) ctx s = do {
     s \<leftarrow> foreachArgImpl tt sz f a ctx s;
     foreachTop tt sz f as ctx s
   }"

definition ForeachArg ::
  "Type list \<Rightarrow> ('s \<Rightarrow> Arg \<Rightarrow> uint64 option) \<Rightarrow> (Arg \<Rightarrow> ArgCtx \<Rightarrow> 's \<Rightarrow> ('s \<times> bool) option) \<Rightarrow>
   Call \<Rightarrow> 's \<Rightarrow> 's option" where
  "ForeachArg tt sz f c s = do {
     s \<leftarrow> (case call_Ret c of None \<Rightarrow> Some s | Some p \<Rightarrow> foreachArgImpl tt sz f (ResultArg p) noCtx s);
     foreachTop tt sz f (call_Args c)
       (noCtx\<lparr>ctx_Parent := Some (call_Args c), ctx_Fields := sys_Args (call_Meta c)\<rparr>) s
   }"

subsection \<open>The visited arguments\<close>

text \<open>
  With a fixed size function and a callback that never stops, the visits do not depend on the state.
\<close>

fun visits :: "Type list \<Rightarrow> (Arg \<Rightarrow> uint64 option) \<Rightarrow> Arg \<Rightarrow> ArgCtx \<Rightarrow> (Arg \<times> ArgCtx) list option"
  and visitsInner ::
    "Type list \<Rightarrow> (Arg \<Rightarrow> uint64 option) \<Rightarrow> nat \<Rightarrow> nat \<Rightarrow> uint64 \<Rightarrow> Arg list \<Rightarrow> ArgCtx \<Rightarrow>
     (Arg \<times> ArgCtx) list option"
where
  "visits tt sz (GroupArg c inner) ctx = do {
     t \<leftarrow> typeAt tt (arg_ref c);
     vs \<leftarrow> visitsInner tt sz 0 (groupOverlay t) (ctx_Offset ctx) inner (groupCtx t inner ctx);
     Some ((GroupArg c inner, ctx) # vs)
   }"
| "visits tt sz (PointerArg c addr vma res) ctx =
     (case res of
        None \<Rightarrow> Some [(PointerArg c addr vma res, ctx)]
      | Some a \<Rightarrow> do {
          vs \<leftarrow> visits tt sz a (ctx\<lparr>ctx_Base := Some (PointerArg c addr vma res), ctx_Offset := 0\<rparr>);
          Some ((PointerArg c addr vma res, ctx) # vs)
        })"
| "visits tt sz (UnionArg c opt i) ctx = do {
     vs \<leftarrow> visits tt sz opt ctx;
     Some ((UnionArg c opt i, ctx) # vs)
   }"
| "visits tt sz a ctx = Some [(a, ctx)]"
| "visitsInner tt sz i overlay off0 [] ctx = Some []"
| "visitsInner tt sz i overlay off0 (a # as) ctx = do {
     let ctx = (if i = overlay then ctx\<lparr>ctx_Offset := off0\<rparr> else ctx);
     vs \<leftarrow> visits tt sz a ctx;
     n \<leftarrow> sz a;
     ws \<leftarrow> visitsInner tt sz (Suc i) overlay off0 as (ctx\<lparr>ctx_Offset := ctx_Offset ctx + n\<rparr>);
     Some (vs @ ws)
   }"

fun visitsTop :: "Type list \<Rightarrow> (Arg \<Rightarrow> uint64 option) \<Rightarrow> Arg list \<Rightarrow> ArgCtx \<Rightarrow> (Arg \<times> ArgCtx) list option"
where
  "visitsTop tt sz [] ctx = Some []"
| "visitsTop tt sz (a # as) ctx = do {
     vs \<leftarrow> visits tt sz a ctx;
     ws \<leftarrow> visitsTop tt sz as ctx;
     Some (vs @ ws)
   }"

definition callVisits :: "Type list \<Rightarrow> (Arg \<Rightarrow> uint64 option) \<Rightarrow> Call \<Rightarrow> (Arg \<times> ArgCtx) list option" where
  "callVisits tt sz c = do {
     ws \<leftarrow> visitsTop tt sz (call_Args c)
       (noCtx\<lparr>ctx_Parent := Some (call_Args c), ctx_Fields := sys_Args (call_Meta c)\<rparr>);
     Some ((case call_Ret c of None \<Rightarrow> [] | Some p \<Rightarrow> [(ResultArg p, noCtx)]) @ ws)
   }"

fun runVisits :: "(Arg \<Rightarrow> ArgCtx \<Rightarrow> 's \<Rightarrow> 's option) \<Rightarrow> (Arg \<times> ArgCtx) list \<Rightarrow> 's \<Rightarrow> 's option" where
  "runVisits g [] s = Some s"
| "runVisits g ((a, ctx) # vs) s = Option.bind (g a ctx s) (runVisits g vs)"

lemma runVisits_append:
  "runVisits g (vs @ ws) s = Option.bind (runVisits g vs s) (runVisits g ws)"
  by (induction g vs s rule: runVisits.induct) (auto split: bind_splits)

text \<open>A callback that never stops.\<close>

definition always :: "(Arg \<Rightarrow> ArgCtx \<Rightarrow> 's \<Rightarrow> 's option) \<Rightarrow> Arg \<Rightarrow> ArgCtx \<Rightarrow> 's \<Rightarrow> ('s \<times> bool) option" where
  "always g a ctx s = map_option (\<lambda>s. (s, False)) (g a ctx s)"

lemma always_bind [simp]:
  "Option.bind (always g a ctx s) (\<lambda>(s, stop). if stop then e s else k s) = Option.bind (g a ctx s) k"
  "Option.bind (always g a ctx s) (\<lambda>(s, stop). Some s) = g a ctx s"
  by (cases "g a ctx s"; simp add: always_def)+

lemma bind_None [simp]: "Option.bind x (\<lambda>_. None) = None"
  by (cases x) simp_all

lemma bind_runVisits_Nil [simp]: "Option.bind x (runVisits g []) = x"
  by (cases x) simp_all

lemma foreach_visits:
  "foreachArgImpl tt (\<lambda>_. sz) (always g) a ctx s =
     Option.bind (visits tt sz a ctx) (\<lambda>vs. runVisits g vs s)"
  "foreachInner tt (\<lambda>_. sz) (always g) i overlay off0 as ctx s =
     Option.bind (visitsInner tt sz i overlay off0 as ctx) (\<lambda>vs. runVisits g vs s)"
proof (induction tt sz a ctx and tt sz i overlay off0 as ctx arbitrary: s and s
    rule: visits_visitsInner.induct)
  case (1 tt sz c inner ctx)
  show ?case
  proof (cases "typeAt tt (arg_ref c)")
    case (Some t)
    then show ?thesis
      using 1 [OF Some]
      by (cases "visitsInner tt sz 0 (groupOverlay t) (ctx_Offset ctx) inner (groupCtx t inner ctx)")
        auto
  qed simp
next
  case (2 tt sz c addr vma res ctx)
  show ?case
  proof (cases res)
    case (Some a)
    then show ?thesis
      using "2.IH" [OF Some]
      by (cases "visits tt sz a (ctx\<lparr>ctx_Base := Some (PointerArg c addr vma res), ctx_Offset := 0\<rparr>)")
        auto
  qed auto
next
  case (3 tt sz c opt i ctx)
  then show ?case by (cases "visits tt sz opt ctx") auto
next
  case (6 tt sz i overlay off0 a as ctx)
  define ctx' where "ctx' = (if i = overlay then ctx\<lparr>ctx_Offset := off0\<rparr> else ctx)"
  have hd: "foreachArgImpl tt (\<lambda>_. sz) (always g) a ctx' s =
      Option.bind (visits tt sz a ctx') (\<lambda>vs. runVisits g vs s)"
    using "6.IH"(1) [OF ctx'_def] .
  show ?case
  proof (cases "visits tt sz a ctx' = None \<or> sz a = None")
    case True
    then show ?thesis using hd by (auto simp: ctx'_def [symmetric])
  next
    case False
    then obtain vs n where vs: "visits tt sz a ctx' = Some vs" and n: "sz a = Some n" by auto
    let ?ctx = "ctx'\<lparr>ctx_Offset := ctx_Offset ctx' + n\<rparr>"
    have "foreachInner tt (\<lambda>_. sz) (always g) (Suc i) overlay off0 as ?ctx =
        (\<lambda>s. Option.bind (visitsInner tt sz (Suc i) overlay off0 as ?ctx) (\<lambda>vs. runVisits g vs s))"
      by (rule ext) (rule "6.IH"(2) [OF ctx'_def vs n])
    then show ?thesis
      using hd vs n
      by (cases "visitsInner tt sz (Suc i) overlay off0 as ?ctx")
        (simp_all add: ctx'_def [symmetric] runVisits_append)
  qed
qed auto

lemma foreachTop_visits:
  "foreachTop tt (\<lambda>_. sz) (always g) as ctx s =
     Option.bind (visitsTop tt sz as ctx) (\<lambda>vs. runVisits g vs s)"
proof (induction as arbitrary: s)
  case (Cons a as)
  have "foreachTop tt (\<lambda>_. sz) (always g) as ctx =
      (\<lambda>s. Option.bind (visitsTop tt sz as ctx) (\<lambda>vs. runVisits g vs s))"
    by (rule ext) (rule Cons)
  then show ?case
    by (cases "visits tt sz a ctx"; cases "visitsTop tt sz as ctx")
      (simp_all add: foreach_visits runVisits_append)
qed simp

lemma ForeachArg_visits:
  "ForeachArg tt (\<lambda>_. sz) (always g) c s = Option.bind (callVisits tt sz c) (\<lambda>vs. runVisits g vs s)"
proof -
  let ?ctx = "noCtx\<lparr>ctx_Parent := Some (call_Args c), ctx_Fields := sys_Args (call_Meta c)\<rparr>"
  have "foreachTop tt (\<lambda>_. sz) (always g) (call_Args c) ?ctx =
      (\<lambda>s. Option.bind (visitsTop tt sz (call_Args c) ?ctx) (\<lambda>vs. runVisits g vs s))"
    by (rule ext) (rule foreachTop_visits)
  then show ?thesis
    by (cases "visitsTop tt sz (call_Args c) ?ctx"; cases "call_Ret c")
      (simp_all add: ForeachArg_def callVisits_def)
qed

end
