(* ===== verification/Bytes.thy ===== *)
theory Bytes
  imports Prelude
begin

text \<open>
  Bytes and words: the 64-bit loads and stores of \<^verbatim>\<open>HostEndian\<close> in both byte orders, the byte swaps of
  \<^verbatim>\<open>prog/mutation.go\<close>, and the packing of small fields into one word. The interface \<open>byte_order\<close> is
  what the executable format needs of a byte order.
\<close>

unbundle bit_operations_syntax

datatype Endian = LittleEndian | BigEndian

definition leBytes :: "nat \<Rightarrow> 'a::len word \<Rightarrow> byte list" where
  "leBytes n v = map (\<lambda>i. ucast (drop_bit (8 * i) v)) [0..<n]"

definition PutUint64 :: "Endian \<Rightarrow> uint64 \<Rightarrow> byte list" where
  "PutUint64 e v = (case e of LittleEndian \<Rightarrow> leBytes 8 v | BigEndian \<Rightarrow> rev (leBytes 8 v))"

fun leWord :: "byte list \<Rightarrow> 'a::len word" where
  "leWord [] = 0"
| "leWord (b # bs) = ucast b OR push_bit 8 (leWord bs)"

definition Uint64 :: "Endian \<Rightarrow> byte list \<Rightarrow> uint64" where
  "Uint64 e bs =
     leWord (case e of LittleEndian \<Rightarrow> take 8 bs | BigEndian \<Rightarrow> rev (take 8 bs))"

definition swap16 :: "16 word \<Rightarrow> 16 word" where
  "swap16 v = (let v0 = ucast v :: byte; v1 = ucast (drop_bit 8 v) :: byte
               in ucast v1 OR push_bit 8 (ucast v0))"

definition swap32 :: "32 word \<Rightarrow> 32 word" where
  "swap32 v =
     (let v0 = ucast v :: byte; v1 = ucast (drop_bit 8 v) :: byte;
          v2 = ucast (drop_bit 16 v) :: byte; v3 = ucast (drop_bit 24 v) :: byte
      in ucast v3 OR push_bit 8 (ucast v2) OR push_bit 16 (ucast v1) OR push_bit 24 (ucast v0))"

definition swap64 :: "uint64 \<Rightarrow> uint64" where
  "swap64 v =
     (let v0 = ucast v :: byte; v1 = ucast (drop_bit 8 v) :: byte;
          v2 = ucast (drop_bit 16 v) :: byte; v3 = ucast (drop_bit 24 v) :: byte;
          v4 = ucast (drop_bit 32 v) :: byte; v5 = ucast (drop_bit 40 v) :: byte;
          v6 = ucast (drop_bit 48 v) :: byte; v7 = ucast (drop_bit 56 v) :: byte
      in ucast v7 OR push_bit 8 (ucast v6) OR push_bit 16 (ucast v5) OR push_bit 24 (ucast v4) OR
         push_bit 32 (ucast v3) OR push_bit 40 (ucast v2) OR push_bit 48 (ucast v1) OR
         push_bit 56 (ucast v0))"

subsection \<open>Loads and stores\<close>

lemma length_leBytes [simp]: "length (leBytes n v) = n"
  by (simp add: leBytes_def)

lemma bit_ge_length: "LENGTH('a) \<le> n \<Longrightarrow> \<not> bit (w :: 'a::len word) n"
  using bit_imp_le_length [of w n] by auto

lemma bit_leWord:
  "bit (leWord bs :: 'a::len word) n \<longleftrightarrow>
     n < LENGTH('a) \<and> n div 8 < length bs \<and> bit (bs ! (n div 8)) (n mod 8)"
proof (induction bs arbitrary: n)
  case (Cons b bs)
  show ?case
  proof (cases "n < 8")
    case True
    then show ?thesis by (auto simp: bit_or_iff bit_ucast_iff bit_push_bit_iff)
  next
    case False
    then obtain m where m: "n = m + 8" by (metis le_add_diff_inverse2 not_less)
    have "\<not> bit b n" using False bit_ge_length [of n b] by auto
    moreover have "(m + 8) div 8 = Suc (m div 8)" by simp
    ultimately show ?thesis
      using Cons [of m] by (auto simp: m bit_or_iff bit_ucast_iff bit_push_bit_iff)
  qed
qed simp

lemma leWord_leBytes:
  assumes "LENGTH('a) = 8 * k"
  shows "leWord (leBytes k v) = (v :: 'a::len word)"
proof (rule bit_eqI)
  fix n
  show "bit (leWord (leBytes k v) :: 'a word) n = bit v n"
  proof (cases "n < LENGTH('a)")
    case True
    then have lt: "n div 8 < k" using assms by auto
    then have "leBytes k v ! (n div 8) = ucast (drop_bit (8 * (n div 8)) v)"
      by (simp add: leBytes_def)
    with True lt show ?thesis
      by (simp add: bit_leWord bit_ucast_iff bit_drop_bit_eq)
  qed (simp add: bit_leWord bit_ge_length)
qed

lemma leBytes_leWord:
  assumes "8 * length bs \<le> LENGTH('a)" and "i < length bs"
  shows "ucast (drop_bit (8 * i) (leWord bs :: 'a::len word)) = bs ! i"
proof (rule bit_eqI)
  fix n
  assume "possible_bit TYPE(8 word) n"
  then have n: "n < 8" by simp
  then have "(8 * i + n) div 8 = i" "(8 * i + n) mod 8 = n" "8 * i + n < LENGTH('a)"
    using assms by auto
  with n assms(2) show "bit (ucast (drop_bit (8 * i) (leWord bs :: 'a word)) :: byte) n = bit (bs ! i) n"
    by (simp add: bit_ucast_iff bit_drop_bit_eq bit_leWord)
qed

locale byte_order =
  fixes put :: "uint64 \<Rightarrow> byte list" and get :: "byte list \<Rightarrow> uint64"
  assumes length_put: "length (put v) = 8"
    and get_put: "get (put v @ rest) = v"
begin

lemma put_inject: "put v @ xs = put w @ ys \<Longrightarrow> v = w \<and> xs = ys"
  using get_put [of v xs] get_put [of w ys] length_put by (metis append_eq_append_conv)

end

interpretation host: byte_order "PutUint64 e" "Uint64 e" for e
  by unfold_locales (cases e; simp add: PutUint64_def Uint64_def leWord_leBytes)+

subsection \<open>Byte swaps\<close>

text \<open>A swap reads the bytes in one order and writes them in the other.\<close>

lemma swap16_bytes: "swap16 v = leWord (rev (leBytes 2 v))"
  by (simp add: swap16_def leBytes_def Let_def numeral_eq_Suc)

lemma swap32_bytes: "swap32 v = leWord (rev (leBytes 4 v))"
  by (simp add: swap32_def leBytes_def Let_def upt_rec push_bit_or push_bit_push_bit ac_simps)

lemma swap64_bytes: "swap64 v = leWord (rev (leBytes 8 v))"
  by (simp add: swap64_def leBytes_def Let_def upt_rec push_bit_or push_bit_push_bit ac_simps)

lemma leBytes_leWord_list:
  assumes "8 * length bs = LENGTH('a)"
  shows "leBytes (length bs) (leWord bs :: 'a::len word) = bs"
  using assms by (intro nth_equalityI) (simp_all add: leBytes_def leBytes_leWord)

lemma reverse_involution:
  fixes v :: "'a::len word"
  assumes "LENGTH('a) = 8 * k"
  shows "leWord (rev (leBytes k (leWord (rev (leBytes k v)) :: 'a word))) = v"
proof -
  have "leBytes k (leWord (rev (leBytes k v)) :: 'a word) = rev (leBytes k v)"
    using leBytes_leWord_list [where 'a = 'a, of "rev (leBytes k v)"] assms by simp
  then show ?thesis using leWord_leBytes [OF assms] by simp
qed

text \<open>The byte swaps of 16, 32 and 64 bits are their own inverses.\<close>

lemma swap_involution:
  "swap16 (swap16 v16) = v16 \<and> swap32 (swap32 v32) = v32 \<and> swap64 (swap64 v64) = v64"
  by (simp add: swap16_bytes swap32_bytes swap64_bytes reverse_involution)

subsection \<open>Packed fields\<close>

text \<open>A word below \<open>2 ^ k\<close> and a word shifted past it do not overlap.\<close>

lemma bit_ge_exp: "(x :: uint64) < 2 ^ k \<Longrightarrow> k \<le> n \<Longrightarrow> \<not> bit x n"
proof
  assume x: "x < 2 ^ k" "k \<le> n" "bit x n"
  have n: "n < 64"
  proof (rule ccontr)
    assume "\<not> n < 64"
    then have "\<not> bit x n" by (intro bit_ge_length) simp
    with x(3) show False by simp
  qed
  with x(1,2) have "uint x < 2 ^ k" using word_2p_lem [of k x] by (simp add: word_size)
  then have "take_bit k (uint x) = uint x" by (simp add: take_bit_int_eq_self)
  then have "\<not> bit (uint x) n" using x(2) bit_take_bit_iff [of k "uint x" n] by simp
  with x(3) n show False by (simp add: bit_uint_iff)
qed

lemma take_bit_small: "(x :: uint64) < 2 ^ k \<Longrightarrow> take_bit k x = x"
  by (rule bit_eqI) (auto simp: bit_take_bit_iff not_less dest: bit_ge_exp)

lemma field_low: "(x :: uint64) < 2 ^ k \<Longrightarrow> take_bit k (x OR push_bit k y) = x"
  by (simp add: take_bit_or take_bit_push_bit take_bit_small)

lemma drop_push_bit: "(y :: uint64) < 2 ^ (64 - k) \<Longrightarrow> drop_bit k (push_bit k y) = y"
proof (rule bit_eqI)
  fix n
  assume y: "y < 2 ^ (64 - k)"
  show "bit (drop_bit k (push_bit k y)) n = bit y n"
    by (cases "64 - k \<le> n") (use bit_ge_exp [OF y, of n] in \<open>auto simp: bit_drop_bit_eq bit_push_bit_iff\<close>)
qed

lemma drop_bit_small: "(x :: uint64) < 2 ^ k \<Longrightarrow> drop_bit k x = 0"
  by (rule bit_eqI) (simp add: bit_drop_bit_eq bit_ge_exp)

lemma field_high: "(x :: uint64) < 2 ^ k \<Longrightarrow> y < 2 ^ (64 - k) \<Longrightarrow> drop_bit k (x OR push_bit k y) = y"
  by (simp add: drop_bit_or drop_push_bit drop_bit_small)

lemma small_if_bits: "k < 64 \<Longrightarrow> (\<And>n. k \<le> n \<Longrightarrow> \<not> bit x n) \<Longrightarrow> (x :: uint64) < 2 ^ k"
proof -
  assume k: "k < 64" and high: "\<And>n. k \<le> n \<Longrightarrow> \<not> bit x n"
  have "bit (take_bit k x) n = bit x n" for n
    using high [of n] by (cases "k \<le> n") (auto simp: bit_take_bit_iff)
  then have "take_bit k x = x" by (intro bit_eqI) simp
  then have "take_bit k (uint x) = uint x" by (metis unsigned_take_bit_eq)
  then have "uint x < 2 ^ k" by (metis take_bit_int_less_exp)
  then show ?thesis using k word_2p_lem [of k x] by (simp add: word_size)
qed

lemma field_small:
  assumes "(x :: uint64) < 2 ^ k" and "y < 2 ^ j" and "k + j < 64"
  shows "x OR push_bit k y < 2 ^ (k + j)"
  by (rule small_if_bits [OF assms(3)])
    (use bit_ge_exp [OF assms(1)] bit_ge_exp [OF assms(2)] in \<open>auto simp: bit_or_iff bit_push_bit_iff\<close>)

lemma and_ff: "(x :: uint64) AND 0xff = take_bit 8 x"
  by (simp add: take_bit_eq_mask mask_eq_exp_minus_1)

lemma pack_const:
  fixes sz f off len stride :: uint64
  assumes "sz < 2 ^ 8" and "f < 2 ^ 8" and "off < 2 ^ 8" and "len < 2 ^ 8" and "stride < 2 ^ 32"
    and m: "m = sz OR push_bit 8 f OR push_bit 16 off OR push_bit 24 len OR push_bit 32 stride"
  shows "m AND 0xff = sz" and "drop_bit 8 m AND 0xff = f" and "drop_bit 16 m AND 0xff = off"
    and "drop_bit 24 m AND 0xff = len" and "drop_bit 32 m = stride"
proof -
  define c where "c = len OR push_bit 8 stride"
  define b where "b = off OR push_bit 8 c"
  define a where "a = f OR push_bit 8 b"
  have c: "c < 2 ^ 40" using field_small [OF assms(4,5)] by (simp add: c_def)
  have b: "b < 2 ^ 48" using field_small [OF assms(3) c] by (simp add: b_def)
  have a: "a < 2 ^ 56" using field_small [OF assms(2) b] by (simp add: a_def)
  have ma: "m = sz OR push_bit 8 a"
    by (simp add: m a_def b_def c_def push_bit_or push_bit_push_bit ac_simps)
  have d8: "drop_bit 8 m = a" unfolding ma using a by (intro field_high [OF assms(1)]) simp
  have b': "b < 2 ^ 56" using b by (rule less_le_trans) simp
  have c': "c < 2 ^ 56" using c by (rule less_le_trans) simp
  have d16: "drop_bit 16 m = b"
  proof -
    have "drop_bit 8 a = b" unfolding a_def by (rule field_high [OF assms(2)]) (use b' in simp)
    then show ?thesis using drop_bit_drop_bit [of 8 8 m] d8 by simp
  qed
  have d24: "drop_bit 24 m = c"
  proof -
    have "drop_bit 8 b = c" unfolding b_def by (rule field_high [OF assms(3)]) (use c' in simp)
    then show ?thesis using drop_bit_drop_bit [of 8 16 m] d16 by simp
  qed
  show "drop_bit 32 m = stride"
  proof -
    have "stride < 2 ^ 56" using assms(5) by (rule less_le_trans) simp
    then have "drop_bit 8 c = stride" unfolding c_def by (intro field_high [OF assms(4)]) simp
    then show ?thesis using drop_bit_drop_bit [of 8 24 m] d24 by simp
  qed
  show "m AND 0xff = sz" unfolding and_ff ma by (rule field_low [OF assms(1)])
  show "drop_bit 8 m AND 0xff = f" unfolding and_ff d8 a_def by (rule field_low [OF assms(2)])
  show "drop_bit 16 m AND 0xff = off" unfolding and_ff d16 b_def by (rule field_low [OF assms(3)])
  show "drop_bit 24 m AND 0xff = len" unfolding and_ff d24 c_def by (rule field_low [OF assms(4)])
qed

lemma pack_result:
  fixes sz f :: uint64
  assumes "sz < 2 ^ 8" and "f < 2 ^ 8" and m: "m = sz OR push_bit 8 f"
  shows "m AND 0xff = sz" and "drop_bit 8 m AND 0xff = f"
proof -
  have "f < 2 ^ 56" using assms(2) by (rule less_le_trans) simp
  then have "drop_bit 8 m = f" unfolding m by (intro field_high [OF assms(1)]) simp
  then show "drop_bit 8 m AND 0xff = f" unfolding and_ff using assms(2) by (simp only: take_bit_small)
  show "m AND 0xff = sz" unfolding and_ff m by (rule field_low [OF assms(1)])
qed

end
