(* ===== verification/Checksum.thy ===== *)
theory Checksum
  imports Foreach Bytes
begin

text \<open>
  The checksum plan of a call, \<^verbatim>\<open>prog/checksum.go\<close>: which arguments hold a checksum, over which chunks,
  and which other arguments the chunks need the address of. Go maps keyed by arguments are keyed here
  by the identity of the argument (\<open>argKey\<close>); \<^verbatim>\<open>csumMap\<close> is an association list in insertion order.
\<close>

type_synonym key = "nat + nat"

fun argKey :: "Arg \<Rightarrow> key" where
  "argKey (ResultArg p) = Inl p"
| "argKey (ConstArg c _) = Inr (arg_id c)"
| "argKey (PointerArg c _ _ _) = Inr (arg_id c)"
| "argKey (DataArg c _ _) = Inr (arg_id c)"
| "argKey (GroupArg c _) = Inr (arg_id c)"
| "argKey (UnionArg c _ _) = Inr (arg_id c)"

datatype CsumChunk =
    CsumChunkArg Arg
  | CsumChunkConst uint64 uint64

record CsumInfo =
  csi_Kind :: CsumKind
  csi_Chunks :: "CsumChunk list"

type_synonym csumMap = "(Arg \<times> CsumInfo) list"

fun csumSet :: "Arg \<Rightarrow> CsumInfo \<Rightarrow> csumMap \<Rightarrow> csumMap" where
  "csumSet a info [] = [(a, info)]"
| "csumSet a info ((b, i) # m) = (if argKey b = argKey a then (b, info) # m else (b, i) # csumSet a info m)"

definition ParentRef :: string where "ParentRef = ''parent''"

text \<open>The walk up the enclosing structs; \<open>partial_function\<close>, as nothing in the code bounds it.\<close>

partial_function (option) enclosing ::
  "Type list \<Rightarrow> heap \<Rightarrow> string \<Rightarrow> (key \<rightharpoonup> Arg) \<Rightarrow> Arg \<Rightarrow> Arg option" where
  "enclosing tt h buf parentsMap arg =
     (case parentsMap (argKey arg) of
        None \<Rightarrow> None
      | Some parent \<Rightarrow>
          Option.bind (argType tt h parent) (\<lambda>t.
            if Name t = buf then Some parent else enclosing tt h buf parentsMap parent))"

definition findCsummedArg ::
  "Type list \<Rightarrow> heap \<Rightarrow> Arg \<Rightarrow> string \<Rightarrow> (key \<rightharpoonup> Arg) \<Rightarrow> Arg option" where
  "findCsummedArg tt h arg buf parentsMap =
     (if buf = ParentRef then parentsMap (argKey arg) else enclosing tt h buf parentsMap arg)"

definition composePseudoCsumIPv4 ::
  "Type list \<Rightarrow> heap \<Rightarrow> Arg \<Rightarrow> Arg \<Rightarrow> Arg \<Rightarrow> byte \<Rightarrow> CsumInfo option" where
  "composePseudoCsumIPv4 tt h tcpPacket srcAddr dstAddr protocol = do {
     sz \<leftarrow> argSize tt h tcpPacket;
     Some \<lparr>csi_Kind = CsumInet, csi_Chunks =
       [CsumChunkArg srcAddr, CsumChunkArg dstAddr,
        CsumChunkConst (ucast (swap16 (ucast protocol))) 2,
        CsumChunkConst (ucast (swap16 (ucast sz))) 2,
        CsumChunkArg tcpPacket]\<rparr>
   }"

definition composePseudoCsumIPv6 ::
  "Type list \<Rightarrow> heap \<Rightarrow> Arg \<Rightarrow> Arg \<Rightarrow> Arg \<Rightarrow> byte \<Rightarrow> CsumInfo option" where
  "composePseudoCsumIPv6 tt h tcpPacket srcAddr dstAddr protocol = do {
     sz \<leftarrow> argSize tt h tcpPacket;
     Some \<lparr>csi_Kind = CsumInet, csi_Chunks =
       [CsumChunkArg srcAddr, CsumChunkArg dstAddr,
        CsumChunkConst (ucast (swap32 (ucast sz))) 4,
        CsumChunkConst (ucast (swap32 (ucast protocol))) 4,
        CsumChunkArg tcpPacket]\<rparr>
   }"

fun fieldByName :: "Field list \<Rightarrow> string \<Rightarrow> Arg list \<Rightarrow> Arg option" where
  "fieldByName (f # fs) name (a # as) = (if fld_Name f = name then Some a else fieldByName fs name as)"
| "fieldByName _ name _ = None"

definition getFieldByName :: "Type list \<Rightarrow> ArgCommon \<Rightarrow> Arg list \<Rightarrow> string \<Rightarrow> Arg option" where
  "getFieldByName tt c inner name = do {
     t \<leftarrow> typeAt tt (arg_ref c);
     case t of StructType _ fs _ _ \<Rightarrow> fieldByName fs name inner | _ \<Rightarrow> None
   }"

definition extractHeaderParams ::
  "Type list \<Rightarrow> heap \<Rightarrow> ArgCommon \<Rightarrow> Arg list \<Rightarrow> uint64 \<Rightarrow> (Arg \<times> Arg) option" where
  "extractHeaderParams tt h c inner sz = do {
     srcAddr \<leftarrow> getFieldByName tt c inner ''src_ip'';
     dstAddr \<leftarrow> getFieldByName tt c inner ''dst_ip'';
     ssz \<leftarrow> argSize tt h srcAddr;
     dsz \<leftarrow> argSize tt h dstAddr;
     if ssz \<noteq> sz \<or> dsz \<noteq> sz then None else Some (srcAddr, dstAddr)
   }"

text \<open>The three callbacks of \<^verbatim>\<open>calcChecksumsCall\<close>: the checksum fields, the parents, the addresses.\<close>

definition csumField :: "Type list \<Rightarrow> heap \<Rightarrow> Arg \<Rightarrow> ArgCtx \<Rightarrow> Arg list \<times> Arg list \<Rightarrow> (Arg list \<times> Arg list) option" where
  "csumField tt h arg ctx s = do {
     t \<leftarrow> argType tt h arg;
     case t of
       CsumType _ CsumInet _ _ \<Rightarrow> Some (fst s @ [arg], snd s)
     | CsumType _ CsumPseudo _ _ \<Rightarrow> Some (fst s, snd s @ [arg])
     | _ \<Rightarrow> Some s
   }"

fun setParents :: "Type list \<Rightarrow> heap \<Rightarrow> Arg \<Rightarrow> Arg list \<Rightarrow> (key \<rightharpoonup> Arg) \<Rightarrow> (key \<rightharpoonup> Arg) option" where
  "setParents tt h arg [] m = Some m"
| "setParents tt h arg (fld # fs) m = do {
     i \<leftarrow> InnerArg tt h fld;
     setParents tt h arg fs (case i of None \<Rightarrow> m | Some a \<Rightarrow> m(argKey a \<mapsto> arg))
   }"

definition csumParent :: "Type list \<Rightarrow> heap \<Rightarrow> Arg \<Rightarrow> ArgCtx \<Rightarrow> (key \<rightharpoonup> Arg) \<Rightarrow> (key \<rightharpoonup> Arg) option" where
  "csumParent tt h arg ctx m = do {
     t \<leftarrow> argType tt h arg;
     case t of
       StructType _ _ _ _ \<Rightarrow> (case arg of GroupArg c inner \<Rightarrow> setParents tt h arg inner m | _ \<Rightarrow> None)
     | _ \<Rightarrow> Some m
   }"

definition csumAddrs ::
  "Type list \<Rightarrow> heap \<Rightarrow> Arg \<Rightarrow> ArgCtx \<Rightarrow> (Arg \<times> Arg) option \<Rightarrow> (Arg \<times> Arg) option option" where
  "csumAddrs tt h arg ctx s =
     (case arg of
        GroupArg c inner \<Rightarrow> do {
          t \<leftarrow> typeAt tt (arg_ref c);
          if TemplateName t \<in> {''ipv4_header'', ''syz_csum_ipv4_header''}
          then map_option Some (extractHeaderParams tt h c inner 4)
          else if TemplateName t \<in> {''ipv6_packet_t'', ''syz_csum_ipv6_header''}
          then map_option Some (extractHeaderParams tt h c inner 16)
          else Some s
        }
      | _ \<Rightarrow> Some s)"

type_synonym csums = "csumMap \<times> key set"

fun inetCsums :: "Type list \<Rightarrow> heap \<Rightarrow> (key \<rightharpoonup> Arg) \<Rightarrow> Arg list \<Rightarrow> csums \<Rightarrow> csums option" where
  "inetCsums tt h parentsMap [] s = Some s"
| "inetCsums tt h parentsMap (arg # as) (csumMap, csumUses) = do {
     t \<leftarrow> argType tt h arg;
     csummedArg \<leftarrow> findCsummedArg tt h arg (CsumBuf t) parentsMap;
     inetCsums tt h parentsMap as
       (csumSet arg \<lparr>csi_Kind = CsumInet, csi_Chunks = [CsumChunkArg csummedArg]\<rparr> csumMap,
        insert (argKey csummedArg) csumUses)
   }"

fun pseudoCsums ::
  "Type list \<Rightarrow> heap \<Rightarrow> (key \<rightharpoonup> Arg) \<Rightarrow> Arg \<Rightarrow> Arg \<Rightarrow> Arg list \<Rightarrow> csums \<Rightarrow> csums option" where
  "pseudoCsums tt h parentsMap src dst [] s = Some s"
| "pseudoCsums tt h parentsMap src dst (arg # as) (csumMap, csumUses) = do {
     t \<leftarrow> argType tt h arg;
     csummedArg \<leftarrow> findCsummedArg tt h arg (CsumBuf t) parentsMap;
     ssz \<leftarrow> argSize tt h src;
     info \<leftarrow> (if ssz = 4
       then composePseudoCsumIPv4 tt h csummedArg src dst (ucast (CsumProtocol t))
       else composePseudoCsumIPv6 tt h csummedArg src dst (ucast (CsumProtocol t)));
     pseudoCsums tt h parentsMap src dst as
       (csumSet arg info csumMap,
        insert (argKey dst) (insert (argKey src) (insert (argKey csummedArg) csumUses)))
   }"

definition calcChecksumsCall :: "Type list \<Rightarrow> heap \<Rightarrow> Call \<Rightarrow> csums option" where
  "calcChecksumsCall tt h c = do {
     (inetCsumFields, pseudoCsumFields) \<leftarrow>
       ForeachArg tt (\<lambda>_. argSize tt h) (always (csumField tt h)) c ([], []);
     if inetCsumFields = [] \<and> pseudoCsumFields = [] then Some ([], {})
     else do {
       parentsMap \<leftarrow> ForeachArg tt (\<lambda>_. argSize tt h) (always (csumParent tt h)) c Map.empty;
       s \<leftarrow> inetCsums tt h parentsMap inetCsumFields ([], {});
       if pseudoCsumFields = [] then Some s
       else do {
         addrs \<leftarrow> ForeachArg tt (\<lambda>_. argSize tt h) (always (csumAddrs tt h)) c None;
         (src, dst) \<leftarrow> addrs;
         pseudoCsums tt h parentsMap src dst pseudoCsumFields s
       }
     }
   }"

subsection \<open>Every chunk has an address\<close>

text \<open>
  The executor is given the address of an argument chunk, so the plan must ask for it: each argument
  of a chunk is among the uses, and every checksum is of the kind the executor computes.
\<close>

definition csumsOk :: "csums \<Rightarrow> bool" where
  "csumsOk s \<longleftrightarrow> (\<forall>(a, info) \<in> set (fst s). csi_Kind info = CsumInet \<and>
     (\<forall>b. CsumChunkArg b \<in> set (csi_Chunks info) \<longrightarrow> argKey b \<in> snd s))"

lemma csumSet_entries: "(b, i) \<in> set (csumSet a info m) \<Longrightarrow> i = info \<or> (b, i) \<in> set m"
  by (induction a info m rule: csumSet.induct) (auto split: if_splits)

lemma csumsOk_add:
  assumes "csumsOk (m, u)" and "u \<subseteq> u'" and "csi_Kind info = CsumInet"
    and "\<And>b. CsumChunkArg b \<in> set (csi_Chunks info) \<Longrightarrow> argKey b \<in> u'"
  shows "csumsOk (csumSet a info m, u')"
  using assms unfolding csumsOk_def by (fastforce dest: csumSet_entries)

lemma inetCsums_ok: "inetCsums tt h pm as s = Some s' \<Longrightarrow> csumsOk s \<Longrightarrow> csumsOk s'"
proof (induction tt h pm as s rule: inetCsums.induct)
  case (2 tt h pm arg as m u)
  from "2.prems"(1) obtain t csummed where c: "argType tt h arg = Some t"
    "findCsummedArg tt h arg (CsumBuf t) pm = Some csummed" by (auto elim!: bind_someE)
  have "csumsOk (csumSet arg \<lparr>csi_Kind = CsumInet, csi_Chunks = [CsumChunkArg csummed]\<rparr> m,
      insert (argKey csummed) u)"
    by (rule csumsOk_add [OF "2.prems"(2)]) auto
  then show ?case using "2.IH" [OF c] "2.prems"(1) c by simp
qed simp

lemma pseudoCsums_ok: "pseudoCsums tt h pm src dst as s = Some s' \<Longrightarrow> csumsOk s \<Longrightarrow> csumsOk s'"
proof (induction tt h pm src dst as s rule: pseudoCsums.induct)
  case (2 tt h pm src dst arg as m u)
  from "2.prems"(1) obtain t csummed ssz info where c: "argType tt h arg = Some t"
    "findCsummedArg tt h arg (CsumBuf t) pm = Some csummed" "argSize tt h src = Some ssz"
    "(if ssz = 4 then composePseudoCsumIPv4 tt h csummed src dst (ucast (CsumProtocol t))
      else composePseudoCsumIPv6 tt h csummed src dst (ucast (CsumProtocol t))) = Some info"
    by (auto elim!: bind_someE)
  have info: "csi_Kind info = CsumInet" "CsumChunkArg b \<in> set (csi_Chunks info) \<Longrightarrow>
    argKey b \<in> insert (argKey dst) (insert (argKey src) (insert (argKey csummed) u))" for b
    using c(4) by (auto simp: composePseudoCsumIPv4_def composePseudoCsumIPv6_def split: if_splits bind_splits)
  have "csumsOk (csumSet arg info m,
      insert (argKey dst) (insert (argKey src) (insert (argKey csummed) u)))"
    by (rule csumsOk_add [OF "2.prems"(2) _ info]) auto
  then show ?case using "2.IH" [OF c] "2.prems"(1) c by simp
qed simp

lemma calcChecksumsCall_ok: "calcChecksumsCall tt h c = Some s \<Longrightarrow> csumsOk s"
proof -
  assume "calcChecksumsCall tt h c = Some s"
  moreover have "csumsOk ([], {})" by (simp add: csumsOk_def)
  ultimately show ?thesis unfolding calcChecksumsCall_def
    by (fastforce elim!: bind_pairE bind_someE split: if_splits dest: inetCsums_ok pseudoCsums_ok)
qed


text \<open>A pointer to a struct of a checksum over its parent and a number.\<close>

definition csumTypes :: "Type list" where
  "csumTypes =
     (let c = \<lparr>TypeName = ''t'', TypeSize = 2, TypeAlign = 0, IsOptional = False, IsVarlen = False\<rparr>;
          i = \<lparr>TypeName = ''i'', TypeSize = 2, TypeAlign = 0, IsOptional = False, IsVarlen = False,
               ArgFormat = FormatBigEndian, BitfieldOff = 0, BitfieldLen = 0, BitfieldUnit = 0, BitfieldUnitOff = 0\<rparr>
      in [PtrType c 2 DirIn, PtrType (c\<lparr>TypeSize := 8\<rparr>) 2 DirIn,
          StructType (c\<lparr>TypeSize := 4\<rparr>) [] 0 0, CsumType i CsumInet ''parent'' 0, IntType i IntPlain 0 0 0])"

definition csumGroup :: Arg where
  "csumGroup = GroupArg \<lparr>arg_id = 1, arg_ref = 2, arg_dir = DirIn\<rparr>
     [ConstArg \<lparr>arg_id = 2, arg_ref = 3, arg_dir = DirIn\<rparr> 0, ConstArg \<lparr>arg_id = 3, arg_ref = 4, arg_dir = DirIn\<rparr> 7]"

definition csumCall :: Call where
  "csumCall =
     \<lparr>call_Meta = \<lparr>sys_ID = 0, sys_NR = 0, sys_Name = ''send'', sys_CallName = ''send'', sys_MissingArgs = 0,
        sys_Args = [], sys_Ret = None, sys_Attrs = \<lparr>sa_Disabled = False, sa_Timeout = 0, sa_ProgTimeout = 0,
        sa_IgnoreReturn = False, sa_BreaksReturns = False, sa_NoGenerate = False, sa_NoMinimize = False\<rparr>\<rparr>,
      call_Args = [PointerArg \<lparr>arg_id = 0, arg_ref = 1, arg_dir = DirIn\<rparr> 0 0 (Some csumGroup)],
      call_Ret = None, call_Props = \<lparr>cp_FailNth = 0, cp_Async = False, cp_Rerun = 0\<rparr>, call_Comment = []\<rparr>"

lemma csumCall_plan:
  "calcChecksumsCall csumTypes Map.empty csumCall =
     Some ([(ConstArg \<lparr>arg_id = 2, arg_ref = 3, arg_dir = DirIn\<rparr> 0,
        \<lparr>csi_Kind = CsumInet, csi_Chunks = [CsumChunkArg csumGroup]\<rparr>)], {Inr 1})"
  by (simp add: calcChecksumsCall_def ForeachArg_visits callVisits_def csumCall_def csumGroup_def csumTypes_def
      Let_def noCtx_def csumField_def csumParent_def argType_def typeAt_def groupOverlay_def groupCtx_def
      Size_def TypeCommon.truncate_def findCsummedArg_def ParentRef_def)


end
