(* ===== verification/ExecDec.thy ===== *)
theory ExecDec
  imports ProgArgs Bytes
begin

text \<open>
  The executable format of programs and its decoder, \<^verbatim>\<open>prog/decodeexec.go\<close>. A decoder call works on a
  state with the remaining bytes and a sticky error; after an error every read yields zero, as in the
  code. \<open>he\<close> is the byte order \<^verbatim>\<open>HostEndian\<close>. Lists grow without bound here: running out of memory
  on a hostile length is not modelled.
\<close>

subsection \<open>Constants\<close>

definition execInstrEOF :: uint64 where "execInstrEOF = NOT 0"
definition execInstrCopyin :: uint64 where "execInstrCopyin = NOT 1"
definition execInstrCopyout :: uint64 where "execInstrCopyout = NOT 2"
definition execInstrSetProps :: uint64 where "execInstrSetProps = NOT 3"
definition execArgConst :: uint64 where "execArgConst = 0"
definition execArgResult :: uint64 where "execArgResult = 1"
definition execArgData :: uint64 where "execArgData = 2"
definition execArgCsum :: uint64 where "execArgCsum = 3"
definition execArgDataReadable :: uint64 where "execArgDataReadable = push_bit 63 1"
definition ExecArgCsumInet :: uint64 where "ExecArgCsumInet = 0"
definition ExecArgCsumChunkData :: uint64 where "ExecArgCsumChunkData = 0"
definition ExecArgCsumChunkConst :: uint64 where "ExecArgCsumChunkConst = 1"
definition ExecBufferSize :: nat where "ExecBufferSize = 4 * 2 ^ 20"
definition ExecNoCopyout :: uint64 where "ExecNoCopyout = NOT 0"
definition execMaxCommands :: uint64 where "execMaxCommands = 1000"

lemmas exec_consts =
  execInstrEOF_def execInstrCopyin_def execInstrCopyout_def execInstrSetProps_def
  execArgConst_def execArgResult_def execArgData_def execArgCsum_def ExecArgCsumInet_def
  ExecArgCsumChunkData_def ExecArgCsumChunkConst_def ExecNoCopyout_def

subsection \<open>Decoded programs\<close>

record ExecCsumChunk =
  ch_Kind :: uint64
  ch_Value :: uint64
  ch_Size :: uint64

text \<open>The format of a decoded argument is the number read from the stream.\<close>

datatype ExecArg =
    ExecArgConst (ea_Size: uint64) (ea_Format: uint64) (ea_Value: uint64)
      (ea_BitfieldOffset: uint64) (ea_BitfieldLength: uint64) (ea_PidStride: uint64)
  | ExecArgResult (ea_Size: uint64) (ea_Format: uint64) (ea_Index: uint64) (ea_DivOp: uint64)
      (ea_AddOp: uint64) (ea_Default: uint64)
  | ExecArgData (ea_Data: "byte list") (ea_Readable: bool)
  | ExecArgCsum (ea_Size: uint64) (ea_Kind: uint64) (ea_Chunks: "ExecCsumChunk list")

record ExecCopyin =
  ci_Addr :: uint64
  ci_Arg :: "ExecArg option"

record ExecCopyout =
  co_Index :: uint64
  co_Addr :: uint64
  co_Size :: uint64

record ExecCall =
  ec_Meta :: "Syscall option"
  ec_Props :: CallProps
  ec_Index :: uint64
  ec_Args :: "ExecArg list"
  ec_Copyin :: "ExecCopyin list"
  ec_Copyout :: "ExecCopyout list"

definition noProps :: CallProps where
  "noProps = \<lparr>cp_FailNth = 0, cp_Async = False, cp_Rerun = 0\<rparr>"

definition noCall :: ExecCall where
  "noCall = \<lparr>ec_Meta = None, ec_Props = noProps, ec_Index = 0, ec_Args = [], ec_Copyin = [],
             ec_Copyout = []\<rparr>"

record ExecProg =
  ep_Calls :: "ExecCall list"
  ep_Vars :: "uint64 list"

text \<open>
  The errors the decoder reports, and one panic: \<open>make\<close> of a slice whose length does not fit an \<open>int\<close>.
  The panic is an error that stays: no later step replaces the first error. Memory itself is not
  bounded in the model.
\<close>

datatype derr =
  EOverflow | EBadSyscall uint64 | EBadCallArg | EBadCsumKind uint64 | EBadArgType uint64 |
  EVars nat uint64 | PanicMake uint64

record execDecoder =
  d_data :: "byte list"
  d_err :: "derr option"
  d_numVars :: uint64
  d_vars :: "uint64 list"
  d_call :: ExecCall
  d_calls :: "ExecCall list"

subsection \<open>The decoder\<close>

definition setErr :: "derr \<Rightarrow> execDecoder \<Rightarrow> execDecoder" where
  "setErr e dec = (if d_err dec = None then dec\<lparr>d_err := Some e\<rparr> else dec)"

definition dread :: "Endian \<Rightarrow> execDecoder \<Rightarrow> uint64 \<times> execDecoder" where
  "dread he dec =
     (let dec = (if length (d_data dec) < 8 then setErr EOverflow dec else dec) in
      if d_err dec \<noteq> None then (0, dec)
      else (Uint64 he (d_data dec), dec\<lparr>d_data := drop 8 (d_data dec)\<rparr>))"

definition readBlob :: "uint64 \<Rightarrow> execDecoder \<Rightarrow> byte list \<times> execDecoder" where
  "readBlob n dec =
     (let padded = (n + 7) div 8 * 8;
          dec = (if of_nat (length (d_data dec)) < padded then setErr EOverflow dec else dec) in
      if d_err dec \<noteq> None then ([], dec)
      else (take (unat n) (d_data dec), dec\<lparr>d_data := drop (unat padded) (d_data dec)\<rparr>))"

fun readChunks :: "Endian \<Rightarrow> nat \<Rightarrow> execDecoder \<Rightarrow> ExecCsumChunk list \<times> execDecoder" where
  "readChunks he 0 dec = ([], dec)"
| "readChunks he (Suc n) dec =
     (let (k, dec) = dread he dec;
          (v, dec) = dread he dec;
          (s, dec) = dread he dec;
          (cs, dec) = readChunks he n dec
      in (\<lparr>ch_Kind = k, ch_Value = v, ch_Size = s\<rparr> # cs, dec))"

text \<open>The table of variables grows to hold the index, then gets the default value.\<close>

definition setVar :: "uint64 \<Rightarrow> uint64 \<Rightarrow> uint64 list \<Rightarrow> uint64 list" where
  "setVar i v vars = (vars @ replicate (Suc (unat i) - length vars) 0)[unat i := v]"

definition readArg :: "Endian \<Rightarrow> execDecoder \<Rightarrow> ExecArg option \<times> execDecoder" where
  "readArg he dec =
     (let (typ, dec) = dread he dec in
      if typ = execArgConst then
        let (meta, dec) = dread he dec;
            (v, dec) = dread he dec
        in (Some (ExecArgConst (meta AND 0xff) (drop_bit 8 meta AND 0xff) v
              (drop_bit 16 meta AND 0xff) (drop_bit 24 meta AND 0xff) (drop_bit 32 meta)), dec)
      else if typ = execArgResult then
        let (meta, dec) = dread he dec;
            (idx, dec) = dread he dec;
            (dv, dec) = dread he dec;
            (ad, dec) = dread he dec;
            (df, dec) = dread he dec
        in (Some (ExecArgResult (meta AND 0xff) (drop_bit 8 meta AND 0xff) idx dv ad df),
            dec\<lparr>d_vars := setVar idx df (d_vars dec)\<rparr>)
      else if typ = execArgData then
        let (flags, dec) = dread he dec;
            (d, dec) = readBlob (flags AND NOT execArgDataReadable) dec
        in (Some (ExecArgData d (flags AND execArgDataReadable \<noteq> 0)), dec)
      else if typ = execArgCsum then
        let (sz, dec) = dread he dec;
            (kind, dec) = dread he dec
        in if kind = ExecArgCsumInet then
             let (n, dec) = dread he dec
             in if n \<ge> 2 ^ 63 then (None, setErr (PanicMake n) dec)
                else let (cs, dec) = readChunks he (unat n) dec
                     in (Some (ExecArgCsum sz kind cs), dec)
           else (None, setErr (EBadCsumKind kind) dec)
      else (None, setErr (EBadArgType typ) dec))"

definition readCallProps :: "Endian \<Rightarrow> execDecoder \<Rightarrow> execDecoder" where
  "readCallProps he dec =
     (let (a, dec) = dread he dec;
          dec = dec\<lparr>d_call := (d_call dec)\<lparr>ec_Props := (ec_Props (d_call dec))\<lparr>cp_FailNth := sint a\<rparr>\<rparr>\<rparr>;
          (b, dec) = dread he dec;
          dec = (if b = 1 then
                   dec\<lparr>d_call := (d_call dec)\<lparr>ec_Props := (ec_Props (d_call dec))\<lparr>cp_Async := True\<rparr>\<rparr>\<rparr>
                 else dec);
          (c, dec) = dread he dec
      in dec\<lparr>d_call := (d_call dec)\<lparr>ec_Props := (ec_Props (d_call dec))\<lparr>cp_Rerun := sint c\<rparr>\<rparr>\<rparr>)"

definition commitCall :: "execDecoder \<Rightarrow> execDecoder" where
  "commitCall dec =
     (if ec_Meta (d_call dec) = None then dec
      else
        let call = d_call dec;
            nv = (if ec_Index call \<noteq> ExecNoCopyout \<and> d_numVars dec < ec_Index call + 1
                  then ec_Index call + 1 else d_numVars dec);
            nv = fold (\<lambda>co nv. if nv < co_Index co + 1 then co_Index co + 1 else nv) (ec_Copyout call) nv
        in dec\<lparr>d_numVars := nv, d_calls := d_calls dec @ [call], d_call := noCall\<rparr>)"

text \<open>The arguments of a call: constants and results only; anything else ends the decoding.\<close>

fun readCallArgs :: "Endian \<Rightarrow> nat \<Rightarrow> execDecoder \<Rightarrow> bool \<times> execDecoder" where
  "readCallArgs he 0 dec = (True, dec)"
| "readCallArgs he (Suc n) dec =
     (let (arg, dec) = readArg he dec in
      case arg of
        Some (ExecArgConst a b c d e f) \<Rightarrow>
          readCallArgs he n
            (dec\<lparr>d_call := (d_call dec)\<lparr>ec_Args := ec_Args (d_call dec) @ [ExecArgConst a b c d e f]\<rparr>\<rparr>)
      | Some (ExecArgResult a b c d e f) \<Rightarrow>
          readCallArgs he n
            (dec\<lparr>d_call := (d_call dec)\<lparr>ec_Args := ec_Args (d_call dec) @ [ExecArgResult a b c d e f]\<rparr>\<rparr>)
      | _ \<Rightarrow> (False, setErr EBadCallArg dec))"

definition decCopyin :: "Endian \<Rightarrow> execDecoder \<Rightarrow> execDecoder" where
  "decCopyin he dec =
     (let dec = commitCall dec;
          (addr, dec) = dread he dec;
          (arg, dec) = readArg he dec
      in dec\<lparr>d_call := (d_call dec)\<lparr>ec_Copyin := ec_Copyin (d_call dec) @
             [\<lparr>ci_Addr = addr, ci_Arg = arg\<rparr>]\<rparr>\<rparr>)"

definition decCopyout :: "Endian \<Rightarrow> execDecoder \<Rightarrow> execDecoder" where
  "decCopyout he dec =
     (let (idx, dec) = dread he dec;
          (addr, dec) = dread he dec;
          (sz, dec) = dread he dec
      in dec\<lparr>d_call := (d_call dec)\<lparr>ec_Copyout := ec_Copyout (d_call dec) @
             [\<lparr>co_Index = idx, co_Addr = addr, co_Size = sz\<rparr>]\<rparr>\<rparr>)"

definition decCall :: "Endian \<Rightarrow> Target \<Rightarrow> uint64 \<Rightarrow> execDecoder \<Rightarrow> bool \<times> execDecoder" where
  "decCall he target instr dec =
     (let dec = commitCall dec in
      if instr \<ge> of_nat (length (tgt_Syscalls target)) then (False, setErr (EBadSyscall instr) dec)
      else
        let dec = dec\<lparr>d_call := (d_call dec)\<lparr>ec_Meta := Some (tgt_Syscalls target ! unat instr)\<rparr>\<rparr>;
            (idx, dec) = dread he dec;
            dec = dec\<lparr>d_call := (d_call dec)\<lparr>ec_Index := idx\<rparr>\<rparr>;
            (n, dec) = dread he dec
        in readCallArgs he (unat n) dec)"

text \<open>One instruction: whether the loop goes on, and the new state.\<close>

definition parseInstr :: "Endian \<Rightarrow> Target \<Rightarrow> execDecoder \<Rightarrow> bool \<times> execDecoder" where
  "parseInstr he target dec =
     (let (instr, dec) = dread he dec in
      if instr = execInstrCopyin then (True, decCopyin he dec)
      else if instr = execInstrCopyout then (True, decCopyout he dec)
      else if instr = execInstrEOF then (False, commitCall dec)
      else if instr = execInstrSetProps then (True, readCallProps he (commitCall dec))
      else decCall he target instr dec)"

subsection \<open>The loop terminates\<close>

text \<open>Reading never adds bytes, and a successful read of a word takes eight.\<close>

definition shorter :: "execDecoder \<Rightarrow> execDecoder \<Rightarrow> bool" where
  "shorter dec dec' \<longleftrightarrow> length (d_data dec') \<le> length (d_data dec) \<and>
     (d_err dec \<noteq> None \<longrightarrow> d_err dec' \<noteq> None)"

lemma shorter_refl [simp]: "shorter dec dec"
  by (simp add: shorter_def)

lemma shorter_trans [trans]: "shorter a b \<Longrightarrow> shorter b c \<Longrightarrow> shorter a c"
  by (auto simp: shorter_def)

lemma shorter_setErr [simp]: "shorter dec (setErr e dec)"
  by (simp add: shorter_def setErr_def)

lemma shorter_upd [simp]:
  "shorter dec (dec'\<lparr>d_call := c\<rparr>) = shorter dec dec'"
  "shorter dec (dec'\<lparr>d_vars := v\<rparr>) = shorter dec dec'"
  "shorter (dec\<lparr>d_call := c\<rparr>) dec' = shorter dec dec'"
  by (simp_all add: shorter_def)

lemma dread_shorter: "dread he dec = (v, dec') \<Longrightarrow> shorter dec dec'"
  by (auto simp: dread_def shorter_def setErr_def Let_def split: if_splits)

lemma dread_progress:
  "dread he dec = (v, dec') \<Longrightarrow> d_err dec = None \<Longrightarrow>
   d_err dec' \<noteq> None \<or> length (d_data dec') < length (d_data dec)"
  by (auto simp: dread_def setErr_def Let_def split: if_splits)

lemma readBlob_shorter: "readBlob n dec = (d, dec') \<Longrightarrow> shorter dec dec'"
  by (auto simp: readBlob_def shorter_def setErr_def Let_def split: if_splits)

lemma readChunks_shorter_snd: "shorter dec (snd (readChunks he n dec))"
proof (induction n arbitrary: dec)
  case (Suc n)
  obtain k dec1 v dec2 s dec3 where r: "dread he dec = (k, dec1)" "dread he dec1 = (v, dec2)"
    "dread he dec2 = (s, dec3)"
    by (metis prod.exhaust_sel)
  note r [THEN dread_shorter]
  with Suc.IH [of dec3] have "shorter dec (snd (readChunks he n dec3))" by (auto simp: shorter_def)
  then show ?case by (simp add: r Let_def case_prod_unfold)
qed simp

lemma readChunks_shorter: "readChunks he n dec = (cs, dec') \<Longrightarrow> shorter dec dec'"
  using readChunks_shorter_snd [of dec he n] by simp

lemma readArg_shorter: "readArg he dec = (a, dec') \<Longrightarrow> shorter dec dec'"
  unfolding readArg_def Let_def
  by (auto simp: shorter_def setErr_def split: prod.splits if_splits
      dest!: dread_shorter readBlob_shorter readChunks_shorter)

lemma readCallArgs_shorter: "shorter dec (snd (readCallArgs he n dec))"
proof (induction n arbitrary: dec)
  case (Suc n)
  obtain a dec1 where a: "readArg he dec = (a, dec1)" by (cases "readArg he dec")
  note readArg_shorter [OF a]
  with Suc.IH [of "dec1\<lparr>d_call := c\<rparr>" for c] show ?case
    by (auto simp: a intro: shorter_trans split: option.splits ExecArg.splits)
qed simp

lemma commitCall_shorter [simp]: "shorter dec (commitCall dec)"
  by (simp add: shorter_def commitCall_def Let_def)

lemma readCallProps_shorter: "shorter dec (readCallProps he dec)"
  unfolding readCallProps_def Let_def
  by (auto simp: shorter_def split: prod.splits if_splits dest!: dread_shorter)

lemma decCopyin_shorter: "shorter dec (decCopyin he dec)"
proof -
  obtain addr dec1 arg dec2 where r: "dread he (commitCall dec) = (addr, dec1)" "readArg he dec1 = (arg, dec2)"
    by (metis prod.exhaust_sel)
  have "shorter dec dec2"
    using commitCall_shorter dread_shorter [OF r(1)] readArg_shorter [OF r(2)] by (blast intro: shorter_trans)
  then show ?thesis by (simp add: decCopyin_def r)
qed

lemma decCopyout_shorter: "shorter dec (decCopyout he dec)"
proof -
  obtain a dec1 b dec2 c dec3 where r: "dread he dec = (a, dec1)" "dread he dec1 = (b, dec2)"
    "dread he dec2 = (c, dec3)"
    by (metis prod.exhaust_sel)
  have "shorter dec dec3"
    using r [THEN dread_shorter] by (blast intro: shorter_trans)
  then show ?thesis by (simp add: decCopyout_def r)
qed

lemma decCall_shorter: "shorter dec (snd (decCall he target instr dec))"
proof (cases "instr \<ge> of_nat (length (tgt_Syscalls target))")
  case True
  then show ?thesis
    using shorter_trans [OF commitCall_shorter shorter_setErr] by (simp add: decCall_def)
next
  case False
  let ?dec = "commitCall dec\<lparr>d_call := (d_call (commitCall dec))\<lparr>ec_Meta := Some (tgt_Syscalls target ! unat instr)\<rparr>\<rparr>"
  obtain idx dec1 where r1: "dread he ?dec = (idx, dec1)" by (cases "dread he ?dec")
  let ?dec1 = "dec1\<lparr>d_call := (d_call dec1)\<lparr>ec_Index := idx\<rparr>\<rparr>"
  obtain n dec2 where r2: "dread he ?dec1 = (n, dec2)" by (cases "dread he ?dec1")
  have "shorter (commitCall dec) dec1" using dread_shorter [OF r1] by simp
  with commitCall_shorter have "shorter dec dec1" by (rule shorter_trans)
  moreover have "shorter dec1 dec2" using dread_shorter [OF r2] by simp
  ultimately have "shorter dec (snd (readCallArgs he (unat n) dec2))"
    using readCallArgs_shorter by (blast intro: shorter_trans)
  then show ?thesis using False by (simp add: decCall_def Let_def r1 r2)
qed

lemma parseInstr_progress:
  assumes "parseInstr he target dec = (go, dec')" and "d_err dec = None"
  shows "d_err dec' \<noteq> None \<or> length (d_data dec') < length (d_data dec)"
proof -
  obtain instr dec1 where r: "dread he dec = (instr, dec1)" by (cases "dread he dec")
  have "shorter dec1 (readCallProps he (commitCall dec1))"
    using commitCall_shorter readCallProps_shorter by (rule shorter_trans)
  then have "shorter dec1 (snd (parseInstr he target dec))"
    using decCopyin_shorter [of dec1 he] decCopyout_shorter [of dec1 he]
      decCall_shorter [of dec1 he target instr]
    by (simp add: parseInstr_def r)
  with assms(1) dread_progress [OF r assms(2)] show ?thesis by (auto simp: shorter_def)
qed

function parse :: "Endian \<Rightarrow> Target \<Rightarrow> execDecoder \<Rightarrow> execDecoder" where
  "parse he target dec =
     (if d_err dec \<noteq> None then dec
      else case parseInstr he target dec of
        (True, dec') \<Rightarrow> parse he target dec'
      | (False, dec') \<Rightarrow> dec')"
  by pat_completeness auto
termination
proof (relation "measure (\<lambda>(he, target, dec). if d_err dec = None then Suc (length (d_data dec)) else 0)")
qed (auto dest!: parseInstr_progress [OF sym])

declare parse.simps [simp del]

definition decoderOf :: "byte list \<Rightarrow> execDecoder" where
  "decoderOf exec =
     \<lparr>d_data = exec, d_err = None, d_numVars = 0, d_vars = [], d_call = noCall, d_calls = []\<rparr>"

definition DeserializeExec :: "Endian \<Rightarrow> Target \<Rightarrow> byte list \<Rightarrow> derr + ExecProg" where
  "DeserializeExec he target exec =
     (let dec = parse he target (decoderOf exec)
      in case d_err dec of
           Some e \<Rightarrow> Inl e
         | None \<Rightarrow>
             if of_nat (length (d_vars dec)) \<noteq> d_numVars dec
             then Inl (EVars (length (d_vars dec)) (d_numVars dec))
             else Inr \<lparr>ep_Calls = d_calls dec, ep_Vars = d_vars dec\<rparr>)"

end
