(* ===== verification/ExecEnc.thy ===== *)
theory ExecEnc
  imports Checksum ExecDec
begin

text \<open>
  Serialization for the executor, \<^verbatim>\<open>prog/encodingexec.go\<close>. The rest of the caller's buffer is the
  number \<open>w_room\<close> of bytes that are left, and \<open>w_out\<close> holds what was written so far. The order in
  which Go walks over \<^verbatim>\<open>csumMap\<close> is a parameter \<open>iter\<close>. A result of None is a panic. The validation
  under the \<^verbatim>\<open>debug\<close> flag is not modelled.
\<close>

record argInfo =
  ai_Addr :: uint64
  ai_Idx :: uint64
  ai_Ret :: bool

definition noInfo :: argInfo where
  "noInfo = \<lparr>ai_Addr = 0, ai_Idx = 0, ai_Ret = False\<rparr>"

type_synonym argInfos = "key \<rightharpoonup> argInfo"

text \<open>A Go map read without the test gives the zero value for a missing key.\<close>

definition infoOf :: "argInfos \<Rightarrow> Arg \<Rightarrow> argInfo" where
  "infoOf args a = (case args (argKey a) of None \<Rightarrow> noInfo | Some i \<Rightarrow> i)"

record execContext =
  w_out :: "byte list"
  w_room :: nat
  w_eof :: bool
  w_args :: argInfos
  w_copyoutSeq :: uint64
  w_csumMap :: csumMap
  w_csumUses :: "key set"

definition w_write :: "Endian \<Rightarrow> uint64 \<Rightarrow> execContext \<Rightarrow> execContext" where
  "w_write he v w =
     (if w_room w < 8 then w\<lparr>w_eof := True\<rparr>
      else w\<lparr>w_out := w_out w @ PutUint64 he v, w_room := w_room w - 8\<rparr>)"

definition formatNum :: "BinaryFormat \<Rightarrow> uint64" where
  "formatNum f =
     (case f of FormatNative \<Rightarrow> 0 | FormatBigEndian \<Rightarrow> 1 | FormatStrDec \<Rightarrow> 2 | FormatStrHex \<Rightarrow> 3
      | FormatStrOct \<Rightarrow> 4)"

definition writeConstArg ::
  "Endian \<Rightarrow> uint64 \<Rightarrow> uint64 \<Rightarrow> uint64 \<Rightarrow> uint64 \<Rightarrow> uint64 \<Rightarrow> BinaryFormat \<Rightarrow> execContext \<Rightarrow> execContext" where
  "writeConstArg he sz val bfOffset bfLength pidStride bf w =
     (let w = w_write he execArgConst w;
          meta = sz OR push_bit 8 (formatNum bf) OR push_bit 16 bfOffset OR push_bit 24 bfLength OR
                 push_bit 32 pidStride;
          w = w_write he meta w
      in w_write he val w)"

text \<open>The data of a buffer, padded with zeros to a multiple of eight.\<close>

definition writeBlob :: "byte list \<Rightarrow> execContext \<Rightarrow> execContext" where
  "writeBlob d w =
     (let pad = 8 - length d mod 8;
          padded = (if pad \<noteq> 8 then length d + pad else length d)
      in if w_room w < padded then w\<lparr>w_eof := True\<rparr>
         else w\<lparr>w_out := w_out w @ d @ replicate (padded - length d) 0, w_room := w_room w - padded\<rparr>)"

fun writeArg :: "Endian \<Rightarrow> Type list \<Rightarrow> heap \<Rightarrow> Target \<Rightarrow> Arg \<Rightarrow> execContext \<Rightarrow> execContext option" where
  "writeArg he tt h target (ConstArg c v) w = do {
     typ \<leftarrow> typeAt tt (arg_ref c);
     (val, pidStride) \<leftarrow> ConstArg_Value typ v;
     us \<leftarrow> UnitSize typ;
     Some (writeConstArg he us val (BitfieldOffset typ) (BitfieldLength typ) pidStride (Format typ) w)
   }"
| "writeArg he tt h target (ResultArg p) w = do {
     a \<leftarrow> h p;
     typ \<leftarrow> typeAt tt (ro_ref a);
     sz \<leftarrow> Size typ;
     case ro_Res a of
       None \<Rightarrow> Some (writeConstArg he sz (ro_Val a) 0 0 0 (Format typ) w)
     | Some q \<Rightarrow> do {
         info \<leftarrow> w_args w (Inl q);
         dflt \<leftarrow> (case typ of ResourceType _ _ d \<Rightarrow> ResourceDefault d | _ \<Rightarrow> None);
         let w = w_write he execArgResult w;
         let w = w_write he (sz OR push_bit 8 (formatNum (Format typ))) w;
         let w = w_write he (ai_Idx info) w;
         let w = w_write he (ro_OpDiv a) w;
         let w = w_write he (ro_OpAdd a) w;
         Some (w_write he dflt w)
       }
   }"
| "writeArg he tt h target (PointerArg c addr vma res) w = do {
     sz \<leftarrow> argSize tt h (PointerArg c addr vma res);
     pa \<leftarrow> PhysicalAddr target (PointerArg c addr vma res);
     Some (writeConstArg he sz pa 0 0 0 FormatNative w)
   }"
| "writeArg he tt h target (DataArg c d osz) w = do {
     dat \<leftarrow> DataArg_Data (DataArg c d osz);
     if dat = [] then Some w
     else do {
       typ \<leftarrow> typeAt tt (arg_ref c);
       readable \<leftarrow> (case typ of BufferType _ k _ _ _ _ _ _ \<Rightarrow> Some (isReadableDataType k) | _ \<Rightarrow> None);
       let w = w_write he execArgData w;
       let flags = of_nat (length dat);
       let flags = (if readable then flags OR execArgDataReadable else flags);
       let w = w_write he flags w;
       Some (writeBlob dat w)
     }
   }"
| "writeArg he tt h target (UnionArg c opt i) w = writeArg he tt h target opt w"
| "writeArg he tt h target (GroupArg c inner) w = None"

definition willBeUsed :: "heap \<Rightarrow> csumMap \<Rightarrow> key set \<Rightarrow> Arg \<Rightarrow> bool" where
  "willBeUsed h csumMap csumUses arg =
     ((case arg of ResultArg p \<Rightarrow> (case h p of Some res \<Rightarrow> ro_uses res \<noteq> {} | None \<Rightarrow> False) | _ \<Rightarrow> False) \<or>
      argKey arg \<in> (argKey \<circ> fst) ` set csumMap \<or> argKey arg \<in> csumUses)"

definition isGroupOrUnion :: "Arg \<Rightarrow> bool" where
  "isGroupOrUnion arg = (case arg of GroupArg _ _ \<Rightarrow> True | UnionArg _ _ _ \<Rightarrow> True | _ \<Rightarrow> False)"

text \<open>The guard of a copyin: no copyin for outputs, for padding and for empty arguments.\<close>

definition skipCopyin :: "Type list \<Rightarrow> heap \<Rightarrow> Type \<Rightarrow> Arg \<Rightarrow> bool option" where
  "skipCopyin tt h typ arg = do {
     dir \<leftarrow> argDir h arg;
     if dir = DirOut \<or> IsPad typ then Some True
     else do {
       sz \<leftarrow> argSize tt h arg;
       Some (sz = 0 \<and> \<not> IsBitfield typ)
     }
   }"

definition copyinArg ::
  "Endian \<Rightarrow> Type list \<Rightarrow> heap \<Rightarrow> Target \<Rightarrow> Arg \<Rightarrow> ArgCtx \<Rightarrow> execContext \<Rightarrow> execContext option" where
  "copyinArg he tt h target arg ctx w =
     (case ctx_Base ctx of
        None \<Rightarrow> Some w
      | Some base \<Rightarrow> do {
          pa \<leftarrow> PhysicalAddr target base;
          typ \<leftarrow> argType tt h arg;
          let addr = pa + ctx_Offset ctx - UnitOffset typ;
          let w = (if willBeUsed h (w_csumMap w) (w_csumUses w) arg
                   then w\<lparr>w_args := (w_args w)(argKey arg \<mapsto> noInfo\<lparr>ai_Addr := addr\<rparr>)\<rparr> else w);
          if isGroupOrUnion arg then Some w
          else do {
            skip \<leftarrow> skipCopyin tt h typ arg;
            if skip then Some w
            else writeArg he tt h target arg (w_write he addr (w_write he execInstrCopyin w))
          }
        })"

definition writeCopyin ::
  "Endian \<Rightarrow> Type list \<Rightarrow> heap \<Rightarrow> Target \<Rightarrow> Call \<Rightarrow> execContext \<Rightarrow> execContext option" where
  "writeCopyin he tt h target c w =
     ForeachArg tt (\<lambda>_. argSize tt h) (always (copyinArg he tt h target)) c w"

fun writeChunks :: "Endian \<Rightarrow> Type list \<Rightarrow> heap \<Rightarrow> CsumChunk list \<Rightarrow> execContext \<Rightarrow> execContext option" where
  "writeChunks he tt h [] w = Some w"
| "writeChunks he tt h (CsumChunkArg arg # cs) w = do {
     sz \<leftarrow> argSize tt h arg;
     let w = w_write he ExecArgCsumChunkData w;
     let w = w_write he (ai_Addr (infoOf (w_args w) arg)) w;
     writeChunks he tt h cs (w_write he sz w)
   }"
| "writeChunks he tt h (CsumChunkConst v sz # cs) w =
     writeChunks he tt h cs (w_write he sz (w_write he v (w_write he ExecArgCsumChunkConst w)))"

definition writeChecksum ::
  "Endian \<Rightarrow> Type list \<Rightarrow> heap \<Rightarrow> Arg \<times> CsumInfo \<Rightarrow> execContext \<Rightarrow> execContext option" where
  "writeChecksum he tt h e w = do {
     let (arg, info) = e;
     typ \<leftarrow> argType tt h arg;
     (case typ of CsumType _ _ _ _ \<Rightarrow> Some () | _ \<Rightarrow> None);
     sz \<leftarrow> argSize tt h arg;
     let w = w_write he execInstrCopyin w;
     let w = w_write he (ai_Addr (infoOf (w_args w) arg)) w;
     let w = w_write he execArgCsum w;
     let w = w_write he sz w;
     case csi_Kind info of
       CsumInet \<Rightarrow>
         writeChunks he tt h (csi_Chunks info)
           (w_write he (of_nat (length (csi_Chunks info))) (w_write he ExecArgCsumInet w))
     | _ \<Rightarrow> None
   }"

fun writeChecksumList ::
  "Endian \<Rightarrow> Type list \<Rightarrow> heap \<Rightarrow> csumMap \<Rightarrow> execContext \<Rightarrow> execContext option" where
  "writeChecksumList he tt h [] w = Some w"
| "writeChecksumList he tt h (e # es) w =
     Option.bind (writeChecksum he tt h e w) (writeChecksumList he tt h es)"

text \<open>The checksum arguments by address, the last one first.\<close>

definition csumOrder :: "(csumMap \<Rightarrow> csumMap) \<Rightarrow> argInfos \<Rightarrow> csumMap \<Rightarrow> csumMap" where
  "csumOrder iter args m = rev (sort_key (\<lambda>e. ai_Addr (infoOf args (fst e))) (iter m))"

definition writeChecksums ::
  "(csumMap \<Rightarrow> csumMap) \<Rightarrow> Endian \<Rightarrow> Type list \<Rightarrow> heap \<Rightarrow> execContext \<Rightarrow> execContext option" where
  "writeChecksums iter he tt h w =
     (if w_csumMap w = [] then Some w
      else writeChecksumList he tt h (csumOrder iter (w_args w) (w_csumMap w)) w)"

definition writeCallProps :: "Endian \<Rightarrow> CallProps \<Rightarrow> execContext \<Rightarrow> execContext" where
  "writeCallProps he props w =
     (let w = w_write he execInstrSetProps w;
          w = w_write he (word_of_int (cp_FailNth props)) w;
          w = w_write he (if cp_Async props then 1 else 0) w
      in w_write he (word_of_int (cp_Rerun props)) w)"

definition copyoutArg ::
  "Endian \<Rightarrow> Type list \<Rightarrow> heap \<Rightarrow> Arg \<Rightarrow> ArgCtx \<Rightarrow> execContext \<Rightarrow> execContext option" where
  "copyoutArg he tt h arg ctx w =
     (case arg of
        ResultArg p \<Rightarrow> do {
          res \<leftarrow> h p;
          if ro_uses res = {} then Some w
          else
            let info = infoOf (w_args w) arg in
            if ai_Ret info then Some w
            else do {
              sz \<leftarrow> argSize tt h arg;
              let info = info\<lparr>ai_Idx := w_copyoutSeq w\<rparr>;
              let w = w\<lparr>w_copyoutSeq := w_copyoutSeq w + 1\<rparr>;
              let w = w\<lparr>w_args := (w_args w)(argKey arg \<mapsto> info)\<rparr>;
              let w = w_write he execInstrCopyout w;
              let w = w_write he (ai_Idx info) w;
              let w = w_write he (ai_Addr info) w;
              Some (w_write he sz w)
            }
        }
      | _ \<Rightarrow> Some w)"

definition writeCopyout ::
  "Endian \<Rightarrow> Type list \<Rightarrow> heap \<Rightarrow> Call \<Rightarrow> execContext \<Rightarrow> execContext option" where
  "writeCopyout he tt h c w =
     ForeachArg tt (\<lambda>_. argSize tt h) (always (copyoutArg he tt h)) c w"

fun writeArgs :: "Endian \<Rightarrow> Type list \<Rightarrow> heap \<Rightarrow> Target \<Rightarrow> Arg list \<Rightarrow> execContext \<Rightarrow> execContext option" where
  "writeArgs he tt h target [] w = Some w"
| "writeArgs he tt h target (a # as) w =
     Option.bind (writeArg he tt h target a w) (writeArgs he tt h target as)"

text \<open>The return value gets its copyout index with the call, when something uses it.\<close>

definition writeRet :: "Endian \<Rightarrow> heap \<Rightarrow> Call \<Rightarrow> execContext \<Rightarrow> execContext option" where
  "writeRet he h c w =
     (case call_Ret c of
        None \<Rightarrow> Some (w_write he ExecNoCopyout w)
      | Some p \<Rightarrow> do {
          ret \<leftarrow> h p;
          if ro_uses ret = {} then Some (w_write he ExecNoCopyout w)
          else if w_args w (Inl p) \<noteq> None then None
          else
            let seq = w_copyoutSeq w;
                w = w\<lparr>w_args := (w_args w)(Inl p \<mapsto> \<lparr>ai_Addr = 0, ai_Idx = seq, ai_Ret = True\<rparr>)\<rparr>;
                w = w_write he seq w
            in Some (w\<lparr>w_copyoutSeq := seq + 1\<rparr>)
        })"

definition serializeCall ::
  "(csumMap \<Rightarrow> csumMap) \<Rightarrow> Endian \<Rightarrow> Type list \<Rightarrow> heap \<Rightarrow> Target \<Rightarrow> Call \<Rightarrow> execContext \<Rightarrow> execContext option" where
  "serializeCall iter he tt h target c w = do {
     w \<leftarrow> writeCopyin he tt h target c w;
     w \<leftarrow> writeChecksums iter he tt h w;
     let w = (if call_Props c \<noteq> noProps then writeCallProps he (call_Props c) w else w);
     let w = w_write he (of_nat (sys_ID (call_Meta c))) w;
     w \<leftarrow> writeRet he h c w;
     let w = w_write he (of_nat (length (call_Args c))) w;
     w \<leftarrow> writeArgs he tt h target (call_Args c) w;
     writeCopyout he tt h c w
   }"

fun serializeCalls ::
  "(csumMap \<Rightarrow> csumMap) \<Rightarrow> Endian \<Rightarrow> Type list \<Rightarrow> heap \<Rightarrow> Target \<Rightarrow> Call list \<Rightarrow> execContext \<Rightarrow> execContext option" where
  "serializeCalls iter he tt h target [] w = Some w"
| "serializeCalls iter he tt h target (c # cs) w = do {
     (csumMap, csumUses) \<leftarrow> calcChecksumsCall tt h c;
     w \<leftarrow> serializeCall iter he tt h target c (w\<lparr>w_csumMap := csumMap, w_csumUses := csumUses\<rparr>);
     serializeCalls iter he tt h target cs w
   }"

text \<open>The bytes written to a buffer of \<open>n\<close> bytes, or \<open>Some None\<close> for \<^verbatim>\<open>ErrExecBufferTooSmall\<close>.\<close>

definition SerializeForExec ::
  "(csumMap \<Rightarrow> csumMap) \<Rightarrow> Endian \<Rightarrow> Type list \<Rightarrow> heap \<Rightarrow> Target \<Rightarrow> Call list \<Rightarrow> nat \<Rightarrow> byte list option option" where
  "SerializeForExec iter he tt h target calls n = do {
     w \<leftarrow> serializeCalls iter he tt h target calls
       \<lparr>w_out = [], w_room = n, w_eof = False, w_args = Map.empty, w_copyoutSeq = 0, w_csumMap = [],
        w_csumUses = {}\<rparr>;
     let w = w_write he execInstrEOF w;
     Some (if w_eof w \<or> w_copyoutSeq w > execMaxCommands then None else Some (w_out w))
   }"

end
