(* ===== verification/ExecWire.thy ===== *)
theory ExecWire
  imports ExecDec
begin

text \<open>
  The executable format as a specification: \<open>encCall\<close> gives the bytes of a decoded call. The decoder
  inverts it: \<open>parse_calls\<close> reads back exactly the calls whose fields fit the widths the format gives
  them (\<open>wireCall\<close>).
\<close>

definition wordsOf :: "Endian \<Rightarrow> uint64 list \<Rightarrow> byte list" where
  "wordsOf he vs = concat (map (PutUint64 he) vs)"

definition padLen :: "nat \<Rightarrow> nat" where
  "padLen n = (if n mod 8 = 0 then 0 else 8 - n mod 8)"

definition blobBytes :: "byte list \<Rightarrow> byte list" where
  "blobBytes d = d @ replicate (padLen (length d)) 0"

definition constMeta :: "uint64 \<Rightarrow> uint64 \<Rightarrow> uint64 \<Rightarrow> uint64 \<Rightarrow> uint64 \<Rightarrow> uint64" where
  "constMeta sz f off len stride =
     sz OR push_bit 8 f OR push_bit 16 off OR push_bit 24 len OR push_bit 32 stride"

definition dataFlags :: "byte list \<Rightarrow> bool \<Rightarrow> uint64" where
  "dataFlags d readable = (if readable then of_nat (length d) OR execArgDataReadable else of_nat (length d))"

fun encArg :: "Endian \<Rightarrow> ExecArg \<Rightarrow> byte list" where
  "encArg he (ExecArgConst sz f v off len stride) =
     wordsOf he [execArgConst, constMeta sz f off len stride, v]"
| "encArg he (ExecArgResult sz f idx dv ad df) =
     wordsOf he [execArgResult, sz OR push_bit 8 f, idx, dv, ad, df]"
| "encArg he (ExecArgData d readable) =
     wordsOf he [execArgData, dataFlags d readable] @ blobBytes d"
| "encArg he (ExecArgCsum sz kind cs) =
     wordsOf he [execArgCsum, sz, kind, of_nat (length cs)] @
     concat (map (\<lambda>c. wordsOf he [ch_Kind c, ch_Value c, ch_Size c]) cs)"

fun wireArg :: "ExecArg \<Rightarrow> bool" where
  "wireArg (ExecArgConst sz f v off len stride) =
     (sz < 2 ^ 8 \<and> f < 2 ^ 8 \<and> off < 2 ^ 8 \<and> len < 2 ^ 8 \<and> stride < 2 ^ 32)"
| "wireArg (ExecArgResult sz f idx dv ad df) = (sz < 2 ^ 8 \<and> f < 2 ^ 8)"
| "wireArg (ExecArgData d readable) = True"
| "wireArg (ExecArgCsum sz kind cs) = (kind = ExecArgCsumInet)"

fun callArg :: "ExecArg \<Rightarrow> bool" where
  "callArg (ExecArgConst _ _ _ _ _ _) = True"
| "callArg (ExecArgResult _ _ _ _ _ _) = True"
| "callArg _ = False"

fun argVars :: "ExecArg \<Rightarrow> uint64 list \<Rightarrow> uint64 list" where
  "argVars (ExecArgResult sz f idx dv ad df) vars = setVar idx df vars"
| "argVars _ vars = vars"

definition callVars :: "ExecCall \<Rightarrow> uint64 list \<Rightarrow> uint64 list" where
  "callVars c vars = fold argVars (ec_Args c)
     (fold (\<lambda>ci. case ci_Arg ci of None \<Rightarrow> id | Some a \<Rightarrow> argVars a) (ec_Copyin c) vars)"

text \<open>The number of variables: one past the greatest index a call or a copyout stores to.\<close>

definition maxVar :: "uint64 \<Rightarrow> uint64 \<Rightarrow> uint64" where
  "maxVar idx nv = (if nv < idx + 1 then idx + 1 else nv)"

definition callNumVars :: "ExecCall \<Rightarrow> uint64 \<Rightarrow> uint64" where
  "callNumVars c nv = fold (\<lambda>co. maxVar (co_Index co)) (ec_Copyout c)
     (if ec_Index c = ExecNoCopyout then nv else maxVar (ec_Index c) nv)"

definition encCopyin :: "Endian \<Rightarrow> ExecCopyin \<Rightarrow> byte list" where
  "encCopyin he ci =
     wordsOf he [execInstrCopyin, ci_Addr ci] @ (case ci_Arg ci of None \<Rightarrow> [] | Some a \<Rightarrow> encArg he a)"

definition encCopyout :: "Endian \<Rightarrow> ExecCopyout \<Rightarrow> byte list" where
  "encCopyout he co = wordsOf he [execInstrCopyout, co_Index co, co_Addr co, co_Size co]"

definition propWords :: "CallProps \<Rightarrow> uint64 list" where
  "propWords p = [word_of_int (cp_FailNth p), if cp_Async p then 1 else 0, word_of_int (cp_Rerun p)]"

definition encProps :: "Endian \<Rightarrow> CallProps \<Rightarrow> byte list" where
  "encProps he p = (if p = noProps then [] else wordsOf he (execInstrSetProps # propWords p))"

definition callID :: "ExecCall \<Rightarrow> uint64" where
  "callID c = (case ec_Meta c of None \<Rightarrow> 0 | Some m \<Rightarrow> of_nat (sys_ID m))"

definition encCall :: "Endian \<Rightarrow> ExecCall \<Rightarrow> byte list" where
  "encCall he c =
     concat (map (encCopyin he) (ec_Copyin c)) @ encProps he (ec_Props c) @
     wordsOf he [callID c, ec_Index c, of_nat (length (ec_Args c))] @
     concat (map (encArg he) (ec_Args c)) @ concat (map (encCopyout he) (ec_Copyout c))"

definition encProg :: "Endian \<Rightarrow> ExecCall list \<Rightarrow> byte list" where
  "encProg he cs = concat (map (encCall he) cs) @ wordsOf he [execInstrEOF]"

definition int64 :: "int \<Rightarrow> bool" where
  "int64 z \<longleftrightarrow> - (2 ^ 63) \<le> z \<and> z < 2 ^ 63"

definition wireTarget :: "Target \<Rightarrow> Syscall \<Rightarrow> bool" where
  "wireTarget target m \<longleftrightarrow> length (tgt_Syscalls target) < 2 ^ 63 \<and>
     sys_ID m < length (tgt_Syscalls target) \<and> tgt_Syscalls target ! sys_ID m = m"

definition wireCall :: "Target \<Rightarrow> ExecCall \<Rightarrow> bool" where
  "wireCall target c \<longleftrightarrow>
     (case ec_Meta c of None \<Rightarrow> False | Some m \<Rightarrow> wireTarget target m) \<and>
     list_all (\<lambda>ci. case ci_Arg ci of None \<Rightarrow> False | Some a \<Rightarrow> wireArg a) (ec_Copyin c) \<and>
     list_all (\<lambda>a. wireArg a \<and> callArg a) (ec_Args c) \<and>
     int64 (cp_FailNth (ec_Props c)) \<and> int64 (cp_Rerun (ec_Props c))"

subsection \<open>Reading one argument\<close>

text \<open>The pending bytes are written last, so that the rules for reading apply to them.\<close>

lemma data_last [simp]:
  "dec\<lparr>d_data := x, d_vars := v\<rparr> = dec\<lparr>d_vars := v, d_data := x\<rparr>"
  "dec\<lparr>d_data := x, d_call := c\<rparr> = dec\<lparr>d_call := c, d_data := x\<rparr>"
  "dec\<lparr>d_data := x, d_calls := cs\<rparr> = dec\<lparr>d_calls := cs, d_data := x\<rparr>"
  "dec\<lparr>d_data := x, d_numVars := n\<rparr> = dec\<lparr>d_numVars := n, d_data := x\<rparr>"
  by simp_all

lemma wordsOf_simps [simp]:
  "wordsOf he [] = []" "wordsOf he (v # vs) = PutUint64 he v @ wordsOf he vs"
  by (simp_all add: wordsOf_def)

lemma dread_put [simp]:
  "d_err dec = None \<Longrightarrow> dread he (dec\<lparr>d_data := PutUint64 he v @ rest\<rparr>) = (v, dec\<lparr>d_data := rest\<rparr>)"
  by (simp add: dread_def host.length_put host.get_put)

lemma readChunks_enc:
  "d_err dec = None \<Longrightarrow>
   readChunks he (length cs)
     (dec\<lparr>d_data := concat (map (\<lambda>c. wordsOf he [ch_Kind c, ch_Value c, ch_Size c]) cs) @ rest\<rparr>) =
   (cs, dec\<lparr>d_data := rest\<rparr>)"
  by (induction cs) (simp_all add: Let_def)

lemma padLen_dvd: "8 dvd n + padLen n"
  unfolding padLen_def by presburger

lemma padded_length:
  assumes "n < 2 ^ 62"
  shows "unat ((of_nat n + 7 :: uint64) div 8 * 8) = n + padLen n"
proof -
  have "unat (of_nat n + 7 :: uint64) = n + 7"
    using assms by (simp add: unat_word_ariths unat_of_nat)
  then have "unat ((of_nat n + 7 :: uint64) div 8 * 8) = (n + 7) div 8 * 8"
    using assms by (simp add: unat_word_ariths unat_div)
  also have "\<dots> = n + padLen n" unfolding padLen_def by presburger
  finally show ?thesis .
qed

lemma readBlob_enc:
  assumes "d_err dec = None" and "length (blobBytes d @ rest) < 2 ^ 62"
  shows "readBlob (of_nat (length d)) (dec\<lparr>d_data := blobBytes d @ rest\<rparr>) = (d, dec\<lparr>d_data := rest\<rparr>)"
proof -
  let ?p = "(of_nat (length d) + 7 :: uint64) div 8 * 8"
  have d: "length d < 2 ^ 62" using assms(2) by (simp add: blobBytes_def)
  note p = padded_length [OF d]
  have "unat (of_nat (length (blobBytes d @ rest)) :: uint64) = length (blobBytes d @ rest)"
    by (rule unat_of_nat64) (use assms(2) in simp)
  then have "\<not> of_nat (length (blobBytes d @ rest)) < ?p"
    by (simp only: word_less_nat_alt p) (simp add: blobBytes_def)
  then show ?thesis using assms(1) d p
    by (simp add: readBlob_def blobBytes_def Let_def unat_of_nat)
qed

lemma bit_readable: "bit execArgDataReadable n \<longleftrightarrow> n = 63"
  unfolding execArgDataReadable_def bit_push_bit_iff by (auto simp: bit_1_iff)

lemma dataFlags_fields:
  assumes "length d < 2 ^ 62"
  shows "dataFlags d r AND NOT execArgDataReadable = of_nat (length d)"
    and "dataFlags d r AND execArgDataReadable \<noteq> 0 \<longleftrightarrow> r"
proof -
  let ?n = "of_nat (length d) :: uint64"
  have "?n < 2 ^ 62"
    using assms by (simp add: word_less_nat_alt unat_of_nat)
  then have n: "\<not> bit ?n 63" by (rule bit_ge_exp) simp
  have "?n AND NOT execArgDataReadable = ?n" "?n AND execArgDataReadable = 0"
    by (rule bit_eqI; use n in \<open>auto simp: bit_readable bit_and_iff bit_not_iff\<close>)+
  moreover have "(?n OR execArgDataReadable) AND NOT execArgDataReadable = ?n"
    by (rule bit_eqI; use n in \<open>auto simp: bit_readable bit_or_iff bit_and_iff bit_not_iff\<close>)
  moreover have "(?n OR execArgDataReadable) AND execArgDataReadable = execArgDataReadable"
    by (rule bit_eqI) (auto simp: bit_or_iff bit_and_iff)
  moreover have "execArgDataReadable \<noteq> 0" by (simp add: execArgDataReadable_def)
  ultimately show "dataFlags d r AND NOT execArgDataReadable = of_nat (length d)"
    and "dataFlags d r AND execArgDataReadable \<noteq> 0 \<longleftrightarrow> r"
    by (auto simp: dataFlags_def)
qed

lemma exec_distinct:
  "execArgResult \<noteq> execArgConst" "execArgData \<noteq> execArgConst" "execArgData \<noteq> execArgResult"
  "execArgCsum \<noteq> execArgConst" "execArgCsum \<noteq> execArgResult" "execArgCsum \<noteq> execArgData"
  "execInstrCopyout \<noteq> execInstrCopyin" "execInstrEOF \<noteq> execInstrCopyin" "execInstrEOF \<noteq> execInstrCopyout"
  "execInstrSetProps \<noteq> execInstrCopyin" "execInstrSetProps \<noteq> execInstrCopyout"
  "execInstrSetProps \<noteq> execInstrEOF"
  by (simp_all add: exec_consts)

text \<open>Lists in the encoding are no longer than the encoding.\<close>

lemma length_encArg: "1 \<le> length (encArg he a)"
  by (cases a) (simp_all add: host.length_put)

lemma length_le_concat: "(\<And>x. x \<in> set xs \<Longrightarrow> 1 \<le> length (f x)) \<Longrightarrow> length xs \<le> length (concat (map f xs))"
  by (induction xs) fastforce+

lemma readArg_enc:
  assumes "d_err dec = None" and "wireArg a" and "length (encArg he a @ rest) < 2 ^ 62"
  shows "readArg he (dec\<lparr>d_data := encArg he a @ rest\<rparr>) =
    (Some a, dec\<lparr>d_data := rest, d_vars := argVars a (d_vars dec)\<rparr>)"
proof (cases a)
  case (ExecArgConst sz f v off len stride)
  then show ?thesis using assms(1,2) pack_const [OF _ _ _ _ _ refl, of sz f off len stride]
    by (simp add: readArg_def Let_def constMeta_def)
next
  case (ExecArgResult sz f idx dv ad df)
  then show ?thesis using assms(1,2) pack_result [OF _ _ refl, of sz f]
    by (simp add: readArg_def Let_def exec_distinct)
next
  case (ExecArgData d r)
  then have "length (blobBytes d @ rest) < 2 ^ 62" using assms(3) by simp
  moreover from this have "length d < 2 ^ 62" by (simp add: blobBytes_def)
  ultimately show ?thesis
    using ExecArgData assms(1) readBlob_enc [of dec d rest] dataFlags_fields [of d r]
    by (simp add: readArg_def Let_def exec_distinct)
next
  case (ExecArgCsum sz kind cs)
  have "length cs \<le> length (concat (map (\<lambda>c. wordsOf he [ch_Kind c, ch_Value c, ch_Size c]) cs))"
    by (rule length_le_concat) (simp add: host.length_put)
  with ExecArgCsum have cs: "length cs < 2 ^ 63" using assms(3) by simp
  then have "unat (of_nat (length cs) :: uint64) = length cs" by (simp add: unat_of_nat)
  then show ?thesis
    using ExecArgCsum assms(1,2) cs readChunks_enc [OF assms(1), of he cs rest]
    by (simp add: readArg_def Let_def exec_distinct word_le_nat_alt)
qed

subsection \<open>Reading one call\<close>

text \<open>A state that has committed its call: no call is open, or the open one has no system call yet.\<close>

lemma commitCall_data [simp]: "commitCall (dec\<lparr>d_data := x\<rparr>) = (commitCall dec)\<lparr>d_data := x\<rparr>"
  by (simp add: commitCall_def Let_def)

lemma commitCall_err [simp]: "d_err (commitCall dec) = d_err dec"
  by (simp add: commitCall_def Let_def)

lemma commitCall_vars [simp]: "d_vars (commitCall dec) = d_vars dec"
  by (simp add: commitCall_def Let_def)

lemma commitCall_open [simp]: "ec_Meta (d_call dec) = None \<Longrightarrow> commitCall dec = dec"
  by (simp add: commitCall_def)

lemma commitCall_idem [simp]: "commitCall (commitCall dec) = commitCall dec"
  by (simp add: commitCall_def Let_def noCall_def)

lemma parse_go:
  "parseInstr he target dec = (True, dec') \<Longrightarrow> d_err dec = None \<Longrightarrow> parse he target dec = parse he target dec'"
  by (subst parse.simps) simp

lemma parse_stop:
  "parseInstr he target dec = (False, dec') \<Longrightarrow> d_err dec = None \<Longrightarrow> parse he target dec = dec'"
  by (subst parse.simps) simp

lemma parse_copyin:
  assumes "d_err dec = None" and "ec_Meta (d_call dec) = None" and "ci_Arg ci = Some a" and "wireArg a"
    and "length (encCopyin he ci @ rest) < 2 ^ 62"
  shows "parse he target (dec\<lparr>d_data := encCopyin he ci @ rest\<rparr>) =
    parse he target (dec\<lparr>d_data := rest, d_vars := argVars a (d_vars dec),
      d_call := (d_call dec)\<lparr>ec_Copyin := ec_Copyin (d_call dec) @ [ci]\<rparr>\<rparr>)"
proof -
  have "length (encArg he a @ rest) < 2 ^ 62" using assms(3,5) by (simp add: encCopyin_def)
  then show ?thesis using assms(1-4) readArg_enc [of dec a he rest]
    by (intro parse_go) (simp_all add: parseInstr_def decCopyin_def encCopyin_def)
qed

lemma parse_copyout:
  assumes "d_err dec = None"
  shows "parse he target (dec\<lparr>d_data := encCopyout he co @ rest\<rparr>) =
    parse he target (dec\<lparr>d_data := rest,
      d_call := (d_call dec)\<lparr>ec_Copyout := ec_Copyout (d_call dec) @ [co]\<rparr>\<rparr>)"
  using assms by (intro parse_go) (simp_all add: parseInstr_def decCopyout_def encCopyout_def exec_distinct)

lemma sint_int64: "int64 z \<Longrightarrow> sint (word_of_int z :: uint64) = z"
  by (simp add: int64_def sint_sbintrunc' signed_take_bit_int_eq_self)

lemma parse_props:
  assumes "d_err dec = None" and "ec_Meta (d_call dec) = None" and "ec_Props (d_call dec) = noProps"
    and "int64 (cp_FailNth p)" and "int64 (cp_Rerun p)"
  shows "parse he target (dec\<lparr>d_data := encProps he p @ rest\<rparr>) =
    parse he target (dec\<lparr>d_data := rest, d_call := (d_call dec)\<lparr>ec_Props := p\<rparr>\<rparr>)"
proof (cases "p = noProps")
  case True
  have "(d_call dec)\<lparr>ec_Props := noProps\<rparr> = d_call dec" by (rule ExecCall.equality) (simp_all add: assms(3))
  moreover have "dec\<lparr>d_call := d_call dec\<rparr> = dec" by simp
  ultimately show ?thesis using True by (simp add: encProps_def)
next
  case False
  then show ?thesis using assms
    by (intro parse_go)
      (simp_all add: parseInstr_def readCallProps_def encProps_def propWords_def exec_distinct sint_int64 noProps_def)
qed

lemma readCallArgs_enc:
  assumes "d_err dec = None" and "list_all (\<lambda>a. wireArg a \<and> callArg a) as"
    and "length (concat (map (encArg he) as) @ rest) < 2 ^ 62"
  shows "readCallArgs he (length as) (dec\<lparr>d_data := concat (map (encArg he) as) @ rest\<rparr>) =
    (True, dec\<lparr>d_data := rest, d_vars := fold argVars as (d_vars dec),
       d_call := (d_call dec)\<lparr>ec_Args := ec_Args (d_call dec) @ as\<rparr>\<rparr>)"
  using assms
proof (induction as arbitrary: dec)
  case (Cons a as)
  let ?rest = "concat (map (encArg he) as) @ rest"
  let ?dec = "dec\<lparr>d_data := ?rest, d_vars := argVars a (d_vars dec),
    d_call := (d_call dec)\<lparr>ec_Args := ec_Args (d_call dec) @ [a]\<rparr>\<rparr>"
  have "readArg he (dec\<lparr>d_data := encArg he a @ ?rest\<rparr>) =
    (Some a, dec\<lparr>d_data := ?rest, d_vars := argVars a (d_vars dec)\<rparr>)"
    using Cons.prems by (intro readArg_enc) simp_all
  then have "readCallArgs he (length (a # as)) (dec\<lparr>d_data := encArg he a @ ?rest\<rparr>) =
    readCallArgs he (length as) ?dec"
    using Cons.prems by (cases a) simp_all
  then show ?case using Cons.IH [of ?dec] Cons.prems by simp
qed simp

lemma parse_head:
  assumes "d_err dec = None" and "ec_Meta (d_call dec) = None" and "ec_Args (d_call dec) = []"
    and "wireTarget target m" and "list_all (\<lambda>a. wireArg a \<and> callArg a) as"
    and "length (concat (map (encArg he) as) @ rest) < 2 ^ 62"
  shows "parse he target (dec\<lparr>d_data := wordsOf he [of_nat (sys_ID m), idx, of_nat (length as)] @
      concat (map (encArg he) as) @ rest\<rparr>) =
    parse he target (dec\<lparr>d_data := rest, d_vars := fold argVars as (d_vars dec),
      d_call := (d_call dec)\<lparr>ec_Meta := Some m, ec_Index := idx, ec_Args := as\<rparr>\<rparr>)"
proof -
  let ?id = "of_nat (sys_ID m) :: uint64"
  have id: "unat ?id = sys_ID m" and id63: "sys_ID m < 2 ^ 63"
    using assms(4) by (simp_all add: wireTarget_def unat_of_nat)
  then have "unat ?id < 2 ^ 63" by simp
  moreover have "unat execInstrCopyin \<ge> 2 ^ 63" "unat execInstrCopyout \<ge> 2 ^ 63" "unat execInstrEOF \<ge> 2 ^ 63"
    "unat execInstrSetProps \<ge> 2 ^ 63" by (simp_all add: exec_consts unsigned_minus_1_eq_mask mask_eq_exp_minus_1)
  ultimately have instr: "?id \<noteq> execInstrCopyin" "?id \<noteq> execInstrCopyout" "?id \<noteq> execInstrEOF"
    "?id \<noteq> execInstrSetProps" by (metis not_le)+
  have ok: "\<not> of_nat (length (tgt_Syscalls target)) \<le> ?id" "tgt_Syscalls target ! sys_ID m = m"
    using assms(4) id by (simp_all add: wireTarget_def word_le_nat_alt unat_of_nat)
  let ?dec = "dec\<lparr>d_call := (d_call dec)\<lparr>ec_Meta := Some m, ec_Index := idx\<rparr>\<rparr>"
  have "length as \<le> length (concat (map (encArg he) as))" by (rule length_le_concat) (rule length_encArg)
  then have n: "unat (of_nat (length as) :: uint64) = length as" using assms(6) by (intro unat_of_nat64) simp
  show ?thesis using assms(1-3) instr ok id n readCallArgs_enc [of ?dec as he rest] assms(5,6)
    by (intro parse_go) (simp_all add: parseInstr_def decCall_def)
qed

lemma parse_copyins:
  assumes "d_err dec = None" and "ec_Meta (d_call dec) = None"
    and "list_all (\<lambda>ci. case ci_Arg ci of None \<Rightarrow> False | Some a \<Rightarrow> wireArg a) cis"
    and "length (concat (map (encCopyin he) cis) @ rest) < 2 ^ 62"
  shows "parse he target (dec\<lparr>d_data := concat (map (encCopyin he) cis) @ rest\<rparr>) =
    parse he target (dec\<lparr>d_data := rest,
      d_vars := fold (\<lambda>ci. case ci_Arg ci of None \<Rightarrow> id | Some a \<Rightarrow> argVars a) cis (d_vars dec),
      d_call := (d_call dec)\<lparr>ec_Copyin := ec_Copyin (d_call dec) @ cis\<rparr>\<rparr>)"
  using assms
proof (induction cis arbitrary: dec)
  case (Cons ci cis)
  let ?rest = "concat (map (encCopyin he) cis) @ rest"
  from Cons.prems obtain a where a: "ci_Arg ci = Some a" "wireArg a" by (auto split: option.splits)
  let ?dec = "dec\<lparr>d_vars := argVars a (d_vars dec),
    d_call := (d_call dec)\<lparr>ec_Copyin := ec_Copyin (d_call dec) @ [ci]\<rparr>\<rparr>"
  from Cons.prems parse_copyin [of dec ci a he ?rest target] a
  have "parse he target (dec\<lparr>d_data := encCopyin he ci @ ?rest\<rparr>) = parse he target (?dec\<lparr>d_data := ?rest\<rparr>)"
    by simp
  then show ?case using Cons.IH [of ?dec] Cons.prems a by simp
qed simp

lemma parse_copyouts:
  assumes "d_err dec = None"
  shows "parse he target (dec\<lparr>d_data := concat (map (encCopyout he) cos) @ rest\<rparr>) =
    parse he target (dec\<lparr>d_data := rest,
      d_call := (d_call dec)\<lparr>ec_Copyout := ec_Copyout (d_call dec) @ cos\<rparr>\<rparr>)"
  using assms
proof (induction cos arbitrary: dec)
  case (Cons co cos)
  let ?dec = "dec\<lparr>d_call := (d_call dec)\<lparr>ec_Copyout := ec_Copyout (d_call dec) @ [co]\<rparr>\<rparr>"
  show ?case using Cons.IH [of ?dec] Cons.prems
      parse_copyout [of dec he target co "concat (map (encCopyout he) cos) @ rest"] by simp
qed simp

text \<open>Every instruction that starts a call first commits the previous one.\<close>

lemma parse_commits:
  assumes "d_err dec = None" and "instr \<noteq> execInstrCopyout"
  shows "parse he target (dec\<lparr>d_data := PutUint64 he instr @ rest\<rparr>) =
    parse he target ((commitCall dec)\<lparr>d_data := PutUint64 he instr @ rest\<rparr>)"
  using assms
  by (subst (1 2) parse.simps) (simp add: parseInstr_def decCopyin_def decCall_def Let_def)

lemma encCall_starts:
  assumes "wireCall target c"
  shows "\<exists>instr tail. encCall he c = PutUint64 he instr @ tail \<and> instr \<noteq> execInstrCopyout"
proof (cases "ec_Copyin c")
  case (Cons ci cis)
  then show ?thesis using exec_distinct(7) by (auto simp: encCall_def encCopyin_def)
next
  case Nil
  from assms obtain m where m: "ec_Meta c = Some m" "sys_ID m < 2 ^ 63"
    by (auto simp: wireCall_def wireTarget_def split: option.splits)
  then have "unat (callID c) < 2 ^ 63" by (simp add: callID_def unat_of_nat)
  moreover have "unat execInstrCopyout \<ge> 2 ^ 63" by (simp add: exec_consts)
  ultimately have "callID c \<noteq> execInstrCopyout" by (metis not_le)
  then show ?thesis using Nil exec_distinct(11)
    by (cases "ec_Props c = noProps") (auto simp: encCall_def encProps_def)
qed

lemma parse_call:
  assumes err: "d_err dec = None" and "ec_Meta (d_call dec) = None \<Longrightarrow> d_call dec = noCall"
    and wire: "wireCall target c" and len: "length (encCall he c @ rest) < 2 ^ 62"
  shows "parse he target (dec\<lparr>d_data := encCall he c @ rest\<rparr>) =
    parse he target ((commitCall dec)\<lparr>d_vars := callVars c (d_vars dec), d_call := c, d_data := rest\<rparr>)"
proof -
  let ?dec = "commitCall dec"
  have no: "d_call ?dec = noCall" using assms(2) by (simp add: commitCall_def Let_def)
  from wire obtain m where m: "ec_Meta c = Some m" "wireTarget target m"
    by (auto simp: wireCall_def split: option.splits)
  then have id: "callID c = of_nat (sys_ID m)" by (simp add: callID_def)
  have c: "c = \<lparr>ec_Meta = Some m, ec_Props = ec_Props c, ec_Index = ec_Index c, ec_Args = ec_Args c,
    ec_Copyin = ec_Copyin c, ec_Copyout = ec_Copyout c\<rparr>" using m(1) by simp
  from encCall_starts [OF wire] obtain instr tail
    where "encCall he c = PutUint64 he instr @ tail" "instr \<noteq> execInstrCopyout" by blast
  then have "parse he target (dec\<lparr>d_data := encCall he c @ rest\<rparr>) =
    parse he target (?dec\<lparr>d_data := encCall he c @ rest\<rparr>)"
    using parse_commits [OF err, of instr he target "tail @ rest"] by simp
  also have "\<dots> = parse he target (?dec\<lparr>d_vars := callVars c (d_vars dec),
      d_call := noCall\<lparr>ec_Copyin := ec_Copyin c, ec_Props := ec_Props c, ec_Meta := Some m,
        ec_Index := ec_Index c, ec_Args := ec_Args c, ec_Copyout := ec_Copyout c\<rparr>, d_data := rest\<rparr>)"
    using wire m err no len
    by (simp add: encCall_def wireCall_def id parse_copyins parse_props
        parse_head [of _ _ m, simplified] parse_copyouts callVars_def noCall_def)
  also have "noCall\<lparr>ec_Copyin := ec_Copyin c, ec_Props := ec_Props c, ec_Meta := Some m,
        ec_Index := ec_Index c, ec_Args := ec_Args c, ec_Copyout := ec_Copyout c\<rparr> = c"
    by (subst (6) c) (simp add: noCall_def)
  finally show ?thesis .
qed

subsection \<open>Reading a program\<close>

lemma commitCall_closes:
  assumes "ec_Meta c = Some m"
  shows "commitCall (dec\<lparr>d_vars := vars, d_call := c, d_data := rest\<rparr>) =
    dec\<lparr>d_vars := vars, d_numVars := callNumVars c (d_numVars dec), d_calls := d_calls dec @ [c],
      d_call := noCall, d_data := rest\<rparr>"
proof -
  have nv: "(\<lambda>co. maxVar (co_Index co)) = (\<lambda>co nv. if nv < co_Index co + 1 then co_Index co + 1 else nv)"
    by (simp add: fun_eq_iff maxVar_def)
  show ?thesis using assms unfolding callNumVars_def nv by (simp add: commitCall_def maxVar_def Let_def)
qed

lemma parse_calls:
  assumes "d_err dec = None" and "ec_Meta (d_call dec) = None \<Longrightarrow> d_call dec = noCall"
    and "list_all (wireCall target) cs" and "length (encProg he cs) < 2 ^ 62"
  shows "parse he target (dec\<lparr>d_data := encProg he cs\<rparr>) =
    (commitCall dec)\<lparr>d_vars := fold callVars cs (d_vars dec),
      d_numVars := fold callNumVars cs (d_numVars (commitCall dec)),
      d_calls := d_calls (commitCall dec) @ cs, d_call := noCall, d_data := []\<rparr>"
  using assms
proof (induction cs arbitrary: dec)
  case Nil
  have call: "d_call (commitCall dec) = noCall" using Nil.prems(2) by (simp add: commitCall_def Let_def)
  have "parse he target (dec\<lparr>d_data := wordsOf he [execInstrEOF] @ []\<rparr>) = (commitCall dec)\<lparr>d_data := []\<rparr>"
    using Nil.prems by (intro parse_stop) (simp_all add: parseInstr_def exec_distinct dread_put [where rest = "[]", simplified])
  moreover have "(commitCall dec)\<lparr>d_vars := d_vars dec, d_call := noCall\<rparr> = commitCall dec"
    by (rule execDecoder.equality) (simp_all add: call)
  ultimately show ?case by (simp add: encProg_def call [symmetric])
next
  case (Cons c cs)
  let ?rest = "encProg he cs"
  let ?dec = "(commitCall dec)\<lparr>d_vars := callVars c (d_vars dec), d_call := c\<rparr>"
  from Cons.prems(3) obtain m where m: "ec_Meta c = Some m"
    by (auto simp: wireCall_def split: option.splits)
  have "parse he target (dec\<lparr>d_data := encCall he c @ ?rest\<rparr>) = parse he target (?dec\<lparr>d_data := ?rest\<rparr>)"
    using Cons.prems by (subst parse_call) (simp_all add: encProg_def)
  also have "\<dots> = (commitCall ?dec)\<lparr>d_vars := fold callVars cs (d_vars ?dec),
      d_numVars := fold callNumVars cs (d_numVars (commitCall ?dec)),
      d_calls := d_calls (commitCall ?dec) @ cs, d_call := noCall, d_data := []\<rparr>"
    using Cons.prems m by (intro Cons.IH) (simp_all add: encProg_def)
  finally show ?case
    using commitCall_closes [OF m, where dec = "commitCall dec" and vars = "callVars c (d_vars dec)"
        and rest = "d_data (commitCall dec)"]
    by (simp add: encProg_def)
qed

text \<open>What the decoder returns for the encoding of a program.\<close>

definition decoded :: "ExecCall list \<Rightarrow> derr + ExecProg" where
  "decoded cs =
     (let vars = fold callVars cs []; nv = fold callNumVars cs 0 in
      if of_nat (length vars) \<noteq> nv then Inl (EVars (length vars) nv)
      else Inr \<lparr>ep_Calls = cs, ep_Vars = vars\<rparr>)"

lemma DeserializeExec_encProg:
  assumes "list_all (wireCall target) cs" and "length (encProg he cs) < 2 ^ 62"
  shows "DeserializeExec he target (encProg he cs) = decoded cs"
proof -
  let ?dec = "\<lparr>d_data = [], d_err = None, d_numVars = 0, d_vars = [], d_call = noCall, d_calls = []\<rparr>"
  have "commitCall ?dec = ?dec" by (simp add: commitCall_def noCall_def)
  then show ?thesis using parse_calls [of ?dec target cs he] assms
    by (simp add: DeserializeExec_def decoderOf_def decoded_def Let_def)
qed

text \<open>
  The argument loop does not look at the error: once the stream has run out, a call of \<open>n\<close> arguments
  still gets \<open>n\<close> zero constants.
\<close>

lemma readCallArgs_after_error:
  assumes "d_err dec = Some e"
  shows "readCallArgs he n dec =
    (True, dec\<lparr>d_call := (d_call dec)\<lparr>ec_Args := ec_Args (d_call dec) @ replicate n (ExecArgConst 0 0 0 0 0 0)\<rparr>\<rparr>)"
  using assms
proof (induction n arbitrary: dec)
  case (Suc n)
  have r: "dread he dec = (0, dec)" using Suc.prems by (simp add: dread_def setErr_def)
  have "readArg he dec = (Some (ExecArgConst 0 0 0 0 0 0), dec)"
    by (simp add: readArg_def r execArgConst_def)
  then show ?case using Suc.IH [of "dec\<lparr>d_call := (d_call dec)\<lparr>ec_Args := ec_Args (d_call dec) @ [ExecArgConst 0 0 0 0 0 0]\<rparr>\<rparr>"] Suc.prems
    by simp
qed simp

end
