(* ===== verification/ExecLower.thy ===== *)
theory ExecLower
  imports ExecEnc ExecWire
begin

text \<open>
  What the serialization computes, without the buffer: a reference definition that turns each call
  into the \<open>ExecCall\<close> the executor is to see, with the addresses and the copyout indexes of its
  arguments. \<open>SerializeForExec_lower\<close> shows that the serializer writes the encoding of these calls
  whenever it fits, and reports an error exactly when it does not.
\<close>

fun lowerArg :: "Type list \<Rightarrow> heap \<Rightarrow> Target \<Rightarrow> argInfos \<Rightarrow> Arg \<Rightarrow> ExecArg option" where
  "lowerArg tt h target args (ConstArg c v) = do {
     typ \<leftarrow> typeAt tt (arg_ref c);
     (val, pidStride) \<leftarrow> ConstArg_Value typ v;
     us \<leftarrow> UnitSize typ;
     Some (ExecArgConst us (formatNum (Format typ)) val (BitfieldOffset typ) (BitfieldLength typ) pidStride)
   }"
| "lowerArg tt h target args (ResultArg p) = do {
     a \<leftarrow> h p;
     typ \<leftarrow> typeAt tt (ro_ref a);
     sz \<leftarrow> Size typ;
     case ro_Res a of
       None \<Rightarrow> Some (ExecArgConst sz (formatNum (Format typ)) (ro_Val a) 0 0 0)
     | Some q \<Rightarrow> do {
         info \<leftarrow> args (Inl q);
         dflt \<leftarrow> (case typ of ResourceType _ _ d \<Rightarrow> ResourceDefault d | _ \<Rightarrow> None);
         Some (ExecArgResult sz (formatNum (Format typ)) (ai_Idx info) (ro_OpDiv a) (ro_OpAdd a) dflt)
       }
   }"
| "lowerArg tt h target args (PointerArg c addr vma res) = do {
     sz \<leftarrow> argSize tt h (PointerArg c addr vma res);
     pa \<leftarrow> PhysicalAddr target (PointerArg c addr vma res);
     Some (ExecArgConst sz (formatNum FormatNative) pa 0 0 0)
   }"
| "lowerArg tt h target args (DataArg c d osz) = do {
     dat \<leftarrow> DataArg_Data (DataArg c d osz);
     typ \<leftarrow> typeAt tt (arg_ref c);
     readable \<leftarrow> (case typ of BufferType _ k _ _ _ _ _ _ \<Rightarrow> Some (isReadableDataType k) | _ \<Rightarrow> None);
     Some (ExecArgData dat readable)
   }"
| "lowerArg tt h target args (UnionArg c opt i) = lowerArg tt h target args opt"
| "lowerArg tt h target args (GroupArg c inner) = None"

text \<open>The addresses recorded by a copyin and the copyin itself, if there is one.\<close>

definition noteAddr :: "heap \<Rightarrow> csums \<Rightarrow> Arg \<Rightarrow> uint64 \<Rightarrow> argInfos \<Rightarrow> argInfos" where
  "noteAddr h cs arg addr args =
     (if willBeUsed h (fst cs) (snd cs) arg then args(argKey arg \<mapsto> noInfo\<lparr>ai_Addr := addr\<rparr>) else args)"

definition lowerCopyin ::
  "Type list \<Rightarrow> heap \<Rightarrow> Target \<Rightarrow> csums \<Rightarrow> Arg \<Rightarrow> ArgCtx \<Rightarrow> argInfos \<Rightarrow> (ExecCopyin list \<times> argInfos) option" where
  "lowerCopyin tt h target cs arg ctx args =
     (case ctx_Base ctx of
        None \<Rightarrow> Some ([], args)
      | Some base \<Rightarrow> do {
          pa \<leftarrow> PhysicalAddr target base;
          typ \<leftarrow> argType tt h arg;
          let addr = pa + ctx_Offset ctx - UnitOffset typ;
          let args = noteAddr h cs arg addr args;
          if isGroupOrUnion arg then Some ([], args)
          else do {
            skip \<leftarrow> skipCopyin tt h typ arg;
            if skip then Some ([], args)
            else do {
              e \<leftarrow> lowerArg tt h target args arg;
              Some ([\<lparr>ci_Addr = addr, ci_Arg = Some e\<rparr>], args)
            }
          }
        })"

fun lowerCopyins ::
  "Type list \<Rightarrow> heap \<Rightarrow> Target \<Rightarrow> csums \<Rightarrow> (Arg \<times> ArgCtx) list \<Rightarrow> argInfos \<Rightarrow>
   (ExecCopyin list \<times> argInfos) option" where
  "lowerCopyins tt h target cs [] args = Some ([], args)"
| "lowerCopyins tt h target cs ((arg, ctx) # vs) args = do {
     (cis, args) \<leftarrow> lowerCopyin tt h target cs arg ctx args;
     (cis', args) \<leftarrow> lowerCopyins tt h target cs vs args;
     Some (cis @ cis', args)
   }"

fun lowerChunk :: "Type list \<Rightarrow> heap \<Rightarrow> argInfos \<Rightarrow> CsumChunk \<Rightarrow> ExecCsumChunk option" where
  "lowerChunk tt h args (CsumChunkArg arg) = do {
     sz \<leftarrow> argSize tt h arg;
     Some \<lparr>ch_Kind = ExecArgCsumChunkData, ch_Value = ai_Addr (infoOf args arg), ch_Size = sz\<rparr>
   }"
| "lowerChunk tt h args (CsumChunkConst v sz) =
     Some \<lparr>ch_Kind = ExecArgCsumChunkConst, ch_Value = v, ch_Size = sz\<rparr>"

fun lowerChunks :: "Type list \<Rightarrow> heap \<Rightarrow> argInfos \<Rightarrow> CsumChunk list \<Rightarrow> ExecCsumChunk list option" where
  "lowerChunks tt h args [] = Some []"
| "lowerChunks tt h args (c # cs) = do {
     e \<leftarrow> lowerChunk tt h args c;
     es \<leftarrow> lowerChunks tt h args cs;
     Some (e # es)
   }"

definition lowerChecksum :: "Type list \<Rightarrow> heap \<Rightarrow> argInfos \<Rightarrow> Arg \<times> CsumInfo \<Rightarrow> ExecCopyin option" where
  "lowerChecksum tt h args e = do {
     let (arg, info) = e;
     typ \<leftarrow> argType tt h arg;
     (case typ of CsumType _ _ _ _ \<Rightarrow> Some () | _ \<Rightarrow> None);
     sz \<leftarrow> argSize tt h arg;
     if csi_Kind info = CsumInet
     then do {
       chunks \<leftarrow> lowerChunks tt h args (csi_Chunks info);
       Some \<lparr>ci_Addr = ai_Addr (infoOf args arg), ci_Arg = Some (ExecArgCsum sz ExecArgCsumInet chunks)\<rparr>
     }
     else None
   }"

fun lowerChecksums :: "Type list \<Rightarrow> heap \<Rightarrow> argInfos \<Rightarrow> csumMap \<Rightarrow> ExecCopyin list option" where
  "lowerChecksums tt h args [] = Some []"
| "lowerChecksums tt h args (e # es) = do {
     ci \<leftarrow> lowerChecksum tt h args e;
     cis \<leftarrow> lowerChecksums tt h args es;
     Some (ci # cis)
   }"

definition lowerRet :: "heap \<Rightarrow> Call \<Rightarrow> argInfos \<Rightarrow> uint64 \<Rightarrow> (uint64 \<times> argInfos \<times> uint64) option" where
  "lowerRet h c args seq =
     (case call_Ret c of
        None \<Rightarrow> Some (ExecNoCopyout, args, seq)
      | Some p \<Rightarrow> do {
          ret \<leftarrow> h p;
          if ro_uses ret = {} then Some (ExecNoCopyout, args, seq)
          else if args (Inl p) \<noteq> None then None
          else Some (seq, args(Inl p \<mapsto> \<lparr>ai_Addr = 0, ai_Idx = seq, ai_Ret = True\<rparr>), seq + 1)
        })"

fun lowerArgs :: "Type list \<Rightarrow> heap \<Rightarrow> Target \<Rightarrow> argInfos \<Rightarrow> Arg list \<Rightarrow> ExecArg list option" where
  "lowerArgs tt h target args [] = Some []"
| "lowerArgs tt h target args (a # as) = do {
     e \<leftarrow> lowerArg tt h target args a;
     es \<leftarrow> lowerArgs tt h target args as;
     Some (e # es)
   }"

definition lowerCopyout ::
  "Type list \<Rightarrow> heap \<Rightarrow> Arg \<Rightarrow> argInfos \<Rightarrow> uint64 \<Rightarrow> (ExecCopyout list \<times> argInfos \<times> uint64) option" where
  "lowerCopyout tt h arg args seq =
     (case arg of
        ResultArg p \<Rightarrow> do {
          res \<leftarrow> h p;
          let info = infoOf args arg;
          if ro_uses res = {} \<or> ai_Ret info then Some ([], args, seq)
          else do {
            sz \<leftarrow> argSize tt h arg;
            Some ([\<lparr>co_Index = seq, co_Addr = ai_Addr info, co_Size = sz\<rparr>],
                  args(argKey arg \<mapsto> info\<lparr>ai_Idx := seq\<rparr>), seq + 1)
          }
        }
      | _ \<Rightarrow> Some ([], args, seq))"

fun lowerCopyouts ::
  "Type list \<Rightarrow> heap \<Rightarrow> (Arg \<times> ArgCtx) list \<Rightarrow> argInfos \<Rightarrow> uint64 \<Rightarrow>
   (ExecCopyout list \<times> argInfos \<times> uint64) option" where
  "lowerCopyouts tt h [] args seq = Some ([], args, seq)"
| "lowerCopyouts tt h ((arg, ctx) # vs) args seq = do {
     (cos, args, seq) \<leftarrow> lowerCopyout tt h arg args seq;
     (cos', args, seq) \<leftarrow> lowerCopyouts tt h vs args seq;
     Some (cos @ cos', args, seq)
   }"

definition lowerCall ::
  "(csumMap \<Rightarrow> csumMap) \<Rightarrow> Type list \<Rightarrow> heap \<Rightarrow> Target \<Rightarrow> Call \<Rightarrow> argInfos \<Rightarrow> uint64 \<Rightarrow>
   (ExecCall \<times> argInfos \<times> uint64) option" where
  "lowerCall iter tt h target c args seq = do {
     cs \<leftarrow> calcChecksumsCall tt h c;
     vs \<leftarrow> callVisits tt (argSize tt h) c;
     (cis, args) \<leftarrow> lowerCopyins tt h target cs vs args;
     sums \<leftarrow> lowerChecksums tt h args (if fst cs = [] then [] else csumOrder iter args (fst cs));
     (idx, args, seq) \<leftarrow> lowerRet h c args seq;
     es \<leftarrow> lowerArgs tt h target args (call_Args c);
     (cos, args, seq) \<leftarrow> lowerCopyouts tt h vs args seq;
     Some (\<lparr>ec_Meta = Some (call_Meta c), ec_Props = call_Props c, ec_Index = idx, ec_Args = es,
            ec_Copyin = cis @ sums, ec_Copyout = cos\<rparr>, args, seq)
   }"

fun lowerCalls ::
  "(csumMap \<Rightarrow> csumMap) \<Rightarrow> Type list \<Rightarrow> heap \<Rightarrow> Target \<Rightarrow> Call list \<Rightarrow> argInfos \<Rightarrow> uint64 \<Rightarrow>
   (ExecCall list \<times> argInfos \<times> uint64) option" where
  "lowerCalls iter tt h target [] args seq = Some ([], args, seq)"
| "lowerCalls iter tt h target (c # cs) args seq = do {
     (e, args, seq) \<leftarrow> lowerCall iter tt h target c args seq;
     (es, args, seq) \<leftarrow> lowerCalls iter tt h target cs args seq;
     Some (e # es, args, seq)
   }"

definition lowerProg ::
  "(csumMap \<Rightarrow> csumMap) \<Rightarrow> Type list \<Rightarrow> heap \<Rightarrow> Target \<Rightarrow> Call list \<Rightarrow> (ExecCall list \<times> uint64) option" where
  "lowerProg iter tt h target calls =
     map_option (\<lambda>(es, _, seq). (es, seq)) (lowerCalls iter tt h target calls Map.empty 0)"

text \<open>
  The one thing the format cannot carry is an empty buffer: nothing is written for it. A buffer that
  is passed to the kernel and has no data has no size either, so its copyin is skipped; call arguments
  are never buffers.
\<close>

fun emptyData :: "Arg \<Rightarrow> bool" where
  "emptyData (DataArg c d osz) = (arg_dir c \<noteq> DirOut \<and> d = [])"
| "emptyData (UnionArg c opt i) = emptyData opt"
| "emptyData _ = False"

fun scalarArg :: "Arg \<Rightarrow> bool" where
  "scalarArg (DataArg c d osz) = False"
| "scalarArg (UnionArg c opt i) = scalarArg opt"
| "scalarArg _ = True"

definition dataOk :: "Type list \<Rightarrow> Arg \<Rightarrow> bool" where
  "dataOk tt a =
     (case a of
        DataArg c d osz \<Rightarrow>
          arg_dir c \<noteq> DirOut \<and> d = [] \<longrightarrow>
          osz = 0 \<and> (case typeAt tt (arg_ref c) of Some t \<Rightarrow> \<not> IsBitfield t | None \<Rightarrow> True)
      | _ \<Rightarrow> True)"

definition callOk :: "Type list \<Rightarrow> heap \<Rightarrow> Call \<Rightarrow> bool" where
  "callOk tt h c \<longleftrightarrow> list_all scalarArg (call_Args c) \<and>
     (case callVisits tt (argSize tt h) c of None \<Rightarrow> True | Some vs \<Rightarrow> list_all (\<lambda>(a, _). dataOk tt a) vs)"

subsection \<open>Writing to a bounded buffer\<close>

text \<open>
  \<open>emits w bs w'\<close>: from \<open>w\<close>, the bytes \<open>bs\<close> were written and led to \<open>w'\<close>; if they did not fit, the
  end of the buffer is noted and what the buffer holds no longer matters.
\<close>

definition emits :: "execContext \<Rightarrow> byte list \<Rightarrow> execContext \<Rightarrow> bool" where
  "emits w bs w' \<longleftrightarrow> (w_eof w' \<longleftrightarrow> w_eof w \<or> w_room w < length bs) \<and>
     (\<not> w_eof w' \<longrightarrow> w_out w' = w_out w @ bs \<and> w_room w' = w_room w - length bs)"

definition ctxOf :: "execContext \<Rightarrow> argInfos \<times> uint64 \<times> csums" where
  "ctxOf w = (w_args w, w_copyoutSeq w, w_csumMap w, w_csumUses w)"

lemma emits_refl [simp]: "emits w [] w"
  by (simp add: emits_def)

lemma emits_trans: "emits w a w1 \<Longrightarrow> emits w1 b w2 \<Longrightarrow> emits w (a @ b) w2"
  by (auto simp: emits_def)

lemma emits_upd [simp]:
  "emits (w\<lparr>w_args := m\<rparr>) bs w' = emits w bs w'" "emits w bs (w'\<lparr>w_args := m\<rparr>) = emits w bs w'"
  "emits (w\<lparr>w_copyoutSeq := s\<rparr>) bs w' = emits w bs w'" "emits w bs (w'\<lparr>w_copyoutSeq := s\<rparr>) = emits w bs w'"
  "emits (w\<lparr>w_csumMap := cm\<rparr>) bs w' = emits w bs w'" "emits (w\<lparr>w_csumUses := cu\<rparr>) bs w' = emits w bs w'"
  by (simp_all add: emits_def)

lemma w_write_emits: "emits w (PutUint64 he v) (w_write he v w)"
  by (auto simp: emits_def w_write_def host.length_put)

lemma w_write_ctx [simp]:
  "w_args (w_write he v w) = w_args w" "w_copyoutSeq (w_write he v w) = w_copyoutSeq w"
  "w_csumMap (w_write he v w) = w_csumMap w" "w_csumUses (w_write he v w) = w_csumUses w"
  by (simp_all add: w_write_def)

lemma w_write_args: "w_write he v (w\<lparr>w_args := m\<rparr>) = (w_write he v w)\<lparr>w_args := m\<rparr>"
  by (simp add: w_write_def)

lemma fold_w_write: "emits w (wordsOf he vs) (fold (w_write he) vs w) \<and> ctxOf (fold (w_write he) vs w) = ctxOf w"
proof (induction vs arbitrary: w)
  case (Cons v vs)
  show ?case using emits_trans [OF w_write_emits] Cons [of "w_write he v w"] by (simp add: ctxOf_def)
qed simp

lemma writeBlob_emits: "emits w (blobBytes d) (writeBlob d w) \<and> ctxOf (writeBlob d w) = ctxOf w"
proof -
  have "(if 8 - length d mod 8 \<noteq> 8 then length d + (8 - length d mod 8) else length d) = length d + padLen (length d)"
    by (auto simp: padLen_def)
  then have "writeBlob d w = (if w_room w < length (blobBytes d) then w\<lparr>w_eof := True\<rparr>
      else w\<lparr>w_out := w_out w @ blobBytes d, w_room := w_room w - length (blobBytes d)\<rparr>)"
    unfolding writeBlob_def Let_def by (simp add: blobBytes_def)
  then show ?thesis by (auto simp: emits_def ctxOf_def)
qed

text \<open>
  \<open>impl r w l\<close>: the step \<open>r\<close> of the serializer from \<open>w\<close> implements \<open>l\<close>: it panics when \<open>l\<close> does, and
  otherwise writes the bytes and leaves the tables that \<open>l\<close> says.
\<close>

definition impl ::
  "execContext option \<Rightarrow> execContext \<Rightarrow> (byte list \<times> argInfos \<times> uint64 \<times> csums) option \<Rightarrow> bool" where
  "impl r w l =
     (case l of
        None \<Rightarrow> r = None
      | Some (bs, k) \<Rightarrow> (case r of None \<Rightarrow> False | Some w' \<Rightarrow> emits w bs w' \<and> ctxOf w' = k))"

lemma impl_None [simp]: "impl None w None"
  by (simp add: impl_def)

lemma impl_Some: "emits w bs w' \<Longrightarrow> ctxOf w' = k \<Longrightarrow> impl (Some w') w (Some (bs, k))"
  by (simp add: impl_def)

lemma impl_emit: "emits w bs w1 \<Longrightarrow> ctxOf w1 = k \<Longrightarrow>
    impl r w1 (map_option (\<lambda>e. (f e, g e)) l) \<Longrightarrow> impl r w (map_option (\<lambda>e. (bs @ f e, g e)) l)"
  by (cases l; cases r) (auto simp: impl_def intro: emits_trans)

lemma impl_fail: "impl r w None \<Longrightarrow> impl (Option.bind r f) w None"
  by (simp add: impl_def)

lemma impl_then_fail:
  "impl r w (Some (a, k)) \<Longrightarrow> (\<And>w'. ctxOf w' = k \<Longrightarrow> impl (f w') w' None) \<Longrightarrow> impl (Option.bind r f) w None"
  by (auto simp: impl_def split: option.splits)

lemma impl_SomeE:
  assumes "impl r w (Some (bs, k))"
  obtains w' where "r = Some w'" and "emits w bs w'" and "ctxOf w' = k"
  using assms by (auto simp: impl_def split: option.splits)

lemma impl_then:
  assumes "impl r w (Some (a, k))" and "\<And>w'. ctxOf w' = k \<Longrightarrow> impl (f w') w' (Some (b, k'))"
  shows "impl (Option.bind r f) w (Some (a @ b, k'))"
proof -
  from assms(1) obtain w' where w': "r = Some w'" "emits w a w'" "ctxOf w' = k" by (rule impl_SomeE)
  from assms(2) [OF w'(3)] obtain w'' where "f w' = Some w''" "emits w' b w''" "ctxOf w'' = k'" by (rule impl_SomeE)
  then show ?thesis using w' emits_trans [OF w'(2)] by (simp add: impl_Some)
qed

text \<open>Two steps one after the other.\<close>

lemma impl_seq:
  assumes "impl r w (map_option F l)"
    and "\<And>x w'. l = Some x \<Longrightarrow> ctxOf w' = snd (F x) \<Longrightarrow> impl (f w') w' (map_option (G x) (m x))"
    and "L = Option.bind l (\<lambda>x. map_option (\<lambda>y. (fst (F x) @ fst (G x y), snd (G x y))) (m x))"
  shows "impl (Option.bind r f) w L"
proof (cases l)
  case None
  then show ?thesis using assms(1,3) by (simp add: impl_fail)
next
  case (Some x)
  then have hd: "impl r w (Some (fst (F x), snd (F x)))" using assms(1) by simp
  show ?thesis
  proof (cases "m x")
    case None
    then show ?thesis using assms(2) [OF Some] assms(3) Some by (auto intro!: impl_then_fail [OF hd])
  next
    case (Some y)
    then have "impl (Option.bind r f) w (Some (fst (F x) @ fst (G x y), snd (G x y)))"
      using assms(2) [OF \<open>l = Some x\<close>] by (intro impl_then [OF hd]) simp
    then show ?thesis using assms(3) Some \<open>l = Some x\<close> by simp
  qed
qed

lemma impl_words: "impl (Some (fold (w_write he) vs w)) w (Some (wordsOf he vs, ctxOf w))"
  using fold_w_write [of w he vs] by (auto intro: impl_Some)

subsection \<open>The serializer implements the reference definition\<close>

lemma writeConstArg_fold:
  "writeConstArg he sz val off len stride bf w =
   fold (w_write he) [execArgConst, constMeta sz (formatNum bf) off len stride, val] w"
  by (simp add: writeConstArg_def constMeta_def)

lemma impl_const:
  "impl (Some (writeConstArg he sz val off len stride bf w)) w
     (Some (encArg he (ExecArgConst sz (formatNum bf) val off len stride), ctxOf w))"
  unfolding writeConstArg_fold encArg.simps by (rule impl_words)

lemma impl_data:
  assumes "flags = dataFlags d readable"
  shows "impl (Some (writeBlob d (w_write he flags (w_write he execArgData w)))) w
     (Some (encArg he (ExecArgData d readable), ctxOf w))"
proof -
  have "emits w (wordsOf he [execArgData, flags]) (w_write he flags (w_write he execArgData w))"
    using fold_w_write [of w he "[execArgData, flags]"] by simp
  from emits_trans [OF this] writeBlob_emits [of "w_write he flags (w_write he execArgData w)" d]
  have "emits w (wordsOf he [execArgData, flags] @ blobBytes d) (writeBlob d (w_write he flags (w_write he execArgData w)))"
    "ctxOf (writeBlob d (w_write he flags (w_write he execArgData w))) = ctxOf w"
    by (simp_all add: ctxOf_def)
  then show ?thesis unfolding encArg.simps assms by (rule impl_Some)
qed

lemma writeArg_impl:
  "\<not> emptyData a \<Longrightarrow>
   impl (writeArg he tt h target a w) w
     (map_option (\<lambda>e. (encArg he e, ctxOf w)) (lowerArg tt h target (w_args w) a))"
proof (induction a)
  case (ConstArg c v)
  show ?case by (auto simp: impl_const simp del: encArg.simps split: bind_split)
next
  case (PointerArg c addr vma res)
  show ?case by (auto simp: impl_const simp del: encArg.simps split: bind_split)
next
  case (DataArg c d osz)
  then show ?case
    by (auto simp: DataArg_Data_def dataFlags_def impl_data Let_def simp del: encArg.simps split: bind_split Type.splits)
next
  case (ResultArg p)
  have "impl (Some (fold (w_write he) [execArgResult, sz OR push_bit 8 f, idx, dv, ad, df] w)) w
    (Some (encArg he (ExecArgResult sz f idx dv ad df), ctxOf w))" for sz f idx dv ad df
    unfolding encArg.simps by (rule impl_words)
  then have res: "impl (Some (w_write he df (w_write he ad (w_write he dv (w_write he idx
      (w_write he (sz OR push_bit 8 f) (w_write he execArgResult w))))))) w
    (Some (encArg he (ExecArgResult sz f idx dv ad df), ctxOf w))" for sz f idx dv ad df by simp
  show ?case by (auto simp: impl_const res simp del: encArg.simps split: bind_split option.splits)
qed simp_all

lemma copyinArg_impl:
  assumes "dataOk tt arg"
  shows "impl (copyinArg he tt h target arg ctx w) w
    (map_option (\<lambda>(cis, args). (concat (map (encCopyin he) cis), args, w_copyoutSeq w, w_csumMap w, w_csumUses w))
      (lowerCopyin tt h target (w_csumMap w, w_csumUses w) arg ctx (w_args w)))"
proof (cases "ctx_Base ctx")
  case None
  then show ?thesis by (simp add: copyinArg_def lowerCopyin_def impl_def ctxOf_def)
next
  case (Some base)
  show ?thesis
  proof (cases "PhysicalAddr target base = None \<or> argType tt h arg = None")
    case True
    then show ?thesis using Some by (auto simp: copyinArg_def lowerCopyin_def split: bind_split)
  next
    case False
    then obtain pa ty where pt: "PhysicalAddr target base = Some pa" "argType tt h arg = Some ty" by auto
    define addr where "addr = pa + ctx_Offset ctx - UnitOffset ty"
    define w1 where "w1 = (if willBeUsed h (w_csumMap w) (w_csumUses w) arg
      then w\<lparr>w_args := (w_args w)(argKey arg \<mapsto> noInfo\<lparr>ai_Addr := addr\<rparr>)\<rparr> else w)"
    have w1: "w_args w1 = noteAddr h (w_csumMap w, w_csumUses w) arg addr (w_args w)"
      "w_copyoutSeq w1 = w_copyoutSeq w" "w_csumMap w1 = w_csumMap w" "w_csumUses w1 = w_csumUses w"
      "emits w bs w' = emits w1 bs w'" for bs w'
      by (simp_all add: w1_def noteAddr_def)
    have same: "impl r w l = impl r w1 l" for r l by (simp add: impl_def w1(5) split: option.splits)
    have code: "copyinArg he tt h target arg ctx w =
      (if isGroupOrUnion arg then Some w1
       else Option.bind (skipCopyin tt h ty arg) (\<lambda>skip. if skip then Some w1
         else writeArg he tt h target arg (w_write he addr (w_write he execInstrCopyin w1))))"
      unfolding copyinArg_def addr_def w1_def Let_def by (simp only: Some pt option.case bind.bind_lunit)
    have spec: "lowerCopyin tt h target (w_csumMap w, w_csumUses w) arg ctx (w_args w) =
      (if isGroupOrUnion arg then Some ([], w_args w1)
       else Option.bind (skipCopyin tt h ty arg) (\<lambda>skip. if skip then Some ([], w_args w1)
         else map_option (\<lambda>e. ([\<lparr>ci_Addr = addr, ci_Arg = Some e\<rparr>], w_args w1)) (lowerArg tt h target (w_args w1) arg)))"
      unfolding lowerCopyin_def w1(1) addr_def Let_def map_conv_bind_option comp_def
      by (simp only: Some pt option.case bind.bind_lunit)
    have none: "impl (Some w1) w1 (Some ([], w_args w1, w_copyoutSeq w, w_csumMap w, w_csumUses w))"
      by (rule impl_Some) (simp_all add: ctxOf_def w1(2-4))
    show ?thesis
    proof (cases "\<not> isGroupOrUnion arg \<and> skipCopyin tt h ty arg = Some False")
      case False
      then show ?thesis unfolding same code spec using none by (cases "skipCopyin tt h ty arg") auto
    next
      case True
      have "\<not> emptyData arg"
        using True assms pt by (cases arg) (auto simp: dataOk_def skipCopyin_def isGroupOrUnion_def argType_def split: if_splits)
      then have "impl (writeArg he tt h target arg (w_write he addr (w_write he execInstrCopyin w1)))
        (w_write he addr (w_write he execInstrCopyin w1))
        (map_option (\<lambda>e. (encArg he e, ctxOf w1)) (lowerArg tt h target (w_args w1) arg))"
        using writeArg_impl [of arg he tt h target "w_write he addr (w_write he execInstrCopyin w1)"]
        by (simp add: ctxOf_def)
      from impl_emit [OF _ refl this, of w1 "wordsOf he [execInstrCopyin, addr]"]
        fold_w_write [of w1 he "[execInstrCopyin, addr]"]
      show ?thesis using True unfolding same code spec
        by (cases "lowerArg tt h target (w_args w1) arg") (simp_all add: encCopyin_def ctxOf_def w1(2-4))
    qed
  qed
qed

lemma copyins_impl:
  "list_all (\<lambda>(a, _). dataOk tt a) vs \<Longrightarrow>
   impl (runVisits (copyinArg he tt h target) vs w) w
     (map_option (\<lambda>(cis, args). (concat (map (encCopyin he) cis), args, w_copyoutSeq w, w_csumMap w, w_csumUses w))
       (lowerCopyins tt h target (w_csumMap w, w_csumUses w) vs (w_args w)))"
proof (induction vs arbitrary: w)
  case Nil
  show ?case by (simp add: impl_def ctxOf_def)
next
  case (Cons v vs)
  obtain a ctx where v: "v = (a, ctx)" by (cases v)
  have a: "dataOk tt a" and vs: "list_all (\<lambda>(a, _). dataOk tt a) vs" using Cons.prems v by simp_all
  have tl: "impl (runVisits (copyinArg he tt h target) vs w') w'
      (map_option (\<lambda>(cis, args). (concat (map (encCopyin he) cis), args, w_copyoutSeq w, w_csumMap w, w_csumUses w))
        (lowerCopyins tt h target (w_csumMap w, w_csumUses w) vs args))"
    if "ctxOf w' = (args, w_copyoutSeq w, w_csumMap w, w_csumUses w)" for w' args
    using Cons.IH [OF vs, of w'] that by (simp add: ctxOf_def)
  show ?case unfolding v runVisits.simps
    by (rule impl_seq [OF copyinArg_impl [OF a],
          where m = "\<lambda>x. lowerCopyins tt h target (w_csumMap w, w_csumUses w) vs (snd x)"], rule tl)
      (auto split: bind_split)
qed

lemma writeChunks_impl:
  "impl (writeChunks he tt h cs w) w
     (map_option (\<lambda>es. (concat (map (\<lambda>c. wordsOf he [ch_Kind c, ch_Value c, ch_Size c]) es), ctxOf w))
       (lowerChunks tt h (w_args w) cs))"
proof (induction he tt h cs w rule: writeChunks.induct)
  case (1 he tt h w)
  show ?case by (simp add: impl_def)
next
  case (2 he tt h arg cs w)
  show ?case
  proof (cases "argSize tt h arg")
    case (Some sz)
    let ?vs = "[ExecArgCsumChunkData, ai_Addr (infoOf (w_args w) arg), sz]"
    from "2.IH" [OF Some refl refl]
    have "impl (writeChunks he tt h cs (fold (w_write he) ?vs w)) (fold (w_write he) ?vs w)
      (map_option (\<lambda>es. (concat (map (\<lambda>c. wordsOf he [ch_Kind c, ch_Value c, ch_Size c]) es), ctxOf w))
        (lowerChunks tt h (w_args w) cs))" by (simp add: ctxOf_def)
    from impl_emit [OF _ refl this, of w "wordsOf he ?vs"] fold_w_write [of w he ?vs]
    show ?thesis using Some by (cases "lowerChunks tt h (w_args w) cs") simp_all
  qed simp
next
  case (3 he tt h v sz cs w)
  let ?vs = "[ExecArgCsumChunkConst, v, sz]"
  from 3
  have "impl (writeChunks he tt h cs (fold (w_write he) ?vs w)) (fold (w_write he) ?vs w)
    (map_option (\<lambda>es. (concat (map (\<lambda>c. wordsOf he [ch_Kind c, ch_Value c, ch_Size c]) es), ctxOf w))
      (lowerChunks tt h (w_args w) cs))" by (simp add: ctxOf_def)
  from impl_emit [OF _ refl this, of w "wordsOf he ?vs"] fold_w_write [of w he ?vs]
  show ?case by (cases "lowerChunks tt h (w_args w) cs") simp_all
qed

lemma lowerChunks_length: "lowerChunks tt h args cs = Some es \<Longrightarrow> length es = length cs"
  by (induction cs arbitrary: es) (auto elim!: bind_someE)

lemma writeChecksum_impl:
  "impl (writeChecksum he tt h e w) w
     (map_option (\<lambda>ci. (encCopyin he ci, ctxOf w)) (lowerChecksum tt h (w_args w) e))"
proof -
  obtain arg info where e: "e = (arg, info)" by (cases e)
  show ?thesis
  proof (cases "(\<exists>c k b p. argType tt h arg = Some (CsumType c k b p)) \<and> argSize tt h arg \<noteq> None \<and> csi_Kind info = CsumInet")
    case False
    then show ?thesis
      by (cases "argType tt h arg"; cases "the (argType tt h arg)"; cases "argSize tt h arg"; cases "csi_Kind info")
        (auto simp: writeChecksum_def lowerChecksum_def e Let_def)
  next
    case True
    then obtain c k b p sz where t: "argType tt h arg = Some (CsumType c k b p)" "argSize tt h arg = Some sz"
      "csi_Kind info = CsumInet" by auto
    let ?vs = "[execInstrCopyin, ai_Addr (infoOf (w_args w) arg), execArgCsum, sz, ExecArgCsumInet,
      of_nat (length (csi_Chunks info))]"
    have "impl (writeChunks he tt h (csi_Chunks info) (fold (w_write he) ?vs w)) (fold (w_write he) ?vs w)
      (map_option (\<lambda>es. (concat (map (\<lambda>c. wordsOf he [ch_Kind c, ch_Value c, ch_Size c]) es), ctxOf w))
        (lowerChunks tt h (w_args w) (csi_Chunks info)))"
      using writeChunks_impl [of he tt h "csi_Chunks info" "fold (w_write he) ?vs w"] by (simp add: ctxOf_def)
    from impl_emit [OF _ refl this, of w "wordsOf he ?vs"] fold_w_write [of w he ?vs]
    show ?thesis
      by (cases "lowerChunks tt h (w_args w) (csi_Chunks info)")
        (auto simp: writeChecksum_def lowerChecksum_def e t Let_def encCopyin_def dest: lowerChunks_length)
  qed
qed

lemma checksumList_impl:
  "impl (writeChecksumList he tt h es w) w
     (map_option (\<lambda>cis. (concat (map (encCopyin he) cis), ctxOf w)) (lowerChecksums tt h (w_args w) es))"
proof (induction es arbitrary: w)
  case Nil
  show ?case by (simp add: impl_def)
next
  case (Cons e es)
  have tl: "impl (writeChecksumList he tt h es w') w'
      (map_option (\<lambda>cis. (concat (map (encCopyin he) cis), ctxOf w)) (lowerChecksums tt h (w_args w) es))"
    if "ctxOf w' = ctxOf w" for w' using Cons [of w'] that by (simp add: ctxOf_def)
  show ?case unfolding writeChecksumList.simps
    by (rule impl_seq [OF writeChecksum_impl], rule tl) (auto split: bind_split)
qed

lemma impl_pre:
  assumes "emits w bs w1" and "impl r w1 l"
  shows "impl r w (map_option (\<lambda>x. (bs @ fst x, snd x)) l)"
  using assms by (cases l; cases r) (auto simp: impl_def intro: emits_trans)

lemma writeRet_impl:
  "impl (writeRet he h c w) w
     (map_option (\<lambda>(idx, args, seq). (PutUint64 he idx, args, seq, w_csumMap w, w_csumUses w))
       (lowerRet h c (w_args w) (w_copyoutSeq w)))"
  using w_write_emits
  by (auto simp: writeRet_def lowerRet_def Let_def impl_def ctxOf_def w_write_args split: option.splits bind_split)

lemma scalar_not_empty: "scalarArg a \<Longrightarrow> \<not> emptyData a"
  by (induction a rule: scalarArg.induct) auto

lemma writeArgs_impl:
  "list_all scalarArg as \<Longrightarrow>
   impl (writeArgs he tt h target as w) w
     (map_option (\<lambda>es. (concat (map (encArg he) es), ctxOf w)) (lowerArgs tt h target (w_args w) as))"
proof (induction as arbitrary: w)
  case Nil
  show ?case by (simp add: impl_def)
next
  case (Cons a as)
  have tl: "impl (writeArgs he tt h target as w') w'
      (map_option (\<lambda>es. (concat (map (encArg he) es), ctxOf w)) (lowerArgs tt h target (w_args w) as))"
    if "ctxOf w' = ctxOf w" for w' using Cons.IH [of w'] Cons.prems that by (simp add: ctxOf_def)
  have "\<not> emptyData a" using Cons.prems by (simp add: scalar_not_empty)
  show ?case unfolding writeArgs.simps
    by (rule impl_seq [OF writeArg_impl [OF \<open>\<not> emptyData a\<close>]], rule tl) (auto split: bind_split)
qed

lemma copyoutArg_impl:
  "impl (copyoutArg he tt h a ctx w) w
     (map_option (\<lambda>(cos, args, seq). (concat (map (encCopyout he) cos), args, seq, w_csumMap w, w_csumUses w))
       (lowerCopyout tt h a (w_args w) (w_copyoutSeq w)))"
proof (cases "\<exists>p res sz. a = ResultArg p \<and> h p = Some res \<and> ro_uses res \<noteq> {} \<and>
    \<not> ai_Ret (infoOf (w_args w) a) \<and> argSize tt h a = Some sz")
  case False
  then show ?thesis
    by (cases a) (auto simp: copyoutArg_def lowerCopyout_def Let_def impl_def ctxOf_def split: bind_split)
next
  case True
  then obtain p res sz where a: "a = ResultArg p" "h p = Some res" "ro_uses res \<noteq> {}"
    "\<not> ai_Ret (infoOf (w_args w) a)" "argSize tt h a = Some sz" by blast
  let ?vs = "[execInstrCopyout, w_copyoutSeq w, ai_Addr (infoOf (w_args w) a), sz]"
  define w1 where "w1 = w\<lparr>w_copyoutSeq := w_copyoutSeq w + 1,
    w_args := (w_args w)(argKey a \<mapsto> (infoOf (w_args w) a)\<lparr>ai_Idx := w_copyoutSeq w\<rparr>)\<rparr>"
  have "copyoutArg he tt h a ctx w = Some (fold (w_write he) ?vs w1)"
    using a by (simp add: copyoutArg_def w1_def Let_def del: argSize.simps)
  moreover have "lowerCopyout tt h a (w_args w) (w_copyoutSeq w) =
    Some ([\<lparr>co_Index = w_copyoutSeq w, co_Addr = ai_Addr (infoOf (w_args w) a), co_Size = sz\<rparr>],
      w_args w1, w_copyoutSeq w1)"
    using a by (simp add: lowerCopyout_def w1_def Let_def del: argSize.simps)
  moreover have "emits w (wordsOf he ?vs) (fold (w_write he) ?vs w1)"
    using fold_w_write [of w1 he ?vs] by (simp add: w1_def)
  moreover have "ctxOf (fold (w_write he) ?vs w1) = (w_args w1, w_copyoutSeq w1, w_csumMap w, w_csumUses w)"
    using fold_w_write [of w1 he ?vs] by (simp add: w1_def ctxOf_def)
  ultimately show ?thesis by (simp add: impl_Some encCopyout_def)
qed

lemma copyouts_impl:
  "ctxOf w = (args, seq, cm, cu) \<Longrightarrow>
   impl (runVisits (copyoutArg he tt h) vs w) w
     (map_option (\<lambda>(cos, args, seq). (concat (map (encCopyout he) cos), args, seq, cm, cu))
       (lowerCopyouts tt h vs args seq))"
proof (induction vs arbitrary: w args seq)
  case Nil
  then show ?case by (simp add: impl_def)
next
  case (Cons v vs)
  obtain a ctx where v: "v = (a, ctx)" by (cases v)
  have w: "w_args w = args" "w_copyoutSeq w = seq" "w_csumMap w = cm" "w_csumUses w = cu"
    using Cons.prems by (simp_all add: ctxOf_def)
  have hd: "impl (copyoutArg he tt h a ctx w) w
      (map_option (\<lambda>(cos, args, seq). (concat (map (encCopyout he) cos), args, seq, cm, cu))
        (lowerCopyout tt h a args seq))" using copyoutArg_impl [of he tt h a ctx w] by (simp add: w)
  show ?case unfolding v runVisits.simps
    by (rule impl_seq [OF hd, where m = "\<lambda>x. lowerCopyouts tt h vs (fst (snd x)) (snd (snd x))"], rule Cons.IH)
      (auto split: bind_split)
qed

lemma callArgs_impl:
  assumes w: "ctxOf w = (args, seq, cm, cu)" and vs: "callVisits tt (argSize tt h) c = Some vs"
    and "list_all scalarArg (call_Args c)"
  shows "impl (Option.bind (writeArgs he tt h target (call_Args c) (w_write he n w)) (writeCopyout he tt h c)) w
    (map_option (\<lambda>(es, cos, args, seq).
        (PutUint64 he n @ concat (map (encArg he) es) @ concat (map (encCopyout he) cos), args, seq, cm, cu))
      (do {
         es \<leftarrow> lowerArgs tt h target args (call_Args c);
         (cos, args, seq) \<leftarrow> lowerCopyouts tt h vs args seq;
         Some (es, cos, args, seq)
       }))"
proof -
  let ?w = "w_write he n w"
  have ctx: "ctxOf ?w = (args, seq, cm, cu)" "w_args w = args" using w by (simp_all add: ctxOf_def)
  have out: "impl (writeCopyout he tt h c w') w'
      (map_option (\<lambda>(cos, args, seq). (concat (map (encCopyout he) cos), args, seq, cm, cu))
        (lowerCopyouts tt h vs args seq))" if "ctxOf w' = (args, seq, cm, cu)" for w'
    using copyouts_impl [OF that, of he tt h vs] by (simp add: writeCopyout_def ForeachArg_visits vs)
  have "impl (Option.bind (writeArgs he tt h target (call_Args c) ?w) (writeCopyout he tt h c)) ?w
    (map_option (\<lambda>(es, cos, args, seq).
        (concat (map (encArg he) es) @ concat (map (encCopyout he) cos), args, seq, cm, cu))
      (do {
         es \<leftarrow> lowerArgs tt h target args (call_Args c);
         (cos, args, seq) \<leftarrow> lowerCopyouts tt h vs args seq;
         Some (es, cos, args, seq)
       }))"
    using writeArgs_impl [OF assms(3), of he tt h target ?w]
    by (intro impl_seq [where l = "lowerArgs tt h target args (call_Args c)"
          and F = "\<lambda>es. (concat (map (encArg he) es), args, seq, cm, cu)"
          and m = "\<lambda>_. lowerCopyouts tt h vs args seq"])
      (auto simp: ctx intro!: out split: bind_split)
  from impl_pre [OF w_write_emits this]
  show ?thesis by (rule arg_cong [THEN iffD1, rotated]) (auto split: bind_split)
qed

lemma callRet_impl:
  assumes w: "ctxOf w = (args, seq, cm, cu)" and vs: "callVisits tt (argSize tt h) c = Some vs"
    and "list_all scalarArg (call_Args c)"
  shows "impl (Option.bind (writeRet he h c w) (\<lambda>w.
      Option.bind (writeArgs he tt h target (call_Args c) (w_write he n w)) (writeCopyout he tt h c))) w
    (map_option (\<lambda>(idx, es, cos, args, seq).
        (wordsOf he [idx, n] @ concat (map (encArg he) es) @ concat (map (encCopyout he) cos), args, seq, cm, cu))
      (do {
         (idx, args, seq) \<leftarrow> lowerRet h c args seq;
         es \<leftarrow> lowerArgs tt h target args (call_Args c);
         (cos, args, seq) \<leftarrow> lowerCopyouts tt h vs args seq;
         Some (idx, es, cos, args, seq)
       }))"
proof -
  have ret: "impl (writeRet he h c w) w
     (map_option (\<lambda>(idx, args, seq). (PutUint64 he idx, args, seq, cm, cu)) (lowerRet h c args seq))"
    using writeRet_impl [of he h c w] w by (simp add: ctxOf_def)
  show ?thesis
    by (rule impl_seq [OF ret, where m = "\<lambda>x. do {
         es \<leftarrow> lowerArgs tt h target (fst (snd x)) (call_Args c);
         (cos, args, seq) \<leftarrow> lowerCopyouts tt h vs (fst (snd x)) (snd (snd x));
         Some (es, cos, args, seq) }"], rule callArgs_impl [OF _ vs assms(3)])
      (auto split: bind_split)
qed

lemma callHead_impl:
  assumes w: "ctxOf w = (args, seq, cm, cu)" and vs: "callVisits tt (argSize tt h) c = Some vs"
    and sc: "list_all scalarArg (call_Args c)"
  shows "impl (Option.bind (writeRet he h c (w_write he nr
        (if call_Props c \<noteq> noProps then writeCallProps he (call_Props c) w else w))) (\<lambda>w.
      Option.bind (writeArgs he tt h target (call_Args c) (w_write he n w)) (writeCopyout he tt h c))) w
    (map_option (\<lambda>(idx, es, cos, args, seq).
        (encProps he (call_Props c) @ wordsOf he [nr, idx, n] @ concat (map (encArg he) es) @
         concat (map (encCopyout he) cos), args, seq, cm, cu))
      (do {
         (idx, args, seq) \<leftarrow> lowerRet h c args seq;
         es \<leftarrow> lowerArgs tt h target args (call_Args c);
         (cos, args, seq) \<leftarrow> lowerCopyouts tt h vs args seq;
         Some (idx, es, cos, args, seq)
       }))"
proof -
  define ws where "ws = (if call_Props c = noProps then [] else execInstrSetProps # propWords (call_Props c)) @ [nr]"
  have code: "w_write he nr (if call_Props c \<noteq> noProps then writeCallProps he (call_Props c) w else w) =
      fold (w_write he) ws w"
    by (simp add: ws_def writeCallProps_def propWords_def)
  have bytes: "wordsOf he ws = encProps he (call_Props c) @ PutUint64 he nr"
    by (simp add: ws_def encProps_def wordsOf_def)
  have ctx: "ctxOf (fold (w_write he) ws w) = (args, seq, cm, cu)" using fold_w_write [of w he ws] w by simp
  have em: "emits w (wordsOf he ws) (fold (w_write he) ws w)" using fold_w_write [of w he ws] by simp
  from impl_pre [OF em callRet_impl [OF ctx vs sc]]
  show ?thesis unfolding code by (rule arg_cong [THEN iffD1, rotated]) (auto simp: bytes split: bind_split)
qed

lemma writeChecksums_impl:
  "impl (writeChecksums iter he tt h w) w
     (map_option (\<lambda>cis. (concat (map (encCopyin he) cis), ctxOf w))
       (lowerChecksums tt h (w_args w)
         (if w_csumMap w = [] then [] else csumOrder iter (w_args w) (w_csumMap w))))"
  using checksumList_impl [of he tt h "csumOrder iter (w_args w) (w_csumMap w)" w]
  by (simp add: writeChecksums_def impl_def)

lemma lowerArgs_length: "lowerArgs tt h target args as = Some es \<Longrightarrow> length es = length as"
  by (induction as arbitrary: es) (auto elim!: bind_someE)

lemma serializeCall_impl:
  assumes ok: "callOk tt h c" and cs: "calcChecksumsCall tt h c = Some cs"
    and w: "ctxOf w = (args, seq, cs)"
  shows "impl (serializeCall iter he tt h target c w) w
    (map_option (\<lambda>(e, args, seq). (encCall he e, args, seq, cs)) (lowerCall iter tt h target c args seq))"
proof (cases "callVisits tt (argSize tt h) c")
  case None
  then show ?thesis
    by (simp add: serializeCall_def lowerCall_def writeCopyin_def ForeachArg_visits cs)
next
  case (Some vs)
  obtain cm cu where cmu: "cs = (cm, cu)" by (cases cs)
  have w': "w_args w = args" "w_copyoutSeq w = seq" "w_csumMap w = cm" "w_csumUses w = cu"
    using w cmu by (simp_all add: ctxOf_def)
  have sc: "list_all scalarArg (call_Args c)" and dat: "list_all (\<lambda>(a, _). dataOk tt a) vs"
    using ok Some by (simp_all add: callOk_def)
  let ?sums = "\<lambda>args. lowerChecksums tt h args (if cm = [] then [] else csumOrder iter args cm)"
  let ?rest = "\<lambda>args. do {
      (idx, args, seq) \<leftarrow> lowerRet h c args seq;
      es \<leftarrow> lowerArgs tt h target args (call_Args c);
      (cos, args, seq) \<leftarrow> lowerCopyouts tt h vs args seq;
      Some (idx, es, cos, args, seq) }"
  have ins: "impl (writeCopyin he tt h target c w) w
      (map_option (\<lambda>(cis, args). (concat (map (encCopyin he) cis), args, seq, cs)) (lowerCopyins tt h target cs vs args))"
    using copyins_impl [OF dat, of he h target w] by (simp add: writeCopyin_def ForeachArg_visits Some w' cmu)
  have sums: "impl (writeChecksums iter he tt h w1) w1
      (map_option (\<lambda>cis. (concat (map (encCopyin he) cis), args1, seq, cs)) (?sums args1))"
    if "ctxOf w1 = (args1, seq, cs)" for w1 args1
    using writeChecksums_impl [of iter he tt h w1] that by (cases "cm = []") (simp_all add: ctxOf_def cmu)
  note hd = callHead_impl [OF _ Some sc, where nr = "of_nat (sys_ID (call_Meta c))"
      and n = "of_nat (length (call_Args c))" and cm = cm and cu = cu and seq = seq, folded cmu]
  have mid: "impl (Option.bind (writeChecksums iter he tt h w1) (\<lambda>w.
        Option.bind (writeRet he h c (w_write he (of_nat (sys_ID (call_Meta c)))
          (if call_Props c \<noteq> noProps then writeCallProps he (call_Props c) w else w))) (\<lambda>w.
        Option.bind (writeArgs he tt h target (call_Args c) (w_write he (of_nat (length (call_Args c))) w))
          (writeCopyout he tt h c)))) w1
      (map_option (\<lambda>(sums, idx, es, cos, args, seq). (concat (map (encCopyin he) sums) @
          encProps he (call_Props c) @ wordsOf he [of_nat (sys_ID (call_Meta c)), idx, of_nat (length (call_Args c))] @
          concat (map (encArg he) es) @ concat (map (encCopyout he) cos), args, seq, cs))
        (do { sums \<leftarrow> ?sums args1; r \<leftarrow> ?rest args1; Some (sums, r) }))"
    if "ctxOf w1 = (args1, seq, cs)" for w1 args1
    by (rule impl_seq [OF sums [OF that], where m = "\<lambda>_. ?rest args1"], rule hd) (auto simp: cmu split: bind_split)
  show ?thesis
    unfolding serializeCall_def Let_def
    by (rule impl_seq [OF ins, where m = "\<lambda>x. do { sums \<leftarrow> ?sums (snd x); r \<leftarrow> ?rest (snd x); Some (sums, r) }"], rule mid)
      (auto simp: cs Some cmu lowerCall_def encCall_def callID_def lowerArgs_length split: bind_split)
qed

lemma serializeCalls_impl:
  "list_all (callOk tt h) calls \<Longrightarrow> w_args w = args \<Longrightarrow> w_copyoutSeq w = seq \<Longrightarrow>
   (case lowerCalls iter tt h target calls args seq of
      None \<Rightarrow> serializeCalls iter he tt h target calls w = None
    | Some (es, args', seq') \<Rightarrow>
        \<exists>w'. serializeCalls iter he tt h target calls w = Some w' \<and>
          emits w (concat (map (encCall he) es)) w' \<and> w_copyoutSeq w' = seq')"
proof (induction calls arbitrary: w args seq)
  case (Cons c calls)
  show ?case
  proof (cases "calcChecksumsCall tt h c")
    case None
    then show ?thesis by (simp add: lowerCall_def)
  next
    case (Some cs)
    obtain cm cu where cmu: "cs = (cm, cu)" by (cases cs)
    let ?w = "w\<lparr>w_csumMap := cm, w_csumUses := cu\<rparr>"
    have "ctxOf ?w = (args, seq, cs)" using Cons.prems cmu by (simp add: ctxOf_def)
    then have hd: "impl (serializeCall iter he tt h target c ?w) ?w
      (map_option (\<lambda>(e, args, seq). (encCall he e, args, seq, cs)) (lowerCall iter tt h target c args seq))"
      using Cons.prems Some by (intro serializeCall_impl) simp_all
    show ?thesis
    proof (cases "lowerCall iter tt h target c args seq")
      case None
      then show ?thesis using hd Some cmu by (simp add: impl_def)
    next
      case (Some r)
      obtain e args1 seq1 where r: "r = (e, args1, seq1)" by (cases r)
      with hd Some obtain w1 where w1: "serializeCall iter he tt h target c ?w = Some w1"
        "emits ?w (encCall he e) w1" "ctxOf w1 = (args1, seq1, cs)"
        by (auto elim: impl_SomeE)
      have "emits w (encCall he e) w1" using w1(2) by simp
      then show ?thesis
        using Cons.IH [of w1 args1 seq1] Cons.prems w1 Some r \<open>calcChecksumsCall tt h c = Some cs\<close> cmu
        by (auto simp: ctxOf_def split: option.splits dest: emits_trans)
    qed
  qed
qed simp

lemma SerializeForExec_lower:
  assumes "list_all (callOk tt h) calls"
  shows "SerializeForExec iter he tt h target calls n =
    map_option (\<lambda>(es, seq).
        if n < length (encProg he es) \<or> execMaxCommands < seq then None else Some (encProg he es))
      (lowerProg iter tt h target calls)"
proof -
  let ?w = "\<lparr>w_out = [], w_room = n, w_eof = False, w_args = Map.empty, w_copyoutSeq = 0, w_csumMap = [],
    w_csumUses = {}\<rparr>"
  note calls = serializeCalls_impl [OF assms, where w = ?w and args = Map.empty and seq = 0 and iter = iter
      and target = target and he = he]
  show ?thesis
  proof (cases "lowerCalls iter tt h target calls Map.empty 0")
    case None
    then show ?thesis using calls by (simp add: SerializeForExec_def lowerProg_def)
  next
    case (Some r)
    obtain es args seq where r: "r = (es, args, seq)" by (cases r)
    with Some calls obtain w' where w': "serializeCalls iter he tt h target calls ?w = Some w'"
      "emits ?w (concat (map (encCall he) es)) w'" "w_copyoutSeq w' = seq" by auto
    have "emits ?w (encProg he es) (w_write he execInstrEOF w')"
      using emits_trans [OF w'(2) w_write_emits] by (simp add: encProg_def)
    then show ?thesis using w' Some r
      by (auto simp: SerializeForExec_def lowerProg_def Let_def emits_def)
  qed
qed

end
