(* ===== verification/ExecRound.thy ===== *)
theory ExecRound
  imports ExecLower
begin

text \<open>
  The serializer and the decoder together. \<open>fitsTypes\<close> and \<open>callFits\<close> say what a program must satisfy so
  that its numbers fit the fields of the format: scalar types of at most 255 bytes, system calls that
  the target knows under their number. Then decoding what was serialized gives the lowered calls.
\<close>

definition fitsType :: "Type \<Rightarrow> bool" where
  "fitsType t \<longleftrightarrow>
     (case t of
        BufferType _ _ _ _ _ _ _ _ \<Rightarrow> True
      | ArrayType _ _ _ _ _ \<Rightarrow> True
      | StructType _ _ _ _ \<Rightarrow> True
      | UnionType _ _ \<Rightarrow> True
      | _ \<Rightarrow> TypeSize (common t) < 2 ^ 8) \<and>
     (case intCommon t of
        None \<Rightarrow> True
      | Some c \<Rightarrow> BitfieldUnit c < 2 ^ 8 \<and> BitfieldOff c < 2 ^ 8 \<and> BitfieldLen c < 2 ^ 8) \<and>
     (case t of ProcType _ _ per \<Rightarrow> per < 2 ^ 32 | _ \<Rightarrow> True)"

definition fitsTypes :: "Type list \<Rightarrow> bool" where
  "fitsTypes tt = list_all fitsType tt"

text \<open>Pointers have pointer types and results have resource types.\<close>

fun argTyped :: "Type list \<Rightarrow> heap \<Rightarrow> Arg \<Rightarrow> bool" where
  "argTyped tt h (PointerArg c addr vma res) =
     (case typeAt tt (arg_ref c) of
        Some (PtrType _ _ _) \<Rightarrow> True
      | Some (VmaType _ _ _) \<Rightarrow> True
      | _ \<Rightarrow> False)"
| "argTyped tt h (ResultArg p) =
     (case h p of
        None \<Rightarrow> False
      | Some ob \<Rightarrow> (case typeAt tt (ro_ref ob) of Some (ResourceType _ _ _) \<Rightarrow> True | _ \<Rightarrow> False))"
| "argTyped tt h (UnionArg c opt i) = argTyped tt h opt"
| "argTyped tt h _ = True"

definition callFits :: "Target \<Rightarrow> Type list \<Rightarrow> heap \<Rightarrow> Call \<Rightarrow> bool" where
  "callFits target tt h c \<longleftrightarrow> wireTarget target (call_Meta c) \<and>
     int64 (cp_FailNth (call_Props c)) \<and> int64 (cp_Rerun (call_Props c)) \<and>
     list_all (argTyped tt h) (call_Args c) \<and>
     (case callVisits tt (argSize tt h) c of None \<Rightarrow> True | Some vs \<Rightarrow> list_all (\<lambda>(a, _). argTyped tt h a) vs)"

lemma fitsType_at: "fitsTypes tt \<Longrightarrow> typeAt tt r = Some t \<Longrightarrow> fitsType t"
  by (auto simp: fitsTypes_def typeAt_def list_all_length split: if_splits)

lemma formatNum_fits [simp]: "formatNum f < 256"
  by (cases f) (simp_all add: formatNum_def)

lemma ConstArg_Value_fits:
  "fitsType t \<Longrightarrow> ConstArg_Value t v = Some (val, stride) \<Longrightarrow> stride < 2 ^ 32"
  by (cases t) (auto simp: fitsType_def ConstArg_Value_def split: if_splits)

lemma UnitSize_fits:
  "fitsType t \<Longrightarrow> ConstArg_Value t v \<noteq> None \<Longrightarrow> UnitSize t = Some us \<Longrightarrow>
   us < 2 ^ 8 \<and> BitfieldOffset t < 2 ^ 8 \<and> BitfieldLength t < 2 ^ 8"
  by (cases t) (auto simp: fitsType_def ConstArg_Value_def UnitSize_def BitfieldOffset_def BitfieldLength_def
      Size_def split: if_splits)

lemma Size_fits:
  "fitsType t \<Longrightarrow> (case t of PtrType _ _ _ \<Rightarrow> True | VmaType _ _ _ \<Rightarrow> True | ResourceType _ _ _ \<Rightarrow> True | _ \<Rightarrow> False) \<Longrightarrow>
   Size t = Some sz \<Longrightarrow> sz < 2 ^ 8"
  by (cases t) (auto simp: fitsType_def Size_def split: if_splits)

lemma lowerArg_wire:
  "fitsTypes tt \<Longrightarrow> argTyped tt h a \<Longrightarrow> lowerArg tt h target args a = Some e \<Longrightarrow> wireArg e"
proof (induction a arbitrary: e)
  case (ConstArg c v)
  from ConstArg.prems(3) obtain t val stride us where t: "typeAt tt (arg_ref c) = Some t"
    "ConstArg_Value t v = Some (val, stride)" "UnitSize t = Some us"
    "e = ExecArgConst us (formatNum (Format t)) val (BitfieldOffset t) (BitfieldLength t) stride"
    by (auto elim!: bind_someE bind_pairE)
  have "fitsType t" using ConstArg.prems(1) t(1) by (rule fitsType_at)
  then show ?case using t ConstArg_Value_fits [OF _ t(2)] UnitSize_fits [of t v us] by simp
next
  case (PointerArg c addr vma res)
  then show ?case
    by (auto elim!: bind_someE dest!: fitsType_at Size_fits [rotated 2]
        split: Type.splits option.splits)
next
  case (ResultArg p)
  then show ?case
    by (auto elim!: bind_someE dest!: fitsType_at Size_fits [rotated 2]
        split: Type.splits option.splits)
qed (auto elim!: bind_someE)

lemma lowerArg_scalar: "scalarArg a \<Longrightarrow> lowerArg tt h target args a = Some e \<Longrightarrow> callArg e"
  by (induction a arbitrary: e) (auto elim!: bind_someE bind_pairE split: option.splits)

lemma lowerCopyins_wire:
  "fitsTypes tt \<Longrightarrow> list_all (\<lambda>(a, _). argTyped tt h a) vs \<Longrightarrow>
   lowerCopyins tt h target cs vs args = Some (cis, args') \<Longrightarrow>
   list_all (\<lambda>ci. case ci_Arg ci of None \<Rightarrow> False | Some a \<Rightarrow> wireArg a) cis"
proof (induction vs arbitrary: args cis)
  case (Cons v vs)
  then show ?case
    by (fastforce simp: lowerCopyin_def Let_def split: prod.splits option.splits if_splits
        elim!: bind_someE bind_pairE dest: lowerArg_wire)
qed simp

lemma lowerChecksums_wire:
  "lowerChecksums tt h args es = Some cis \<Longrightarrow>
   list_all (\<lambda>ci. case ci_Arg ci of None \<Rightarrow> False | Some a \<Rightarrow> wireArg a) cis"
  by (induction es arbitrary: cis)
    (auto simp: lowerChecksum_def elim!: bind_someE bind_pairE split: if_splits)

lemma lowerArgs_wire:
  "fitsTypes tt \<Longrightarrow> list_all (argTyped tt h) as \<Longrightarrow> list_all scalarArg as \<Longrightarrow>
   lowerArgs tt h target args as = Some es \<Longrightarrow> list_all (\<lambda>a. wireArg a \<and> callArg a) es"
  by (induction as arbitrary: es) (auto elim!: bind_someE dest: lowerArg_wire lowerArg_scalar)

lemma lowerCallE:
  assumes "lowerCall iter tt h target c args seq = Some (e, args', seq')"
  obtains cs vs cis args1 sums idx args2 seq2 es cos
  where "calcChecksumsCall tt h c = Some cs" and "callVisits tt (argSize tt h) c = Some vs"
    and "lowerCopyins tt h target cs vs args = Some (cis, args1)"
    and "lowerChecksums tt h args1 (if fst cs = [] then [] else csumOrder iter args1 (fst cs)) = Some sums"
    and "lowerRet h c args1 seq = Some (idx, args2, seq2)"
    and "lowerArgs tt h target args2 (call_Args c) = Some es"
    and "lowerCopyouts tt h vs args2 seq2 = Some (cos, args', seq')"
    and "e = \<lparr>ec_Meta = Some (call_Meta c), ec_Props = call_Props c, ec_Index = idx, ec_Args = es,
      ec_Copyin = cis @ sums, ec_Copyout = cos\<rparr>"
  using assms unfolding lowerCall_def by (auto elim!: bind_someE bind_pairE bind_tripleE)

lemma lowerCall_wire:
  assumes "fitsTypes tt" and "callOk tt h c" and "callFits target tt h c"
    and "lowerCall iter tt h target c args seq = Some (e, args', seq')"
  shows "wireCall target e"
proof -
  from assms(4) obtain cs vs cis args1 sums idx args2 seq2 es cos where
    vs: "callVisits tt (argSize tt h) c = Some vs" "lowerCopyins tt h target cs vs args = Some (cis, args1)"
    "lowerChecksums tt h args1 (if fst cs = [] then [] else csumOrder iter args1 (fst cs)) = Some sums"
    "lowerArgs tt h target args2 (call_Args c) = Some es"
    "e = \<lparr>ec_Meta = Some (call_Meta c), ec_Props = call_Props c, ec_Index = idx, ec_Args = es,
      ec_Copyin = cis @ sums, ec_Copyout = cos\<rparr>"
    by (rule lowerCallE)
  have "list_all (\<lambda>(a, _). argTyped tt h a) vs" using assms(3) vs(1) by (simp add: callFits_def)
  note lowerCopyins_wire [OF assms(1) this vs(2)] lowerChecksums_wire [OF vs(3)]
  moreover have "list_all (\<lambda>a. wireArg a \<and> callArg a) es"
    using assms(2,3) by (intro lowerArgs_wire [OF assms(1) _ _ vs(4)]) (simp_all add: callOk_def callFits_def)
  ultimately show ?thesis using assms(3) by (simp add: wireCall_def vs(5) callFits_def)
qed

lemma lowerCalls_wire:
  "fitsTypes tt \<Longrightarrow> list_all (callOk tt h) calls \<Longrightarrow> list_all (callFits target tt h) calls \<Longrightarrow>
   lowerCalls iter tt h target calls args seq = Some (es, args', seq') \<Longrightarrow> list_all (wireCall target) es"
  by (induction calls arbitrary: args seq es)
    (auto elim!: bind_tripleE dest: lowerCall_wire)

subsection \<open>Copyout indexes\<close>

text \<open>The indexes a call stores results to: its return value first, then its copyouts.\<close>

definition storedIdx :: "ExecCall \<Rightarrow> uint64 list" where
  "storedIdx e = (if ec_Index e = ExecNoCopyout then [] else [ec_Index e]) @ map co_Index (ec_Copyout e)"

lemma callNumVars_stored: "callNumVars e nv = fold maxVar (storedIdx e) nv"
  by (simp add: callNumVars_def storedIdx_def fold_map comp_def)

lemma numVars_stored: "fold callNumVars es nv = fold maxVar (concat (map storedIdx es)) nv"
  by (induction es arbitrary: nv) (simp_all add: callNumVars_stored)

lemma maxVar_upt: "k + n < 2 ^ 64 \<Longrightarrow> fold maxVar (map of_nat [k..<k + n]) (of_nat k) = of_nat (k + n)"
proof (induction n arbitrary: k)
  case (Suc n)
  have "maxVar (of_nat k) (of_nat k) = of_nat (Suc k)"
    using Suc.prems by (simp add: maxVar_def word_less_nat_alt unat_of_nat64 add.commute flip: of_nat_Suc)
  then show ?case using Suc.IH [of "Suc k"] Suc.prems by (simp add: upt_conv_Cons del: upt_Suc)
qed simp

lemma noCopyout_nat: "k < 2 ^ 64 - 1 \<Longrightarrow> of_nat k \<noteq> ExecNoCopyout"
proof
  assume k: "k < 2 ^ 64 - 1" and "of_nat k = ExecNoCopyout"
  then have "unat (of_nat k :: uint64) = 2 ^ 64 - 1"
    by (simp add: ExecNoCopyout_def unsigned_minus_1_eq_mask mask_eq_exp_minus_1)
  with k show False by (simp add: unat_of_nat)
qed

lemma lowerCopyout_one:
  "lowerCopyout tt h a args seq = Some (cos, args', seq') \<Longrightarrow>
   (cos = [] \<and> args' = args \<and> seq' = seq) \<or> (map co_Index cos = [seq] \<and> seq' = seq + 1)"
  by (cases a) (auto simp: lowerCopyout_def Let_def elim!: bind_someE split: if_splits)

lemma lowerCopyouts_stored:
  "lowerCopyouts tt h vs args (of_nat k) = Some (cos, args', seq') \<Longrightarrow>
   map co_Index cos = map of_nat [k..<k + length cos] \<and> seq' = of_nat (k + length cos)"
proof (induction vs arbitrary: args k cos)
  case (Cons v vs)
  obtain a ctx where v: "v = (a, ctx)" by (cases v)
  from Cons.prems obtain cos1 args1 seq1 cos2 where
    1: "lowerCopyout tt h a args (of_nat k) = Some (cos1, args1, seq1)" and
    2: "lowerCopyouts tt h vs args1 seq1 = Some (cos2, args', seq')" "cos = cos1 @ cos2"
    by (auto simp: v elim!: bind_tripleE)
  from lowerCopyout_one [OF 1] consider "cos1 = []" "seq1 = of_nat k"
    | "map co_Index cos1 = [of_nat k]" "seq1 = of_nat (Suc k)"
    by (auto simp: add.commute)
  then show ?case
  proof cases
    case 1
    then show ?thesis using Cons.IH [of args1 k cos2] 2 by simp
  next
    case 2
    have "map co_Index cos2 = map of_nat [Suc k..<Suc k + length cos2] \<and> seq' = of_nat (Suc k + length cos2)"
      using Cons.IH [of args1 "Suc k" cos2] \<open>lowerCopyouts tt h vs args1 seq1 = _\<close> 2(2) by simp
    moreover have "length cos1 = 1" using arg_cong [OF 2(1), of length] by simp
    ultimately show ?thesis using 2(1) \<open>cos = _\<close> upt_conv_Cons [of k "k + length cos"] by (simp del: upt_Suc)
  qed
qed simp

lemma lowerRet_one:
  "lowerRet h c args seq = Some (idx, args', seq') \<Longrightarrow>
   (idx = ExecNoCopyout \<and> seq' = seq) \<or> (idx = seq \<and> seq' = seq + 1)"
  by (cases "call_Ret c") (auto simp: lowerRet_def elim!: bind_someE split: if_splits)

lemma lowerRet_stored:
  assumes "lowerRet h c args (of_nat k) = Some (idx, args', seq')" and "k < 2 ^ 64 - 1"
  shows "\<exists>n. (if idx = ExecNoCopyout then [] else [idx]) = map of_nat [k..<k + n] \<and> seq' = of_nat (k + n)"
proof -
  from lowerRet_one [OF assms(1)] consider "idx = ExecNoCopyout" "seq' = of_nat k"
    | "idx = of_nat k" "seq' = of_nat (k + 1)" by (auto simp: add.commute)
  then show ?thesis
  proof cases
    case 1
    then show ?thesis by (intro exI [of _ 0]) simp
  next
    case 2
    then show ?thesis using noCopyout_nat [OF assms(2)] by (intro exI [of _ 1]) simp
  qed
qed

lemma upt_join: "[k..<k + n] @ [k + n..<k + n + m] = [k..<k + n + m]"
  by (rule upt_add_eq_append [symmetric]) simp

lemma lowerCall_stored:
  assumes "lowerCall iter tt h target c args (of_nat k) = Some (e, args', seq')" and "k < 2 ^ 64 - 1"
  shows "storedIdx e = map of_nat [k..<k + length (storedIdx e)] \<and> seq' = of_nat (k + length (storedIdx e))"
proof -
  from assms(1) obtain cs vs cis args1 sums idx args2 seq2 es cos where
    ret: "lowerRet h c args1 (of_nat k) = Some (idx, args2, seq2)" and
    out: "lowerCopyouts tt h vs args2 seq2 = Some (cos, args', seq')" and
    e: "e = \<lparr>ec_Meta = Some (call_Meta c), ec_Props = call_Props c, ec_Index = idx, ec_Args = es,
      ec_Copyin = cis @ sums, ec_Copyout = cos\<rparr>"
    by (rule lowerCallE)
  from lowerRet_stored [OF ret assms(2)] obtain n where
    n: "(if idx = ExecNoCopyout then [] else [idx]) = map of_nat [k..<k + n]" "seq2 = of_nat (k + n)" by blast
  have st: "storedIdx e = (if idx = ExecNoCopyout then [] else [idx]) @ map co_Index cos"
    by (simp add: storedIdx_def e)
  from lowerCopyouts_stored [OF out [unfolded n(2)]]
  have "storedIdx e = map of_nat ([k..<k + n] @ [k + n..<k + n + length cos])" "seq' = of_nat (k + n + length cos)"
    unfolding st n(1) by (simp_all only: map_append)
  then show ?thesis unfolding upt_join by (simp add: add.assoc)
qed

lemma lowerCalls_stored:
  "lowerCalls iter tt h target calls args (of_nat k) = Some (es, args', seq') \<Longrightarrow>
   k + length (concat (map storedIdx es)) < 2 ^ 64 - 1 \<Longrightarrow>
   concat (map storedIdx es) = map of_nat [k..<k + length (concat (map storedIdx es))] \<and>
   seq' = of_nat (k + length (concat (map storedIdx es)))"
proof (induction calls arbitrary: args k es)
  case (Cons c calls)
  from Cons.prems(1) obtain e args1 seq1 es' where
    e: "lowerCall iter tt h target c args (of_nat k) = Some (e, args1, seq1)" and
    es: "lowerCalls iter tt h target calls args1 seq1 = Some (es', args', seq')" "es = e # es'"
    by (auto elim!: bind_tripleE)
  let ?n = "length (storedIdx e)" and ?m = "length (concat (map storedIdx es'))"
  note 1 = lowerCall_stored [OF e] 
  have st: "storedIdx e = map of_nat [k..<k + ?n]" "seq1 = of_nat (k + ?n)" using 1 Cons.prems(2) by simp_all
  have "concat (map storedIdx es') = map of_nat [k + ?n..<k + ?n + ?m] \<and> seq' = of_nat (k + ?n + ?m)"
    using Cons.IH [of args1 "k + ?n" es'] es st(2) Cons.prems(2) by simp
  then have "concat (map storedIdx es) = map of_nat ([k..<k + ?n] @ [k + ?n..<k + ?n + ?m]) \<and>
      seq' = of_nat (k + ?n + ?m)"
    using st(1) es(2) by (simp only: map_append list.map concat.simps)
  then show ?case unfolding upt_join using es(2) by (simp add: add.assoc)
qed simp

lemma storedIdx_length: "length (storedIdx e) \<le> length (encCall he e)"
proof -
  have "length (ec_Copyout e) \<le> length (concat (map (encCopyout he) (ec_Copyout e)))"
    by (rule length_le_concat) (simp add: encCopyout_def host.length_put)
  then show ?thesis by (simp add: storedIdx_def encCall_def host.length_put)
qed

lemma stored_length: "length (concat (map storedIdx es)) \<le> length (encProg he es)"
proof -
  have "length (concat (map storedIdx es)) \<le> length (concat (map (encCall he) es))"
    by (induction es) (use storedIdx_length in \<open>auto intro: add_mono\<close>)
  then show ?thesis by (simp add: encProg_def)
qed

subsection \<open>References to results\<close>

fun resIds :: "(Arg \<times> ArgCtx) list \<Rightarrow> nat list" where
  "resIds [] = []"
| "resIds ((ResultArg p, ctx) # vs) = p # resIds vs"
| "resIds (v # vs) = resIds vs"

text \<open>
  Every call refers to results of earlier calls only, which are marked as used, and no result belongs
  to two calls.
\<close>

definition refersTo :: "heap \<Rightarrow> nat list \<Rightarrow> nat \<Rightarrow> bool" where
  "refersTo h seen p =
     (case h p of
        None \<Rightarrow> False
      | Some ob \<Rightarrow>
          (case ro_Res ob of
             None \<Rightarrow> True
           | Some q \<Rightarrow> q \<in> set seen \<and> (case h q of None \<Rightarrow> False | Some ob' \<Rightarrow> ro_uses ob' \<noteq> {})))"

fun ordered :: "Type list \<Rightarrow> heap \<Rightarrow> nat list \<Rightarrow> Call list \<Rightarrow> bool" where
  "ordered tt h seen [] = True"
| "ordered tt h seen (c # cs) =
     (case callVisits tt (argSize tt h) c of
        None \<Rightarrow> False
      | Some vs \<Rightarrow>
          list_all (\<lambda>p. p \<notin> set seen \<and> refersTo h seen p) (resIds vs) \<and> ordered tt h (seen @ resIds vs) cs)"

fun argRefs :: "ExecArg \<Rightarrow> uint64 list" where
  "argRefs (ExecArgResult sz f idx dv ad df) = [idx]"
| "argRefs _ = []"

definition callRefs :: "ExecCall \<Rightarrow> uint64 list" where
  "callRefs e = concat (map argRefs (ec_Args e)) @
     concat (map (\<lambda>ci. case ci_Arg ci of None \<Rightarrow> [] | Some a \<Rightarrow> argRefs a) (ec_Copyin e))"

fun refsOk :: "uint64 list \<Rightarrow> ExecCall list \<Rightarrow> bool" where
  "refsOk stored [] = True"
| "refsOk stored (e # es) = (set (callRefs e) \<subseteq> set stored \<and> refsOk (stored @ storedIdx e) es)"

lemma resIds_iff: "p \<in> set (resIds vs) \<longleftrightarrow> (\<exists>ctx. (ResultArg p, ctx) \<in> set vs)"
  by (induction vs rule: resIds.induct) auto

text \<open>The tables between two calls: every used result seen so far has a slot that was stored.\<close>

definition slotsOk :: "heap \<Rightarrow> nat list \<Rightarrow> uint64 list \<Rightarrow> argInfos \<Rightarrow> bool" where
  "slotsOk h seen stored args \<longleftrightarrow>
     (\<forall>q ob. q \<in> set seen \<longrightarrow> h q = Some ob \<longrightarrow> ro_uses ob \<noteq> {} \<longrightarrow>
        (\<exists>info. args (Inl q) = Some info \<and> ai_Idx info \<in> set stored)) \<and>
     (\<forall>q. q \<notin> set seen \<longrightarrow> args (Inl q) = None)"

lemma argKey_Inl [simp]: "argKey a = Inl q \<longleftrightarrow> a = ResultArg q" "Inl q = argKey a \<longleftrightarrow> a = ResultArg q"
  by (cases a; auto)+

lemma noteAddr_other: "a \<noteq> ResultArg q \<Longrightarrow> noteAddr h cs a addr args (Inl q) = args (Inl q)"
  by (simp add: noteAddr_def)

fun leafResult :: "Arg \<Rightarrow> nat option" where
  "leafResult (ResultArg p) = Some p"
| "leafResult (UnionArg c opt i) = leafResult opt"
| "leafResult _ = None"

lemma lowerArg_refs:
  "lowerArg tt h target args a = Some e \<Longrightarrow> idx \<in> set (argRefs e) \<Longrightarrow>
   \<exists>p ob q info. leafResult a = Some p \<and> h p = Some ob \<and> ro_Res ob = Some q \<and>
     args (Inl q) = Some info \<and> ai_Idx info = idx"
  by (induction a arbitrary: e) (auto elim!: bind_someE bind_pairE split: option.splits)

lemma refs_stored:
  assumes "lowerArg tt h target args' a = Some e" and "idx \<in> set (argRefs e)"
    and "\<And>p. leafResult a = Some p \<Longrightarrow> refersTo h seen p"
    and "\<And>q. q \<in> set seen \<Longrightarrow> args' (Inl q) = args (Inl q)" and "slotsOk h seen stored args"
  shows "idx \<in> set stored"
proof -
  from lowerArg_refs [OF assms(1,2)] obtain p ob q info where p: "leafResult a = Some p" "h p = Some ob"
    "ro_Res ob = Some q" "args' (Inl q) = Some info" "ai_Idx info = idx" by blast
  from assms(3) [OF p(1)] p(2,3) have "q \<in> set seen" "\<exists>ob'. h q = Some ob' \<and> ro_uses ob' \<noteq> {}"
    by (auto simp: refersTo_def split: option.splits)
  then show ?thesis using assms(4,5) p(4,5) by (fastforce simp: slotsOk_def)
qed

lemma lowerCopyin_shape:
  "lowerCopyin tt h target cs a ctx args = Some (cis, args') \<Longrightarrow>
   (args' = args \<or> (\<exists>addr. args' = noteAddr h cs a addr args)) \<and>
   (\<forall>ci \<in> set cis. \<not> isGroupOrUnion a \<and> (\<exists>e. ci_Arg ci = Some e \<and> lowerArg tt h target args' a = Some e))"
  by (auto simp: lowerCopyin_def Let_def elim!: bind_someE split: option.splits if_splits) blast+

lemma lowerCopyins_frame:
  "lowerCopyins tt h target cs vs args = Some (cis, args') \<Longrightarrow> q \<notin> set (resIds vs) \<Longrightarrow> args' (Inl q) = args (Inl q)"
proof (induction vs arbitrary: args cis)
  case (Cons v vs)
  obtain a ctx where v: "v = (a, ctx)" by (cases v)
  from Cons.prems(1) v obtain cis1 args1 cis2 where
    1: "lowerCopyin tt h target cs a ctx args = Some (cis1, args1)" and
    2: "lowerCopyins tt h target cs vs args1 = Some (cis2, args')" by (auto elim!: bind_pairE)
  have "a \<noteq> ResultArg q" "q \<notin> set (resIds vs)" using Cons.prems(2) v by (auto simp: resIds_iff)
  then show ?case using Cons.IH [OF 2] 1 by (auto dest!: lowerCopyin_shape simp: noteAddr_other)
qed simp

lemma lowerCopyins_noRet:
  "lowerCopyins tt h target cs vs args = Some (cis, args') \<Longrightarrow>
   (\<And>info. args (Inl q) = Some info \<Longrightarrow> \<not> ai_Ret info) \<Longrightarrow> args' (Inl q) = Some info \<Longrightarrow> \<not> ai_Ret info"
proof (induction vs arbitrary: args cis)
  case (Cons v vs)
  obtain a ctx where v: "v = (a, ctx)" by (cases v)
  from Cons.prems(1) v obtain cis1 args1 cis2 where
    1: "lowerCopyin tt h target cs a ctx args = Some (cis1, args1)" and
    2: "lowerCopyins tt h target cs vs args1 = Some (cis2, args')" by (auto elim!: bind_pairE)
  have "\<not> ai_Ret info" if "args1 (Inl q) = Some info" for info
    using 1 that Cons.prems(2) by (auto dest!: lowerCopyin_shape simp: noteAddr_def noInfo_def split: if_splits)
  then show ?case using Cons.IH [OF 2] Cons.prems(3) by blast
qed simp

lemma lowerCopyins_refs:
  assumes "slotsOk h seen stored args0"
  shows "lowerCopyins tt h target cs vs args = Some (cis, args') \<Longrightarrow>
   list_all (\<lambda>p. p \<notin> set seen \<and> refersTo h seen p) (resIds vs) \<Longrightarrow>
   (\<And>q. q \<in> set seen \<Longrightarrow> args (Inl q) = args0 (Inl q)) \<Longrightarrow>
   ci \<in> set cis \<Longrightarrow> ci_Arg ci = Some e \<Longrightarrow> idx \<in> set (argRefs e) \<Longrightarrow> idx \<in> set stored"
proof (induction vs arbitrary: args cis)
  case (Cons v vs)
  obtain a ctx where v: "v = (a, ctx)" by (cases v)
  from Cons.prems(1) v obtain cis1 args1 cis2 where
    1: "lowerCopyin tt h target cs a ctx args = Some (cis1, args1)" and
    2: "lowerCopyins tt h target cs vs args1 = Some (cis2, args')" "cis = cis1 @ cis2" by (auto elim!: bind_pairE)
  have hd: "a = ResultArg p \<Longrightarrow> p \<notin> set seen \<and> refersTo h seen p" for p
    using Cons.prems(2) v by simp
  have tl: "list_all (\<lambda>p. p \<notin> set seen \<and> refersTo h seen p) (resIds vs)"
    using Cons.prems(2) v by (cases a) simp_all
  have fr: "args1 (Inl q) = args0 (Inl q)" if "q \<in> set seen" for q
  proof -
    have "a \<noteq> ResultArg q" using hd [of q] that by auto
    moreover obtain addr where "args1 = args \<or> args1 = noteAddr h cs a addr args"
      using lowerCopyin_shape [OF 1] by blast
    ultimately show ?thesis using Cons.prems(3) [OF that] noteAddr_other [of a q h cs addr args] by auto
  qed
  show ?case
  proof (cases "ci \<in> set cis1")
    case True
    with 1 Cons.prems(5) have a: "\<not> isGroupOrUnion a" "lowerArg tt h target args1 a = Some e"
      by (auto dest!: lowerCopyin_shape)
    have "refersTo h seen p" if "leafResult a = Some p" for p
      using a(1) that hd by (cases a) (auto simp: isGroupOrUnion_def)
    then show ?thesis using refs_stored [OF a(2) Cons.prems(6) _ fr assms] by blast
  next
    case False
    then show ?thesis using Cons.IH [OF 2(1) tl fr] Cons.prems(4-6) 2(2) by auto
  qed
qed simp

lemma lowerCopyouts_frame:
  "lowerCopyouts tt h vs args seq = Some (cos, args', seq') \<Longrightarrow> q \<notin> set (resIds vs) \<Longrightarrow> args' (Inl q) = args (Inl q)"
proof (induction vs arbitrary: args seq cos)
  case (Cons v vs)
  obtain a ctx where v: "v = (a, ctx)" by (cases v)
  from Cons.prems(1) v obtain cos1 args1 seq1 cos2 where
    1: "lowerCopyout tt h a args seq = Some (cos1, args1, seq1)" and
    2: "lowerCopyouts tt h vs args1 seq1 = Some (cos2, args', seq')" by (auto elim!: bind_tripleE)
  have "a \<noteq> ResultArg q" "q \<notin> set (resIds vs)" using Cons.prems(2) v by (auto simp: resIds_iff)
  moreover from this 1 have "args1 (Inl q) = args (Inl q)"
    by (cases a) (auto simp: lowerCopyout_def Let_def elim!: bind_someE split: if_splits)
  ultimately show ?case using Cons.IH [OF 2] by simp
qed simp

text \<open>After the copyouts of a call each of its used results has its slot.\<close>

lemma lowerCopyout_slot:
  assumes "lowerCopyout tt h (ResultArg p) args seq = Some (cos, args', seq')" and "h p = Some ob" and "ro_uses ob \<noteq> {}"
  shows "\<exists>info. args' (Inl p) = Some info \<and>
    (ai_Idx info \<in> co_Index ` set cos \<or> (args (Inl p) = Some info \<and> ai_Ret info))"
  using assms
  by (auto simp: lowerCopyout_def Let_def infoOf_def noInfo_def elim!: bind_someE split: if_splits option.splits)

lemma lowerCopyouts_slot:
  "lowerCopyouts tt h vs args seq = Some (cos, args', seq') \<Longrightarrow> p \<in> set (resIds vs) \<Longrightarrow> h p = Some ob \<Longrightarrow>
   ro_uses ob \<noteq> {} \<Longrightarrow>
   \<exists>info. args' (Inl p) = Some info \<and>
     (ai_Idx info \<in> co_Index ` set cos \<or> (args (Inl p) = Some info \<and> ai_Ret info))"
proof (induction vs arbitrary: args seq cos)
  case (Cons v vs)
  obtain a ctx where v: "v = (a, ctx)" by (cases v)
  from Cons.prems(1) v obtain cos1 args1 seq1 cos2 where
    1: "lowerCopyout tt h a args seq = Some (cos1, args1, seq1)" and
    2: "lowerCopyouts tt h vs args1 seq1 = Some (cos2, args', seq')" "cos = cos1 @ cos2" by (auto elim!: bind_tripleE)
  have fr: "args1 (Inl p) = args (Inl p)" if "a \<noteq> ResultArg p"
    using 1 that by (cases a) (auto simp: lowerCopyout_def Let_def elim!: bind_someE split: if_splits)
  show ?case
  proof (cases "p \<in> set (resIds vs)")
    case True
    from Cons.IH [OF 2(1) this Cons.prems(3,4)] obtain info where info: "args' (Inl p) = Some info"
      "ai_Idx info \<in> co_Index ` set cos2 \<or> (args1 (Inl p) = Some info \<and> ai_Ret info)" by blast
    show ?thesis
    proof (cases "a = ResultArg p")
      case True
      with lowerCopyout_slot [OF 1 [unfolded True] Cons.prems(3,4)] info 2(2) show ?thesis by auto
    qed (use fr info 2(2) in auto)
  next
    case False
    then have "a = ResultArg p" using Cons.prems(2) v by (cases a) auto
    with lowerCopyout_slot [OF 1 [unfolded this] Cons.prems(3,4)] lowerCopyouts_frame [OF 2(1) False] 2(2)
    show ?thesis by auto
  qed
qed simp

lemma resIds_append [simp]: "resIds (vs @ ws) = resIds vs @ resIds ws"
  by (induction vs rule: resIds.induct) auto

lemma visits_leaf: "leafResult a = Some p \<Longrightarrow> visits tt sz a ctx = Some vs \<Longrightarrow> p \<in> set (resIds vs)"
  by (induction a arbitrary: vs ctx) (auto elim!: bind_someE)

lemma visitsTop_leaf:
  "a \<in> set as \<Longrightarrow> leafResult a = Some p \<Longrightarrow> visitsTop tt sz as ctx = Some vs \<Longrightarrow> p \<in> set (resIds vs)"
  by (induction as arbitrary: vs) (auto elim!: bind_someE dest: visits_leaf)

lemma callVisits_leaf:
  "callVisits tt sz c = Some vs \<Longrightarrow> a \<in> set (call_Args c) \<Longrightarrow> leafResult a = Some p \<Longrightarrow> p \<in> set (resIds vs)"
  by (auto simp: callVisits_def elim!: bind_someE dest: visitsTop_leaf)

lemma callVisits_ret: "callVisits tt sz c = Some vs \<Longrightarrow> call_Ret c = Some p \<Longrightarrow> p \<in> set (resIds vs)"
  by (auto simp: callVisits_def elim!: bind_someE)

lemma lowerRet_info:
  "lowerRet h c args seq = Some (idx, args', seq') \<Longrightarrow>
   (args' = args) \<or> (\<exists>p. call_Ret c = Some p \<and> idx = seq \<and>
     args' = args(Inl p \<mapsto> \<lparr>ai_Addr = 0, ai_Idx = seq, ai_Ret = True\<rparr>))"
  by (cases "call_Ret c") (auto simp: lowerRet_def elim!: bind_someE split: if_splits)

lemma lowerArgs_at: "lowerArgs tt h target args as = Some es \<Longrightarrow> e \<in> set es \<Longrightarrow>
   \<exists>a \<in> set as. lowerArg tt h target args a = Some e"
  by (induction as arbitrary: es) (auto elim!: bind_someE)

lemma lowerChecksums_norefs:
  "lowerChecksums tt h args es = Some cis \<Longrightarrow> ci \<in> set cis \<Longrightarrow> ci_Arg ci = Some e \<Longrightarrow> argRefs e = []"
  by (induction es arbitrary: cis) (auto simp: lowerChecksum_def elim!: bind_someE bind_pairE split: if_splits)

lemma lowerCall_slots:
  assumes ok: "slotsOk h seen stored args" and vs: "callVisits tt (argSize tt h) c = Some vs"
    and new: "list_all (\<lambda>p. p \<notin> set seen \<and> refersTo h seen p) (resIds vs)" and k: "k < 2 ^ 64 - 1"
    and call: "lowerCall iter tt h target c args (of_nat k) = Some (e, args', seq')"
  shows "set (callRefs e) \<subseteq> set stored \<and> slotsOk h (seen @ resIds vs) (stored @ storedIdx e) args'"
proof -
  from call obtain cs vs' cis args1 sums idx args2 seq2 es cos where
    vs': "callVisits tt (argSize tt h) c = Some vs'" and
    ins: "lowerCopyins tt h target cs vs' args = Some (cis, args1)" and
    sums: "lowerChecksums tt h args1 (if fst cs = [] then [] else csumOrder iter args1 (fst cs)) = Some sums" and
    ret: "lowerRet h c args1 (of_nat k) = Some (idx, args2, seq2)" and
    as: "lowerArgs tt h target args2 (call_Args c) = Some es" and
    out: "lowerCopyouts tt h vs' args2 seq2 = Some (cos, args', seq')" and
    e: "e = \<lparr>ec_Meta = Some (call_Meta c), ec_Props = call_Props c, ec_Index = idx, ec_Args = es,
      ec_Copyin = cis @ sums, ec_Copyout = cos\<rparr>" by (rule lowerCallE)
  have [simp]: "vs' = vs" using vs vs' by simp
  have retId: "p \<in> set (resIds vs)" if "call_Ret c = Some p" for p using callVisits_ret [OF vs that] .
  have fr1: "args1 (Inl q) = args (Inl q)" if "q \<notin> set (resIds vs)" for q
    using lowerCopyins_frame [OF ins] that by simp
  have fr2: "args2 (Inl q) = args (Inl q)" if "q \<notin> set (resIds vs)" for q
    using lowerRet_info [OF ret] retId fr1 that by auto
  have old: "q \<notin> set (resIds vs)" if "q \<in> set seen" for q using new that by (auto simp: list_all_iff)
  have "idx' \<in> set stored" if "a \<in> set es" "idx' \<in> set (argRefs a)" for a idx'
  proof -
    from lowerArgs_at [OF as that(1)] obtain b where b: "b \<in> set (call_Args c)"
      "lowerArg tt h target args2 b = Some a" by blast
    have "refersTo h seen p" if "leafResult b = Some p" for p
      using callVisits_leaf [OF vs b(1) that] new by (auto simp: list_all_iff)
    then show ?thesis using refs_stored [OF b(2) that(2) _ _ ok] fr2 old by blast
  qed
  moreover have "idx' \<in> set stored" if "ci \<in> set (cis @ sums)" "ci_Arg ci = Some a" "idx' \<in> set (argRefs a)" for ci a idx'
    using lowerCopyins_refs [OF ok ins [simplified] new refl _ that(2,3)] lowerChecksums_norefs [OF sums _ that(2)] that
    by auto
  ultimately have "set (callRefs e) \<subseteq> set stored" by (auto simp: callRefs_def e eq_commute [of "Some x" "ci_Arg y" for x y] split: option.splits) blast+
  moreover have "\<exists>info. args' (Inl q) = Some info \<and> ai_Idx info \<in> set (stored @ storedIdx e)"
    if q: "q \<in> set (seen @ resIds vs)" and ob: "h q = Some ob" "ro_uses ob \<noteq> {}" for q ob
  proof (cases "q \<in> set (resIds vs)")
    case False
    then have "args' (Inl q) = args (Inl q)" using fr2 lowerCopyouts_frame [OF out] by simp
    then show ?thesis using q ob ok False unfolding slotsOk_def by fastforce
  next
    case True
    from lowerCopyouts_slot [OF out _ ob] True obtain info where info: "args' (Inl q) = Some info"
      "ai_Idx info \<in> co_Index ` set cos \<or> (args2 (Inl q) = Some info \<and> ai_Ret info)" by auto
    have "args (Inl q) = None" using True new ok by (auto simp: slotsOk_def list_all_iff)
    then have "\<not> ai_Ret info" if "args1 (Inl q) = Some info" using lowerCopyins_noRet [OF ins _ that] by simp
    then have "ai_Idx info = idx \<and> idx = of_nat k" if "args2 (Inl q) = Some info" "ai_Ret info"
      using lowerRet_info [OF ret] that by (auto split: if_splits)
    with info noCopyout_nat [OF k] show ?thesis by (auto simp: storedIdx_def e)
  qed
  moreover have "args' (Inl q) = None" if "q \<notin> set (seen @ resIds vs)" for q
    using that ok fr2 lowerCopyouts_frame [OF out] by (simp add: slotsOk_def)
  ultimately show ?thesis by (simp add: slotsOk_def)
qed

lemma lowerCalls_refs:
  "slotsOk h seen stored args \<Longrightarrow> ordered tt h seen calls \<Longrightarrow>
   lowerCalls iter tt h target calls args (of_nat k) = Some (es, args', seq') \<Longrightarrow>
   k + length (concat (map storedIdx es)) < 2 ^ 64 - 1 \<Longrightarrow> refsOk stored es"
proof (induction calls arbitrary: seen stored args k es)
  case (Cons c calls)
  from Cons.prems(3) obtain e args1 seq1 es' where
    e: "lowerCall iter tt h target c args (of_nat k) = Some (e, args1, seq1)" and
    es: "lowerCalls iter tt h target calls args1 seq1 = Some (es', args', seq')" "es = e # es'"
    by (auto elim!: bind_tripleE)
  from Cons.prems(2) obtain vs where vs: "callVisits tt (argSize tt h) c = Some vs"
    "list_all (\<lambda>p. p \<notin> set seen \<and> refersTo h seen p) (resIds vs)" "ordered tt h (seen @ resIds vs) calls"
    by (auto split: option.splits)
  have k: "k < 2 ^ 64 - 1" "k + length (storedIdx e) + length (concat (map storedIdx es')) < 2 ^ 64 - 1"
    using Cons.prems(4) es(2) by simp_all
  have "seq1 = of_nat (k + length (storedIdx e))" using lowerCall_stored [OF e k(1)] by simp
  then show ?case
    using lowerCall_slots [OF Cons.prems(1) vs(1,2) k(1) e] es k(2) vs(3)
      Cons.IH [of "seen @ resIds vs" "stored @ storedIdx e" args1 "k + length (storedIdx e)" es'] by simp
qed simp

subsection \<open>The results\<close>

lemma lowered_bounds:
  assumes "list_all (callOk tt h) calls" and "SerializeForExec iter he tt h target calls n = Some (Some bytes)"
    and "n < 2 ^ 62"
  obtains es args seq where "lowerProg iter tt h target calls = Some (es, seq)"
    and "lowerCalls iter tt h target calls Map.empty (of_nat 0) = Some (es, args, seq)"
    and "bytes = encProg he es" and "length (encProg he es) < 2 ^ 62" and "seq \<le> execMaxCommands"
    and "0 + length (concat (map storedIdx es)) < 2 ^ 64 - 1"
proof -
  from assms(1,2) obtain es seq where low: "lowerProg iter tt h target calls = Some (es, seq)"
    "length (encProg he es) \<le> n" "seq \<le> execMaxCommands" "bytes = encProg he es"
    by (auto simp: SerializeForExec_lower split: if_splits)
  from low(1) obtain args where "lowerCalls iter tt h target calls Map.empty (of_nat 0) = Some (es, args, seq)"
    by (auto simp: lowerProg_def)
  moreover have "length (encProg he es) < 2 ^ 62" using low(2) assms(3) by simp
  moreover from this have "0 + length (concat (map storedIdx es)) < 2 ^ 64 - 1"
    using stored_length [of es he] by simp
  ultimately show ?thesis using that low by blast
qed

text \<open>A program of two calls: \<^verbatim>\<open>r0 = open(&(0x40)='/\\x00'); close(r0)\<close>.\<close>

definition exTypes :: "Type list" where
  "exTypes =
     (let c = \<lparr>TypeName = ''t'', TypeSize = 8, TypeAlign = 0, IsOptional = False, IsVarlen = False\<rparr>
      in [PtrType c 2 DirIn, PtrType c 2 DirIn,
          BufferType (c\<lparr>IsVarlen := True\<rparr>) BufferFilename 0 0 TextTarget [] [] False,
          ResourceType c FormatNative
            \<lparr>rd_Name = ''fd'', rd_Kind = [''fd''], rd_Values = [0xffffffffffffffff], rd_Ctors = []\<rparr>])"

definition exAttrs :: SyscallAttrs where
  "exAttrs = \<lparr>sa_Disabled = False, sa_Timeout = 0, sa_ProgTimeout = 0, sa_IgnoreReturn = False,
     sa_BreaksReturns = False, sa_NoGenerate = False, sa_NoMinimize = False\<rparr>"

definition exSyscall :: "nat \<Rightarrow> string \<Rightarrow> Ref \<Rightarrow> Ref option \<Rightarrow> Syscall" where
  "exSyscall i name arg ret =
     \<lparr>sys_ID = i, sys_NR = of_nat i, sys_Name = name, sys_CallName = name, sys_MissingArgs = 0,
      sys_Args = [\<lparr>fld_Name = ''a'', fld_Type = arg, fld_HasDirection = False, fld_Direction = DirIn\<rparr>],
      sys_Ret = ret, sys_Attrs = exAttrs\<rparr>"

definition exTarget :: Target where
  "exTarget = \<lparr>tgt_Syscalls = [exSyscall 0 ''open'' 1 (Some 3), exSyscall 1 ''close'' 3 None],
     tgt_SpecialPointers = [0], tgt_DataOffset = 0x20000000\<rparr>"

definition exHeap :: heap where
  "exHeap =
     [10 \<mapsto> \<lparr>ro_ref = 3, ro_dir = DirOut, ro_Res = None, ro_OpDiv = 0, ro_OpAdd = 0, ro_Val = 0, ro_uses = {11}\<rparr>,
      11 \<mapsto> \<lparr>ro_ref = 3, ro_dir = DirIn, ro_Res = Some 10, ro_OpDiv = 0, ro_OpAdd = 0, ro_Val = 0, ro_uses = {}\<rparr>]"

definition exCalls :: "Call list" where
  "exCalls =
     [\<lparr>call_Meta = exSyscall 0 ''open'' 1 (Some 3), call_Args =
         [PointerArg \<lparr>arg_id = 0, arg_ref = 1, arg_dir = DirIn\<rparr> 0x40 0
           (Some (DataArg \<lparr>arg_id = 1, arg_ref = 2, arg_dir = DirIn\<rparr> [0x2f, 0] 0))],
       call_Ret = Some 10, call_Props = noProps, call_Comment = []\<rparr>,
      \<lparr>call_Meta = exSyscall 1 ''close'' 3 None, call_Args = [ResultArg 11],
       call_Ret = None, call_Props = noProps, call_Comment = []\<rparr>]"

definition exLowered :: "ExecCall list" where
  "exLowered =
     [\<lparr>ec_Meta = Some (exSyscall 0 ''open'' 1 (Some 3)), ec_Props = noProps, ec_Index = 0,
       ec_Args = [ExecArgConst 8 0 0x20000040 0 0 0],
       ec_Copyin = [\<lparr>ci_Addr = 0x20000040, ci_Arg = Some (ExecArgData [0x2f, 0] True)\<rparr>], ec_Copyout = []\<rparr>,
      \<lparr>ec_Meta = Some (exSyscall 1 ''close'' 3 None), ec_Props = noProps, ec_Index = ExecNoCopyout,
       ec_Args = [ExecArgResult 8 0 0 0 0 0xffffffffffffffff], ec_Copyin = [], ec_Copyout = []\<rparr>]"

lemmas ex_defs = exTypes_def exSyscall_def exTarget_def exHeap_def exCalls_def exLowered_def Let_def


lemma exChecksums: "list_all (\<lambda>c. calcChecksumsCall exTypes exHeap c = Some ([], {})) exCalls"
  by (simp add: calcChecksumsCall_def ForeachArg_visits callVisits_def ex_defs noCtx_def csumField_def argType_def typeAt_def)

lemma exLower: "lowerProg iter exTypes exHeap exTarget exCalls = Some (exLowered, 1)"
  using exChecksums
  by (simp add: lowerProg_def lowerCall_def callVisits_def ex_defs noCtx_def lowerCopyin_def argType_def typeAt_def
    PhysicalAddr_def UnitOffset_def noteAddr_def willBeUsed_def isGroupOrUnion_def skipCopyin_def IsPad_def
    DataArg_Data_def isReadableDataType_def lowerRet_def Size_def lowerCopyout_def infoOf_def noInfo_def
    formatNum_def Format_def ResourceDefault_def)

lemma exOk: "fitsTypes exTypes" "list_all (callOk exTypes exHeap) exCalls"
  "list_all (callFits exTarget exTypes exHeap) exCalls" "ordered exTypes exHeap [] exCalls"
  by (simp_all add: fitsTypes_def fitsType_def callOk_def callFits_def wireTarget_def int64_def noProps_def
    callVisits_def ex_defs noCtx_def typeAt_def dataOk_def refersTo_def IsBitfield_def)

lemma exSize: "length (encProg he exLowered) = 168"
  by (simp add: exLowered_def encProg_def encCall_def encCopyin_def encProps_def blobBytes_def padLen_def host.length_put)

lemma exBytes: "SerializeForExec iter he exTypes exHeap exTarget exCalls 1024 = Some (Some (encProg he exLowered))"
  by (simp add: SerializeForExec_lower [OF exOk(2)] exLower exSize execMaxCommands_def)

text \<open>
  C17. Decoding what the serializer wrote gives back the calls the reference definition computes, with
  the same arguments, addresses and copyout indexes, and the table of default values of their results.
  The decoder rejects it only if the number of these values is not the number of copyouts.
\<close>

theorem exec_roundtrip:
  assumes "fitsTypes tt" and "list_all (callOk tt h) calls" and "list_all (callFits target tt h) calls"
    and "SerializeForExec iter he tt h target calls n = Some (Some bytes)" and "n < 2 ^ 62"
  shows "\<exists>es seq. lowerProg iter tt h target calls = Some (es, seq) \<and>
    DeserializeExec he target bytes =
      (let vars = fold callVars es [] in
       if of_nat (length vars) = seq then Inr \<lparr>ep_Calls = es, ep_Vars = vars\<rparr>
       else Inl (EVars (length vars) seq))"
proof -
  from assms(2,4,5) obtain es args seq where low: "lowerProg iter tt h target calls = Some (es, seq)"
    "lowerCalls iter tt h target calls Map.empty (of_nat 0) = Some (es, args, seq)"
    "bytes = encProg he es" "length (encProg he es) < 2 ^ 62"
    "0 + length (concat (map storedIdx es)) < 2 ^ 64 - 1" by (rule lowered_bounds)
  have "DeserializeExec he target bytes = decoded es"
    unfolding low(3) using lowerCalls_wire [OF assms(1-3) low(2)] low(4) by (rule DeserializeExec_encProg)
  moreover have "fold callNumVars es 0 = seq"
  proof -
    define k where "k = length (concat (map storedIdx es))"
    have st: "concat (map storedIdx es) = map of_nat [0..<0 + k]" "seq = of_nat (0 + k)"
      using lowerCalls_stored [OF low(2,5)] unfolding k_def by blast+
    have "fold maxVar (map of_nat [0..<0 + k]) (of_nat 0) = of_nat (0 + k)"
      by (rule maxVar_upt) (use low(5) k_def in simp)
    then show ?thesis unfolding numVars_stored st by simp
  qed
  ultimately show ?thesis using low(1) by (simp add: decoded_def Let_def)
qed

theorem exec_roundtrip_witness:
  "DeserializeExec LittleEndian exTarget (encProg LittleEndian exLowered) =
     Inr \<lparr>ep_Calls = exLowered, ep_Vars = [0xffffffffffffffff]\<rparr>"
proof -
  have "fold callVars exLowered [] = [0xffffffffffffffff]"
    by (simp add: exLowered_def callVars_def setVar_def)
  then show ?thesis
    using exec_roundtrip [OF exOk(1-3) exBytes [where iter = "\<lambda>m. m" and he = LittleEndian]] exLower by simp
qed

text \<open>
  C18. The serializer implements the reference definition for every buffer: it panics exactly when the
  reference definition does, reports a too small buffer exactly when the encoding of the calls does not
  fit or more than 1000 results are copied out, and otherwise writes that encoding.
\<close>

theorem SerializeForExec_refines:
  assumes "list_all (callOk tt h) calls"
  shows "SerializeForExec iter he tt h target calls n =
    (case lowerProg iter tt h target calls of
       None \<Rightarrow> None
     | Some (es, seq) \<Rightarrow>
         Some (if length (encProg he es) \<le> n \<and> seq \<le> 1000 then Some (encProg he es) else None))"
  by (auto simp: SerializeForExec_lower [OF assms] execMaxCommands_def not_less split: option.splits)

theorem SerializeForExec_refines_witness:
  "SerializeForExec (\<lambda>m. m) LittleEndian exTypes exHeap exTarget exCalls 168 = Some (Some (encProg LittleEndian exLowered)) \<and>
   SerializeForExec (\<lambda>m. m) LittleEndian exTypes exHeap exTarget exCalls 167 = Some None"
  using SerializeForExec_refines [OF exOk(2), of "\<lambda>m. m" LittleEndian exTarget] exLower exSize by simp







text \<open>
  C22. The number of arguments in the stream is trusted: after the stream has run out, the loop over the
  arguments of a call goes on. A stream of 24 bytes makes the decoder build any number of arguments
  before it reports the overflow.
\<close>

theorem decoder_trusts_count:
  assumes "tgt_Syscalls target \<noteq> []" and "length (tgt_Syscalls target) < 2 ^ 63" and "0 < n" and "n < 2 ^ 64"
  shows "let dec = parse he target (decoderOf (wordsOf he [0, ExecNoCopyout, of_nat n])) in
    d_err dec = Some EOverflow \<and> length (ec_Args (d_call dec)) = n"
proof -
  define d where "d = decoderOf []"
  have d: "d_err d = None" "d_call d = noCall" "decoderOf bs = d\<lparr>d_data := bs @ []\<rparr>" for bs
    by (simp_all add: d_def decoderOf_def)
  let ?c = "noCall\<lparr>ec_Meta := Some (tgt_Syscalls target ! 0), ec_Index := ExecNoCopyout\<rparr>"
  have id: "\<not> of_nat (length (tgt_Syscalls target)) \<le> (0 :: uint64)"
    using assms(1,2) by (simp add: word_le_nat_alt unat_of_nat)
  have ops: "(0 :: uint64) \<noteq> execInstrCopyin" "(0 :: uint64) \<noteq> execInstrCopyout" "(0 :: uint64) \<noteq> execInstrEOF"
    "(0 :: uint64) \<noteq> execInstrSetProps" by (simp_all add: exec_consts)
  have n: "unat (of_nat n :: uint64) = n" using assms(4) by (rule unat_of_nat64)
  have meta: "ec_Meta noCall = None" by (simp add: noCall_def)
  obtain m where m: "n = Suc m" using assms(3) by (cases n) auto
  have "parseInstr he target (d\<lparr>d_data := wordsOf he [0, ExecNoCopyout, of_nat n] @ []\<rparr>) =
    readCallArgs he n (d\<lparr>d_call := ?c, d_data := []\<rparr>)"
    using id n d(1,2) meta dread_put [where rest = "[]"]
    by (simp add: parseInstr_def decCall_def ops del: of_nat_Suc)
  also have "\<dots> = (True, d\<lparr>d_call := ?c\<lparr>ec_Args := replicate n (ExecArgConst 0 0 0 0 0 0)\<rparr>, d_data := [], d_err := Some EOverflow\<rparr>)"
    using m d(1) by (simp add: readArg_def dread_def setErr_def execArgConst_def readCallArgs_after_error noCall_def)
  finally have "parse he target (decoderOf (wordsOf he [0, ExecNoCopyout, of_nat n])) = parse he target
      (d\<lparr>d_call := ?c\<lparr>ec_Args := replicate n (ExecArgConst 0 0 0 0 0 0)\<rparr>, d_data := [], d_err := Some EOverflow\<rparr>)"
    unfolding d(3) by (intro parse_go) (simp_all add: d(1))
  then show ?thesis by (simp add: parse.simps Let_def)
qed

theorem decoder_trusts_count_witness:
  "length (ec_Args (d_call (parse LittleEndian exTarget
     (decoderOf (wordsOf LittleEndian [0, ExecNoCopyout, of_nat (2 ^ 40)]))))) = 2 ^ 40"
  using decoder_trusts_count [of exTarget "2 ^ 40" LittleEndian] by (simp add: exTarget_def Let_def)

end
