(* ===== verification/RandInt.thy ===== *)
theory RandInt
  imports Complex_Main Bytes
begin

text \<open>
  The random integers of \<^verbatim>\<open>prog/rand.go\<close>. Draws of 31, 63 and 64 bits take the next choice of the tape
  modulo their range. \<open>biasedRand\<close> computes in exact arithmetic with the multiple of \<open>2 ^ -53\<close> that
  \<^verbatim>\<open>Float64\<close> draws; the rounding of floating point numbers is not modelled.
\<close>

definition nOutOf :: "nat \<Rightarrow> nat \<Rightarrow> rng \<Rightarrow> (bool \<times> rng) option" where
  "nOutOf n outOf r =
     (if n = 0 \<or> outOf \<le> n then None
      else do { (v, r) \<leftarrow> Intn outOf r; Some (v < n, r) })"

definition randRange :: "uint64 \<Rightarrow> uint64 \<Rightarrow> rng \<Rightarrow> (uint64 \<times> rng) option" where
  "randRange begin e r =
     (if sint (e - begin + 1) \<le> 0 then None
      else do { (v, r) \<leftarrow> Intn (nat (sint (e - begin + 1))) r; Some (begin + of_nat v, r) })"

definition rand64 :: "rng \<Rightarrow> (uint64 \<times> rng) option" where
  "rand64 r = do {
     (v, r) \<leftarrow> Intn (2 ^ 63) r;
     (b, r) \<leftarrow> bin r;
     Some (if b then of_nat v OR push_bit 63 1 else of_nat v, r)
   }"

definition specialInts :: "uint64 list" where
  "specialInts =
     [0, 1, 31, 32, 63, 64, 127, 128,
      129, 255, 256, 257, 511, 512,
      1023, 1024, 1025, 2047, 2048, 4095, 4096,
      2 ^ 15 - 1, 2 ^ 15, 2 ^ 15 + 1,
      2 ^ 16 - 1, 2 ^ 16, 2 ^ 16 + 1,
      2 ^ 31 - 1, 2 ^ 31, 2 ^ 31 + 1,
      2 ^ 32 - 1, 2 ^ 32, 2 ^ 32 + 1,
      2 ^ 63 - 1, 2 ^ 63, 2 ^ 63 + 1,
      - 1]"

text \<open>The binary search for the first number of more than \<open>8 * i\<close> bits in the sorted list.\<close>

definition specialIntIndex :: "nat \<Rightarrow> nat" where
  "specialIntIndex i = length (takeWhile (\<lambda>v. drop_bit (8 * i) v = 0) specialInts)"

definition truncateToBitSize :: "uint64 \<Rightarrow> uint64 \<Rightarrow> uint64 option" where
  "truncateToBitSize v bitSize =
     (if bitSize = 0 \<or> bitSize > 64 then None else Some (v AND (push_bit (unat bitSize) 1 - 1)))"

text \<open>The two switches of \<^verbatim>\<open>randInt\<close>: the magnitude of the number, then its sign or a shift.\<close>

definition randMagnitude :: "uint64 \<Rightarrow> uint64 \<Rightarrow> rng \<Rightarrow> (uint64 \<times> rng) option" where
  "randMagnitude bits v r = do {
     (b, r) \<leftarrow> nOutOf 100 182 r;
     if b then Some (v mod 10, r)
     else do {
       (b, r) \<leftarrow> (if bits \<ge> 8 then nOutOf 50 82 r else Some (False, r));
       if b then
         (if unat bits div 8 > 8 then None
          else do { (i, r) \<leftarrow> Intn (specialIntIndex (unat bits div 8)) r; Some (specialInts ! i, r) })
       else do {
         (b, r) \<leftarrow> nOutOf 10 32 r;
         if b then Some (v mod 256, r)
         else do {
           (b, r) \<leftarrow> nOutOf 10 22 r;
           if b then Some (v mod (4 * 2 ^ 10), r)
           else do {
             (b, r) \<leftarrow> nOutOf 10 12 r;
             if b then Some (v mod (64 * 2 ^ 10), r) else Some (v mod 2 ^ 31, r)
           }
         }
       }
     }
   }"

definition randSign :: "uint64 \<Rightarrow> uint64 \<Rightarrow> rng \<Rightarrow> (uint64 \<times> rng) option" where
  "randSign bits v r = do {
     (b, r) \<leftarrow> nOutOf 100 107 r;
     if b then Some (v, r)
     else do {
       (b, r) \<leftarrow> nOutOf 5 7 r;
       if b then Some (- v, r)
       else do { (k, r) \<leftarrow> Intn (unat bits) r; Some (push_bit k v, r) }
     }
   }"

definition randInt :: "uint64 \<Rightarrow> rng \<Rightarrow> (uint64 \<times> rng) option" where
  "randInt bits r = do {
     (v, r) \<leftarrow> rand64 r;
     (v, r) \<leftarrow> randMagnitude bits v r;
     (v, r) \<leftarrow> randSign bits v r;
     v \<leftarrow> truncateToBitSize v bits;
     Some (v, r)
   }"

definition randInt64 :: "rng \<Rightarrow> (uint64 \<times> rng) option" where
  "randInt64 r = randInt 64 r"

text \<open>A value of the range; Go's \<^verbatim>\<open>%\<close> panics on the divisor that a full range wraps around to.\<close>

definition randInRange :: "uint64 \<Rightarrow> uint64 \<Rightarrow> uint64 \<Rightarrow> rng \<Rightarrow> (uint64 \<times> rng) option" where
  "randInRange begin e bitSize r = do {
     (b, r) \<leftarrow> oneOf 100 r;
     if b then randInt bitSize r
     else do {
       (v, r) \<leftarrow> Intn (2 ^ 64) r;
       if e - begin + 1 = 0 then None else Some (begin + of_nat v mod (e - begin + 1), r)
     }
   }"

definition randRangeInt :: "uint64 \<Rightarrow> uint64 \<Rightarrow> uint64 \<Rightarrow> uint64 \<Rightarrow> rng \<Rightarrow> (uint64 \<times> rng) option" where
  "randRangeInt begin e bitSize align r =
     (if align = 0 then randInRange begin e bitSize r
      else do {
        (b, r) \<leftarrow> oneOf 100 r;
        if b then randInt bitSize r
        else do {
          let e = (if begin = 0 \<and> sint e = -1 then push_bit (unat bitSize) 1 - 1 else e);
          let endAlign = (e - begin) div align;
          (v, r) \<leftarrow> randInRange 0 endAlign bitSize r;
          Some (begin + v * align, r)
        }
      })"

definition biasedRand :: "nat \<Rightarrow> nat \<Rightarrow> rng \<Rightarrow> (nat \<times> rng) option" where
  "biasedRand n k r = do {
     (c, r) \<leftarrow> Intn (2 ^ 53) r;
     let nf = real n;
     let kf = real k;
     let rf = nf * (kf / 2 + 1) * (real c / 2 ^ 53);
     let bf = (- 1 + sqrt (1 + 2 * kf * rf / nf)) * nf / kf;
     Some (nat \<lfloor>bf\<rfloor>, r)
   }"

subsection \<open>Ranges\<close>

text \<open>\<open>runs m\<close>: the computation does not panic. The rules follow the monadic structure.\<close>

definition runs :: "'a option \<Rightarrow> bool" where
  "runs m \<longleftrightarrow> m \<noteq> None"

named_theorems runs_intro \<open>computations that do not panic\<close>

lemma runs_Some [simp]: "runs (Some x)" and runs_None [simp]: "\<not> runs None"
  by (simp_all add: runs_def)

lemma runs_pair [runs_intro]:
  "runs m \<Longrightarrow> (\<And>a b. m = Some (a, b) \<Longrightarrow> runs (f a b)) \<Longrightarrow> runs (Option.bind m (\<lambda>(a, b). f a b))"
  by (cases m) auto

lemma runs_triple [runs_intro]:
  "runs m \<Longrightarrow> (\<And>a b c. m = Some (a, b, c) \<Longrightarrow> runs (f a b c)) \<Longrightarrow> runs (Option.bind m (\<lambda>(a, b, c). f a b c))"
  by (cases m) auto

lemma runs_bind [runs_intro]:
  "runs m \<Longrightarrow> (\<And>a. m = Some a \<Longrightarrow> runs (f a)) \<Longrightarrow> runs (Option.bind m f)"
  by (cases m) auto

lemma runs_if [runs_intro]: "(b \<Longrightarrow> runs m) \<Longrightarrow> (\<not> b \<Longrightarrow> runs n) \<Longrightarrow> runs (if b then m else n)"
  by simp

lemma runs_draws [runs_intro]:
  "0 < n \<Longrightarrow> runs (Intn n r)" "runs (bin r)" "0 < n \<Longrightarrow> runs (oneOf n r)"
  "0 < n \<Longrightarrow> n < m \<Longrightarrow> runs (nOutOf n m r)" "0 < n \<Longrightarrow> runs (rand n r)" "runs (rand64 r)"
  by (cases r; auto simp: runs_def Intn_def bin_def oneOf_def nOutOf_def rand_def rand64_def split: list.splits)+

lemma truncate_bits:
  assumes "truncateToBitSize v bits = Some w"
  shows "unat w < 2 ^ unat bits" and "w = take_bit (unat bits) v"
proof -
  show w: "w = take_bit (unat bits) v"
    using assms by (simp add: truncateToBitSize_def take_bit_eq_mask mask_eq_exp_minus_1 push_bit_eq_mult split: if_splits)
  have "take_bit (unat bits) (unat v) < 2 ^ unat bits" by (rule take_bit_nat_less_exp)
  then show "unat w < 2 ^ unat bits" by (simp add: w unsigned_take_bit_eq)
qed

lemma specialIntIndex_pos: "0 < specialIntIndex i"
  by (simp add: specialIntIndex_def specialInts_def)

lemma specialIntIndex_le: "specialIntIndex i \<le> length specialInts"
  by (simp add: specialIntIndex_def length_takeWhile_le)

lemma randMagnitude_runs [runs_intro]: "bits \<le> 64 \<Longrightarrow> runs (randMagnitude bits v r)"
proof -
  assume "bits \<le> 64"
  then have "\<not> 8 < unat bits div 8" by (simp add: word_le_nat_alt)
  then show ?thesis
    unfolding randMagnitude_def by (intro runs_intro) (simp_all add: specialIntIndex_pos)
qed

lemma randSign_runs [runs_intro]: "bits \<noteq> 0 \<Longrightarrow> runs (randSign bits v r)"
  unfolding randSign_def by (intro runs_intro) (simp_all add: unat_gt_0)

lemma truncate_runs [runs_intro]: "bits \<noteq> 0 \<Longrightarrow> bits \<le> 64 \<Longrightarrow> runs (truncateToBitSize v bits)"
  by (auto simp: truncateToBitSize_def)

lemma randInt_runs [runs_intro]: "bits \<noteq> 0 \<Longrightarrow> bits \<le> 64 \<Longrightarrow> runs (randInt bits r)"
  unfolding randInt_def by (intro runs_intro) simp_all

lemma randInt_lt: "randInt bits r = Some (v, r') \<Longrightarrow> unat v < 2 ^ unat bits"
  by (auto simp: randInt_def elim!: bind_pairE bind_someE dest: truncate_bits(1))

lemma floor_nat_less: "(x :: real) < real n \<Longrightarrow> 0 < n \<Longrightarrow> nat \<lfloor>x\<rfloor> < n"
proof -
  assume "x < real n" and "0 < n"
  then have "\<lfloor>x\<rfloor> < int n" by (simp add: floor_less_iff)
  with \<open>0 < n\<close> show ?thesis by linarith
qed

lemma biasedRand_lt:
  assumes "0 < n" and "0 < k" and "biasedRand n k r = Some (v, r')"
  shows "v < n"
proof -
  from assms(3) obtain c r1 where c: "Intn (2 ^ 53) r = Some (c, r1)" and
    "Some (nat \<lfloor>(- 1 + sqrt (1 + 2 * real k * (real n * (real k / 2 + 1) * (real c / 2 ^ 53)) / real n)) * real n / real k\<rfloor>, r1) =
     Some (v, r')"
    unfolding biasedRand_def Let_def by (rule bind_pairE)
  then have v: "v = nat \<lfloor>(- 1 + sqrt (1 + 2 * real k * (real n * (real k / 2 + 1) * (real c / 2 ^ 53)) / real n)) * real n / real k\<rfloor>"
    by simp
  define f where "f = real c / 2 ^ 53"
  have "real c < 2 ^ 53" using Intn_Some_lt [OF c] by (metis of_nat_less_iff of_nat_numeral of_nat_power)
  then have f: "0 \<le> f" "f < 1" by (simp_all add: f_def)
  have "1 + 2 * real k * (real n * (real k / 2 + 1) * f) / real n = 1 + (real k * real k + 2 * real k) * f"
    using assms(1) by (simp add: field_simps)
  also have "\<dots> < 1 + (real k * real k + 2 * real k) * 1"
    using f(2) assms(2) by (intro add_strict_left_mono mult_strict_left_mono) (simp_all add: add_pos_pos)
  also have "\<dots> = (real k + 1) ^ 2" by (simp add: power2_eq_square algebra_simps)
  finally have "sqrt (1 + 2 * real k * (real n * (real k / 2 + 1) * f) / real n) < real k + 1"
    by (intro real_less_lsqrt) auto
  then have "(- 1 + sqrt (1 + 2 * real k * (real n * (real k / 2 + 1) * f) / real n)) * real n < real k * real n"
    using assms(1) by (intro mult_strict_right_mono) simp_all
  then have "(- 1 + sqrt (1 + 2 * real k * (real n * (real k / 2 + 1) * f) / real n)) * real n / real k < real n"
    using assms(2) by (simp only: pos_divide_less_eq of_nat_0_less_iff mult.commute)
  then show ?thesis unfolding v f_def [symmetric] using assms(1) by (rule floor_nat_less)
qed

lemma biasedRand_runs [runs_intro]: "runs (biasedRand n k r)"
  unfolding biasedRand_def Let_def by (intro runs_intro) simp_all

end
