(* ===== verification/MutateData.thy ===== *)
theory MutateData
  imports RandInt
begin

text \<open>
  Mutation of byte data, \<^verbatim>\<open>mutateData\<close> of \<^verbatim>\<open>prog/mutation.go\<close>: seven mutations of a byte slice, one of
  which is drawn and applied until the loop stops. A mutation returns the data, whether it did something,
  and the rest of the tape. The bounds on the length are taken as natural numbers: the code converts
  them to \<^verbatim>\<open>int\<close>, and every caller passes bounds that fit.
\<close>

definition swapInt :: "uint64 \<Rightarrow> nat \<Rightarrow> uint64 option" where
  "swapInt v sz =
     (if sz = 1 then Some v
      else if sz = 2 then Some (ucast (swap16 (ucast v)))
      else if sz = 4 then Some (ucast (swap32 (ucast v)))
      else if sz = 8 then Some (swap64 v)
      else None)"

definition loadInt :: "byte list \<Rightarrow> nat \<Rightarrow> uint64 option" where
  "loadInt dat sz =
     (if sz \<in> {1, 2, 4, 8} \<and> sz \<le> length dat then Some (leWord (take sz dat)) else None)"

definition storeInt :: "byte list \<Rightarrow> uint64 \<Rightarrow> nat \<Rightarrow> byte list option" where
  "storeInt dat v sz =
     (if sz \<in> {1, 2, 4, 8} \<and> sz \<le> length dat then Some (leBytes sz v @ drop sz dat) else None)"

text \<open>A store through the slice \<^verbatim>\<open>data[i:]\<close>.\<close>

definition storeAt :: "byte list \<Rightarrow> nat \<Rightarrow> uint64 \<Rightarrow> nat \<Rightarrow> byte list option" where
  "storeAt dat i v sz = map_option (\<lambda>d. take i dat @ d) (storeInt (drop i dat) v sz)"

definition maxDelta :: nat where "maxDelta = 35"

type_synonym mutation = "(byte list \<times> bool \<times> rng) option"

definition flipBit :: "rng \<Rightarrow> byte list \<Rightarrow> mutation" where
  "flipBit r dat =
     (if dat = [] then Some (dat, False, r)
      else do {
        (byt, r) \<leftarrow> Intn (length dat) r;
        (b, r) \<leftarrow> Intn 8 r;
        Some (dat[byt := dat ! byt XOR push_bit b 1], True, r)
      })"

fun drawBytes :: "nat \<Rightarrow> nat \<Rightarrow> rng \<Rightarrow> (byte list \<times> rng) option" where
  "drawBytes m 0 r = Some ([], r)"
| "drawBytes m (Suc n) r = do {
     (b, r) \<leftarrow> Intn m r;
     (bs, r) \<leftarrow> drawBytes m n r;
     Some (of_nat b # bs, r)
   }"

definition insertBytes :: "rng \<Rightarrow> byte list \<Rightarrow> nat \<Rightarrow> mutation" where
  "insertBytes r dat maxLen =
     (if dat = [] \<or> length dat \<ge> maxLen then Some (dat, False, r)
      else do {
        (k, r) \<leftarrow> Intn 16 r;
        let n = min (k + 1) (maxLen - length dat);
        (pos, r) \<leftarrow> Intn (length dat) r;
        (bs, r) \<leftarrow> drawBytes (2 ^ 31) n r;
        let dat = take pos dat @ bs @ drop pos dat;
        (cut, r) \<leftarrow> (if length dat > maxLen then Some (True, r) else bin r);
        Some (if cut then take (length dat - n) dat else dat, True, r)
      })"

definition removeBytes :: "rng \<Rightarrow> byte list \<Rightarrow> nat \<Rightarrow> mutation" where
  "removeBytes r dat minLen =
     (if dat = [] then Some (dat, False, r)
      else do {
        (k, r) \<leftarrow> Intn 16 r;
        let n = min (k + 1) (length dat);
        (pos, r) \<leftarrow> (if n < length dat then Intn (length dat - n) r else Some (0, r));
        let dat = take pos dat @ drop (pos + n) dat;
        (pad, r) \<leftarrow> (if length dat < minLen then Some (True, r) else bin r);
        Some (if pad then dat @ replicate n 0 else dat, True, r)
      })"

definition appendBytes :: "rng \<Rightarrow> byte list \<Rightarrow> nat \<Rightarrow> mutation" where
  "appendBytes r dat maxLen =
     (if length dat \<ge> maxLen then Some (dat, False, r)
      else do {
        (k, r) \<leftarrow> biasedRand 256 10 r;
        let n = min (256 - k) (maxLen - length dat);
        (bs, r) \<leftarrow> drawBytes 256 n r;
        Some (dat @ bs, True, r)
      })"

definition replaceInt :: "rng \<Rightarrow> byte list \<Rightarrow> mutation" where
  "replaceInt r dat = do {
     (w, r) \<leftarrow> Intn 4 r;
     let width = 2 ^ w;
     if length dat < width then Some (dat, False, r)
     else do {
       (i, r) \<leftarrow> Intn (length dat - width + 1) r;
       (v, r) \<leftarrow> Intn (2 ^ 64) r;
       dat \<leftarrow> storeAt dat i (of_nat v) width;
       Some (dat, True, r)
     }
   }"

definition addInt :: "rng \<Rightarrow> byte list \<Rightarrow> mutation" where
  "addInt r dat = do {
     (w, r) \<leftarrow> Intn 4 r;
     let width = 2 ^ w;
     if length dat < width then Some (dat, False, r)
     else do {
       (i, r) \<leftarrow> Intn (length dat - width + 1) r;
       v \<leftarrow> loadInt (drop i dat) width;
       (d, r) \<leftarrow> rand (2 * maxDelta + 1) r;
       let delta = d - of_nat maxDelta;
       let delta = (if delta = 0 then 1 else delta);
       (big, r) \<leftarrow> oneOf 10 r;
       v \<leftarrow> (if big then do { v \<leftarrow> swapInt v width; swapInt (v + delta) width } else Some (v + delta));
       dat \<leftarrow> storeAt dat i v width;
       Some (dat, True, r)
     }
   }"

definition interestingInt :: "rng \<Rightarrow> byte list \<Rightarrow> mutation" where
  "interestingInt r dat = do {
     (w, r) \<leftarrow> Intn 4 r;
     let width = 2 ^ w;
     if length dat < width then Some (dat, False, r)
     else do {
       (i, r) \<leftarrow> Intn (length dat - width + 1) r;
       (v, r) \<leftarrow> randInt64 r;
       (big, r) \<leftarrow> oneOf 10 r;
       dat \<leftarrow> storeAt dat i (if big then swap64 v else v) width;
       Some (dat, True, r)
     }
   }"

text \<open>The table of mutations, in its order.\<close>

definition mutateDataFuncs :: "nat \<Rightarrow> rng \<Rightarrow> byte list \<Rightarrow> nat \<Rightarrow> nat \<Rightarrow> mutation" where
  "mutateDataFuncs k r dat minLen maxLen =
     (if k = 0 then flipBit r dat
      else if k = 1 then insertBytes r dat maxLen
      else if k = 2 then removeBytes r dat minLen
      else if k = 3 then appendBytes r dat maxLen
      else if k = 4 then replaceInt r dat
      else if k = 5 then addInt r dat
      else interestingInt r dat)"

definition mutateOnce :: "rng \<Rightarrow> byte list \<Rightarrow> nat \<Rightarrow> nat \<Rightarrow> mutation" where
  "mutateOnce r dat minLen maxLen = do {
     (k, r) \<leftarrow> Intn 7 r;
     (dat, stop, r) \<leftarrow> mutateDataFuncs k r dat minLen maxLen;
     (stop, r) \<leftarrow> (if stop then oneOf 3 r else Some (False, r));
     Some (dat, stop, r)
   }"

text \<open>The loop. Not returning is None; a panic of a mutation would be \<open>Some None\<close>.\<close>

partial_function (option) mutateData ::
  "rng \<Rightarrow> byte list \<Rightarrow> nat \<Rightarrow> nat \<Rightarrow> (byte list \<times> rng) option option" where
  "mutateData r dat minLen maxLen =
     (case mutateOnce r dat minLen maxLen of
        None \<Rightarrow> Some None
      | Some (dat, stop, r) \<Rightarrow> if stop then Some (Some (dat, r)) else mutateData r dat minLen maxLen)"

lemmas mutateData_ind = mutateData.raw_induct [rotated, consumes 1, case_names step]

subsection \<open>Loads and stores\<close>

lemma widths: "w < 4 \<Longrightarrow> (2 :: nat) ^ w \<in> {1, 2, 4, 8}"
  by (auto simp: less_Suc_eq numeral_eq_Suc)

lemma storeAt_length: "storeAt dat i v sz = Some d \<Longrightarrow> length d = length dat"
  by (auto simp: storeAt_def storeInt_def split: if_splits)

lemma storeAt_runs [runs_intro]: "w < 4 \<Longrightarrow> i + 2 ^ w \<le> length dat \<Longrightarrow> runs (storeAt dat i v (2 ^ w))"
  using widths [of w] by (simp add: storeAt_def storeInt_def)

lemma loadInt_runs [runs_intro]: "w < 4 \<Longrightarrow> i + 2 ^ w \<le> length dat \<Longrightarrow> runs (loadInt (drop i dat) (2 ^ w))"
  using widths [of w] by (simp add: loadInt_def)

lemma swapInt_runs [runs_intro]: "w < 4 \<Longrightarrow> runs (swapInt v (2 ^ w))"
  using widths [of w] by (auto simp: swapInt_def)

lemma drawBytes_runs [runs_intro]: "0 < m \<Longrightarrow> runs (drawBytes m n r)"
  by (induction n arbitrary: r) (auto intro!: runs_intro)

lemma drawBytes_length: "drawBytes m n r = Some (bs, r') \<Longrightarrow> length bs = n"
  by (induction n arbitrary: r bs) (auto elim!: bind_pairE)

subsection \<open>Every mutation runs and keeps the bounds\<close>

lemma flipBit_runs [runs_intro]: "runs (flipBit r dat)"
  unfolding flipBit_def by (intro runs_intro) simp_all

lemma insertBytes_runs [runs_intro]: "runs (insertBytes r dat maxLen)"
  unfolding insertBytes_def Let_def by (intro runs_intro) simp_all

lemma removeBytes_runs [runs_intro]: "runs (removeBytes r dat minLen)"
  unfolding removeBytes_def Let_def by (intro runs_intro) simp_all

lemma appendBytes_runs [runs_intro]: "runs (appendBytes r dat maxLen)"
  unfolding appendBytes_def Let_def by (intro runs_intro) simp_all

lemma pos_fits: "Intn (length dat - width + 1) r = Some (i, r') \<Longrightarrow> \<not> length dat < width \<Longrightarrow> i + width \<le> length dat"
  by (auto dest: Intn_Some_lt)

lemma replaceInt_runs [runs_intro]: "runs (replaceInt r dat)"
  unfolding replaceInt_def Let_def by (intro runs_intro) (auto dest: Intn_Some_lt pos_fits)

lemma addInt_runs [runs_intro]: "runs (addInt r dat)"
  unfolding addInt_def Let_def by (intro runs_intro) (auto dest: Intn_Some_lt pos_fits)

lemma interestingInt_runs [runs_intro]: "runs (interestingInt r dat)"
  unfolding interestingInt_def randInt64_def Let_def by (intro runs_intro) (auto dest: Intn_Some_lt pos_fits)

lemma mutateOnce_runs: "runs (mutateOnce r dat minLen maxLen)"
  unfolding mutateOnce_def mutateDataFuncs_def by (intro runs_intro) simp_all

text \<open>The length after each mutation.\<close>

lemma flipBit_length: "flipBit r dat = Some (d, s, r') \<Longrightarrow> length d = length dat"
  by (auto simp: flipBit_def elim!: bind_pairE split: if_splits)

lemma insertBytes_length:
  assumes "insertBytes r dat maxLen = Some (d, s, r')" and "length dat \<le> maxLen"
  shows "length dat \<le> length d \<and> length d \<le> maxLen"
proof (cases "dat = [] \<or> length dat \<ge> maxLen")
  case True
  then show ?thesis using assms by (simp add: insertBytes_def)
next
  case False
  with assms(1) obtain n pos bs r1 cut where
    pos: "pos < length dat" and bs: "length bs = n" and n: "n \<le> maxLen - length dat" and
    d: "d = (if cut then take (length dat + n - n) (take pos dat @ bs @ drop pos dat) else take pos dat @ bs @ drop pos dat)"
    by (auto simp: insertBytes_def Let_def elim!: bind_pairE dest!: drawBytes_length Intn_Some_lt) fastforce+
  have "length (take pos dat @ bs @ drop pos dat) = length dat + n" using pos bs by simp
  then show ?thesis using d n assms(2) by auto
qed

lemma removeBytes_length:
  "removeBytes r dat minLen = Some (d, s, r') \<Longrightarrow> minLen \<le> length dat \<Longrightarrow> minLen \<le> length d \<and> length d \<le> length dat"
  by (auto simp: removeBytes_def Let_def elim!: bind_pairE split: if_splits dest!: Intn_Some_lt)

lemma appendBytes_length:
  "appendBytes r dat maxLen = Some (d, s, r') \<Longrightarrow> length dat \<le> maxLen \<Longrightarrow> length dat \<le> length d \<and> length d \<le> maxLen"
  by (auto simp: appendBytes_def Let_def elim!: bind_pairE split: if_splits dest!: drawBytes_length)

lemma intMutations_length:
  "replaceInt r dat = Some (d, s, r') \<Longrightarrow> length d = length dat"
  "addInt r dat = Some (d, s, r') \<Longrightarrow> length d = length dat"
  "interestingInt r dat = Some (d, s, r') \<Longrightarrow> length d = length dat"
  by (auto simp: replaceInt_def addInt_def interestingInt_def Let_def elim!: bind_pairE bind_someE
      split: if_splits dest!: storeAt_length)

lemma mutateOnce_length:
  assumes "mutateOnce r dat minLen maxLen = Some (d, s, r')" and "minLen \<le> length dat" and "length dat \<le> maxLen"
  shows "minLen \<le> length d \<and> length d \<le> maxLen"
proof -
  from assms(1) obtain k r1 s1 r2 where "mutateDataFuncs k r1 dat minLen maxLen = Some (d, s1, r2)"
    by (auto simp: mutateOnce_def elim!: bind_pairE bind_tripleE)
  then show ?thesis using assms(2,3)
    by (auto simp: mutateDataFuncs_def split: if_splits
        dest: flipBit_length insertBytes_length removeBytes_length appendBytes_length intMutations_length)
qed

text \<open>On no data and with no room for data, every mutation gives up.\<close>

lemma mutateOnce_stuck: "mutateOnce r [] minLen 0 = Some (d, s, r') \<Longrightarrow> d = [] \<and> \<not> s"
  by (auto simp: mutateOnce_def mutateDataFuncs_def flipBit_def insertBytes_def removeBytes_def appendBytes_def
      replaceInt_def addInt_def interestingInt_def Let_def elim!: bind_pairE bind_tripleE split: if_splits)

lemma mutateData_stuck: "mutateData r dat minLen maxLen = Some res \<Longrightarrow> dat \<noteq> [] \<or> maxLen \<noteq> 0"
proof (induction rule: mutateData_ind)
  case (step rec r dat minLen maxLen res)
  show ?case
  proof (rule ccontr)
    assume "\<not> (dat \<noteq> [] \<or> maxLen \<noteq> 0)"
    then have [simp]: "dat = []" "maxLen = 0" by simp_all
    obtain r1 where "mutateOnce r dat minLen maxLen = Some ([], False, r1)"
      using mutateOnce_runs [of r dat minLen maxLen] mutateOnce_stuck [of r minLen] by (fastforce simp: runs_def)
    then show False using step(1) [of r1 "[]" minLen 0 res] step(2) by simp
  qed
qed

text \<open>An exhausted tape yields zeros.\<close>

lemma drawBytes_end: "0 < m \<Longrightarrow> drawBytes m n [] = Some (replicate n 0, [])"
  by (induction n) (simp_all add: Intn_def)

subsection \<open>The results\<close>



text \<open>
  C26. The mutation of data can return exactly if there is data or room for data: with empty data and a
  maximal length of zero no mutation applies, and the loop runs forever whatever is drawn.
\<close>

theorem mutateData_returns:
  "(\<exists>r res. mutateData r dat minLen maxLen = Some res) \<longleftrightarrow> 0 < length dat + maxLen"
proof
  assume "\<exists>r res. mutateData r dat minLen maxLen = Some res"
  then obtain r res where "mutateData r dat minLen maxLen = Some res" by blast
  then show "0 < length dat + maxLen" using mutateData_stuck by fastforce
next
  assume "0 < length dat + maxLen"
  then consider "dat \<noteq> []" | "dat = []" "maxLen \<noteq> 0" by fastforce
  then have "\<exists>r d r'. mutateOnce r dat minLen maxLen = Some (d, True, r')"
  proof cases
    case 1
    then have "mutateOnce [] dat minLen maxLen = Some (dat[0 := dat ! 0 XOR 1], True, [])"
      by (simp add: mutateOnce_def mutateDataFuncs_def flipBit_def Intn_def oneOf_def)
    then show ?thesis by blast
  next
    case 2
    then have "mutateOnce [3] dat minLen maxLen = Some (replicate (min 256 maxLen) 0, True, [])"
      by (simp add: mutateOnce_def mutateDataFuncs_def appendBytes_def Intn_def oneOf_def biasedRand_def drawBytes_end)
    then show ?thesis by blast
  qed
  then obtain r d r' where "mutateOnce r dat minLen maxLen = Some (d, True, r')" by blast
  then have "mutateData r dat minLen maxLen = Some (Some (d, r'))" by (simp add: mutateData.simps)
  then show "\<exists>r res. mutateData r dat minLen maxLen = Some res" by blast
qed

text \<open>What is loaded from the place of a store are the low bytes of the number stored.\<close>

lemma loadInt_storeInt:
  assumes "storeInt dat v sz = Some d"
  shows "loadInt d sz = Some (take_bit (8 * sz) v)"
proof -
  have sz: "sz \<in> {1, 2, 4, 8}" "sz \<le> length dat" "d = leBytes sz v @ drop sz dat"
    using assms by (auto simp: storeInt_def split: if_splits)
  have "leWord (leBytes sz v) = take_bit (8 * sz) v"
  proof (rule bit_eqI)
    fix n
    show "bit (leWord (leBytes sz v) :: uint64) n = bit (take_bit (8 * sz) v) n"
      using sz(1) bit_ge_length [of n v]
      by (auto simp: bit_leWord leBytes_def bit_take_bit_iff bit_ucast_iff bit_drop_bit_eq less_mult_imp_div_less
          mult.commute)
  qed
  then show ?thesis using sz by (auto simp: loadInt_def)
qed

text \<open>
  C28. A random integer of 1 to 64 bits is always produced and fits into its bits.
\<close>

theorem randInt_range:
  assumes "1 \<le> bits" and "bits \<le> 64"
  shows "\<exists>v r'. randInt bits r = Some (v, r') \<and> unat v < 2 ^ unat bits"
proof -
  have "bits \<noteq> 0" using assms(1) by auto
  then obtain v r' where "randInt bits r = Some (v, r')"
    using randInt_runs [of bits r] assms(2) by (auto simp: runs_def)
  then show ?thesis using randInt_lt by blast
qed

theorem randInt_range_witness: "\<exists>v r'. randInt 8 [1, 2, 3] = Some (v, r') \<and> unat v < 2 ^ unat (8 :: uint64)"
  by (rule randInt_range) simp_all

text \<open>The biased choice among \<open>n\<close> values is one of them.\<close>

lemma biasedRand_range:
  assumes "0 < n" and "0 < k"
  shows "\<exists>v r'. biasedRand n k r = Some (v, r') \<and> v < n"
  using biasedRand_runs [of n k r] biasedRand_lt [OF assms] by (auto simp: runs_def)

end
