(* ===== verification/Hints.thy ===== *)
theory Hints
  imports MutateData
begin

text \<open>
  Comparison hints, \<^verbatim>\<open>prog/hints.go\<close>: the values that could replace a number of the program because the
  kernel compared (a narrowed, widened or byte-swapped form of) it with something. A comparison map is a
  finite table from a number to the numbers it was compared with, in any order.
\<close>

type_synonym CompMap = "(uint64 \<times> uint64 list) list"

definition compsOf :: "CompMap \<Rightarrow> uint64 \<Rightarrow> uint64 list" where
  "compsOf m v = (case map_of m v of None \<Rightarrow> [] | Some cs \<Rightarrow> cs)"

fun AddComp :: "CompMap \<Rightarrow> uint64 \<Rightarrow> uint64 \<Rightarrow> CompMap" where
  "AddComp [] arg1 arg2 = [(arg1, [arg2])]"
| "AddComp ((a, cs) # m) arg1 arg2 =
     (if a = arg1 then (a, List.insert arg2 cs) # m else (a, cs) # AddComp m arg1 arg2)"

definition specialIntsSet :: "uint64 \<Rightarrow> bool" where
  "specialIntsSet v \<longleftrightarrow> v \<in> set specialInts"

text \<open>\<^verbatim>\<open>1<<size - 1\<close>, which is all ones for a size of 64.\<close>

definition maskOf :: "nat \<Rightarrow> uint64" where
  "maskOf sz = push_bit sz 1 - 1"

definition sizeOf :: "int \<Rightarrow> nat \<Rightarrow> nat" where
  "sizeOf iwidth bitsize =
     (if iwidth > 0 then nat iwidth * 8 else min (nat (- iwidth) * 8) bitsize)"

text \<open>The value to look up for a width, if it applies to the number; negative widths sign extend.\<close>

definition mutantOf :: "uint64 \<Rightarrow> int \<Rightarrow> nat \<Rightarrow> uint64 option" where
  "mutantOf v iwidth sz =
     (if iwidth > 0 then Some (v AND maskOf sz)
      else if v AND push_bit (sz - 1) 1 = 0 then None
      else Some (v OR NOT (maskOf sz)))"

definition skipImage :: "bool \<Rightarrow> nat \<Rightarrow> nat \<Rightarrow> uint64 \<Rightarrow> bool" where
  "skipImage img width sz mutant \<longleftrightarrow>
     img \<and> (width < 4 \<or> mutant = 0 \<or> mutant OR NOT (maskOf sz) = NOT 0)"

text \<open>The replacer that one compared value gives, if it gives one.\<close>

definition replacerOf ::
  "uint64 \<Rightarrow> uint64 \<Rightarrow> uint64 \<Rightarrow> bool \<Rightarrow> nat \<Rightarrow> nat \<Rightarrow> bool \<Rightarrow> uint64 \<Rightarrow> uint64 option option" where
  "replacerOf v bitsize limit img width sz bigendian newV =
     (if newV > limit \<and> NOT (drop_bit 1 limit) AND newV \<noteq> NOT (drop_bit 1 limit) then Some None
      else
        let mask = maskOf sz;
            newHi = newV AND NOT mask;
            newV = newV AND mask
        in if newHi \<noteq> 0 \<and> newHi XOR NOT mask \<noteq> 0 then Some None
           else do {
             newV \<leftarrow> (if bigendian then swapInt newV width else Some newV);
             if \<not> img \<and> specialIntsSet newV then Some None
             else
               let replacer = (v AND NOT mask) OR newV
               in if replacer = v then Some None
                  else map_option Some (truncateToBitSize replacer bitsize)
           })"

fun replacersOf ::
  "uint64 \<Rightarrow> uint64 \<Rightarrow> uint64 \<Rightarrow> bool \<Rightarrow> nat \<Rightarrow> nat \<Rightarrow> bool \<Rightarrow> uint64 list \<Rightarrow> uint64 list option" where
  "replacersOf v bitsize limit img width sz bigendian [] = Some []"
| "replacersOf v bitsize limit img width sz bigendian (c # cs) = do {
     x \<leftarrow> replacerOf v bitsize limit img width sz bigendian c;
     xs \<leftarrow> replacersOf v bitsize limit img width sz bigendian cs;
     Some (case x of None \<Rightarrow> xs | Some y \<Rightarrow> y # xs)
   }"

text \<open>One round of the loop over the widths: little endian, then big endian for more than one byte.\<close>

definition widthReplacers ::
  "uint64 \<Rightarrow> CompMap \<Rightarrow> uint64 \<Rightarrow> uint64 \<Rightarrow> bool \<Rightarrow> int \<Rightarrow> uint64 list option" where
  "widthReplacers v compMap bitsize limit img iwidth =
     (let width = nat \<bar>iwidth\<bar>;
          sz = sizeOf iwidth (unat bitsize)
      in case mutantOf v iwidth sz of
           None \<Rightarrow> Some []
         | Some mutant \<Rightarrow>
             if skipImage img width sz mutant then Some []
             else do {
               le \<leftarrow> replacersOf v bitsize limit img width sz False (compsOf compMap mutant);
               be \<leftarrow> (if width = 1 then Some []
                      else do {
                        swapped \<leftarrow> swapInt mutant width;
                        replacersOf v bitsize limit img width sz True (compsOf compMap swapped)
                      });
               Some (le @ be)
             })"

fun allReplacers ::
  "uint64 \<Rightarrow> CompMap \<Rightarrow> uint64 \<Rightarrow> uint64 \<Rightarrow> bool \<Rightarrow> int list \<Rightarrow> uint64 list option" where
  "allReplacers v compMap bitsize limit img [] = Some []"
| "allReplacers v compMap bitsize limit img (w # ws) = do {
     xs \<leftarrow> widthReplacers v compMap bitsize limit img w;
     ys \<leftarrow> allReplacers v compMap bitsize limit img ws;
     Some (xs @ ys)
   }"

definition hintWidths :: "int list" where
  "hintWidths = [8, 4, 2, 1, -4, -2, -1]"

text \<open>The set of replacers, sorted.\<close>

definition shrinkExpand :: "uint64 \<Rightarrow> CompMap \<Rightarrow> uint64 \<Rightarrow> bool \<Rightarrow> uint64 list option" where
  "shrinkExpand v compMap bitsize img = do {
     v \<leftarrow> truncateToBitSize v bitsize;
     let limit = maskOf (unat bitsize);
     xs \<leftarrow> allReplacers v compMap bitsize limit img hintWidths;
     Some (sort (remdups xs))
   }"

subsection \<open>Trying the replacers\<close>

text \<open>
  The loops that try replacers change the argument in place, run the callback, and put the original
  back. Each function gives what the callback saw, in order, and the argument at the end.
\<close>

definition checkConstArg :: "uint64 \<Rightarrow> CompMap \<Rightarrow> uint64 \<Rightarrow> (uint64 list \<times> uint64) option" where
  "checkConstArg original compMap bitsize = do {
     rs \<leftarrow> shrinkExpand original compMap bitsize False;
     Some (rs, original)
   }"

definition maxDataLength :: nat where "maxDataLength = 100"

text \<open>\<^verbatim>\<open>copy(data[i:], bytes)\<close>: as much as fits.\<close>

definition overwrite :: "nat \<Rightarrow> byte list \<Rightarrow> byte list \<Rightarrow> byte list" where
  "overwrite i bs dat = take i dat @ take (length dat - i) bs @ drop (i + length bs) dat"

definition original8 :: "nat \<Rightarrow> byte list \<Rightarrow> byte list" where
  "original8 i dat = take 8 (drop i dat @ replicate 8 0)"

fun tryReplacers :: "nat \<Rightarrow> uint64 list \<Rightarrow> byte list \<Rightarrow> byte list list \<times> byte list" where
  "tryReplacers i [] dat = ([], dat)"
| "tryReplacers i (r # rs) dat =
     (let dat = overwrite i (PutUint64 LittleEndian r) dat;
          (seen, dat') = tryReplacers i rs dat
      in (dat # seen, dat'))"

definition checkDataAt :: "CompMap \<Rightarrow> bool \<Rightarrow> nat \<Rightarrow> byte list \<Rightarrow> (byte list list \<times> byte list) option" where
  "checkDataAt compMap img i dat = do {
     let original = original8 i dat;
     rs \<leftarrow> shrinkExpand (Uint64 LittleEndian original) compMap 64 img;
     let (seen, dat) = tryReplacers i rs dat;
     Some (seen, overwrite i original dat)
   }"

fun checkDataLoop :: "CompMap \<Rightarrow> bool \<Rightarrow> nat list \<Rightarrow> byte list \<Rightarrow> (byte list list \<times> byte list) option" where
  "checkDataLoop compMap img [] dat = Some ([], dat)"
| "checkDataLoop compMap img (i # is) dat = do {
     (seen, dat) \<leftarrow> checkDataAt compMap img i dat;
     (seen', dat) \<leftarrow> checkDataLoop compMap img is dat;
     Some (seen @ seen', dat)
   }"

definition checkDataArg :: "byte list \<Rightarrow> CompMap \<Rightarrow> (byte list list \<times> byte list) option" where
  "checkDataArg dat compMap = checkDataLoop compMap False [0..<min (length dat) maxDataLength] dat"

text \<open>
  A compressed image is tried at every fourth byte of its decompressed form; the callback sees it
  compressed again. Decompression and compression (\<^verbatim>\<open>pkg/image\<close> over zlib) are parameters.
\<close>

definition checkCompressedArg ::
  "(byte list \<Rightarrow> byte list) \<Rightarrow> (byte list \<Rightarrow> byte list) \<Rightarrow> byte list \<Rightarrow> CompMap \<Rightarrow> (byte list list \<times> byte list) option" where
  "checkCompressedArg decompress compress data0 compMap = do {
     let dat = decompress data0;
     (seen, _) \<leftarrow> checkDataLoop compMap True (map (\<lambda>k. 4 * k) [0..<(length dat + 3) div 4]) dat;
     Some (map compress seen, data0)
   }"

subsection \<open>No panic, and the range of the replacers\<close>

lemma hintWidths_ok: "w \<in> set hintWidths \<Longrightarrow> nat \<bar>w\<bar> \<in> {1, 2, 4, 8}"
  by (auto simp: hintWidths_def)

lemma swapInt_width: "width \<in> {1, 2, 4, 8} \<Longrightarrow> runs (swapInt v width)"
  by (auto simp: swapInt_def)

lemma replacerOf_runs:
  "bitsize \<noteq> 0 \<Longrightarrow> bitsize \<le> 64 \<Longrightarrow> width \<in> {1, 2, 4, 8} \<Longrightarrow>
   runs (replacerOf v bitsize limit img width sz big c)"
  unfolding replacerOf_def Let_def
  by (intro runs_intro swapInt_width)
    (use truncate_runs [of bitsize] in \<open>auto simp: runs_def\<close>)

lemma replacersOf_runs [runs_intro]:
  "bitsize \<noteq> 0 \<Longrightarrow> bitsize \<le> 64 \<Longrightarrow> width \<in> {1, 2, 4, 8} \<Longrightarrow>
   runs (replacersOf v bitsize limit img width sz big cs)"
  by (induction cs) (auto intro!: runs_bind replacerOf_runs)

lemma widthReplacers_runs:
  "bitsize \<noteq> 0 \<Longrightarrow> bitsize \<le> 64 \<Longrightarrow> w \<in> set hintWidths \<Longrightarrow> runs (widthReplacers v compMap bitsize limit img w)"
  using hintWidths_ok [of w]
  by (auto simp: widthReplacers_def Let_def intro!: runs_bind runs_if replacersOf_runs swapInt_width split: option.split)

lemma allReplacers_runs:
  "bitsize \<noteq> 0 \<Longrightarrow> bitsize \<le> 64 \<Longrightarrow> set ws \<subseteq> set hintWidths \<Longrightarrow> runs (allReplacers v compMap bitsize limit img ws)"
  by (induction ws) (auto intro!: runs_bind widthReplacers_runs)

lemma shrinkExpand_runs [runs_intro]:
  "bitsize \<noteq> 0 \<Longrightarrow> bitsize \<le> 64 \<Longrightarrow> runs (shrinkExpand v compMap bitsize img)"
  unfolding shrinkExpand_def Let_def by (intro runs_intro allReplacers_runs) simp_all

lemma replacerOf_bits: "replacerOf v bitsize limit img width sz big c = Some (Some x) \<Longrightarrow> unat x < 2 ^ unat bitsize"
  by (auto simp: replacerOf_def Let_def elim!: bind_someE split: if_splits dest: truncate_bits)

lemma replacersOf_bits:
  "replacersOf v bitsize limit img width sz big cs = Some xs \<Longrightarrow> x \<in> set xs \<Longrightarrow> unat x < 2 ^ unat bitsize"
  by (induction cs arbitrary: xs) (auto elim!: bind_someE split: option.splits dest: replacerOf_bits)

lemma widthReplacers_bits:
  "widthReplacers v compMap bitsize limit img w = Some xs \<Longrightarrow> x \<in> set xs \<Longrightarrow> unat x < 2 ^ unat bitsize"
  by (auto simp: widthReplacers_def Let_def elim!: bind_someE split: option.splits if_splits dest: replacersOf_bits)

lemma allReplacers_bits:
  "allReplacers v compMap bitsize limit img ws = Some xs \<Longrightarrow> x \<in> set xs \<Longrightarrow> unat x < 2 ^ unat bitsize"
  by (induction ws arbitrary: xs) (auto elim!: bind_someE dest: widthReplacers_bits)

subsection \<open>Direct hits\<close>

lemma maskOf_64: "maskOf 64 = - 1"
  by (simp add: maskOf_def)

lemma fits_take_bit: "unat (c :: uint64) < 2 ^ b \<Longrightarrow> take_bit b c = c"
  by (simp add: word_unat_eq_iff unsigned_take_bit_eq take_bit_nat_eq_self)

lemma fits_maskOf:
  assumes "unat (c :: uint64) < 2 ^ b"
  shows "c \<le> maskOf b"
proof -
  have "c = c AND maskOf b"
    using fits_take_bit [OF assms] by (simp add: maskOf_def take_bit_eq_mask mask_eq_exp_minus_1 push_bit_eq_mult)
  then show ?thesis by (metis word_and_le1)
qed

lemma replacersOf_in:
  "replacerOf v bitsize limit img width sz big c = Some (Some x) \<Longrightarrow> c \<in> set cs \<Longrightarrow>
   replacersOf v bitsize limit img width sz big cs = Some xs \<Longrightarrow> x \<in> set xs"
  by (induction cs arbitrary: xs) (auto elim!: bind_someE split: option.splits)

lemma allReplacers_in:
  "w \<in> set ws \<Longrightarrow> widthReplacers v compMap bitsize limit img w = Some xs \<Longrightarrow> x \<in> set xs \<Longrightarrow>
   allReplacers v compMap bitsize limit img ws = Some ys \<Longrightarrow> x \<in> set ys"
  by (induction ws arbitrary: ys) (auto elim!: bind_someE)

subsection \<open>Restoring the data\<close>

lemma length_overwrite [simp]: "i \<le> length dat \<Longrightarrow> length (overwrite i bs dat) = length dat"
  by (simp add: overwrite_def)

lemma overwrite_append: "overwrite (length pre) bs (pre @ rest) = pre @ take (length rest) bs @ drop (length bs) rest"
  by (simp add: overwrite_def)

lemma overwrite_same:
  assumes "length a = length b" and "i \<le> length dat"
  shows "overwrite i b (overwrite i a dat) = overwrite i b dat"
proof -
  define pre rest where "pre = take i dat" and "rest = drop i dat"
  then have dat: "dat = pre @ rest" "i = length pre" using assms(2) by simp_all
  have "drop (length b) (take (length rest) a @ drop (length a) rest) = drop (length b) rest"
    using assms(1) by (cases "length a \<le> length rest") simp_all
  moreover have "length (take (length rest) a @ drop (length a) rest) = length rest" by simp
  ultimately show ?thesis unfolding dat overwrite_append by simp
qed

lemma length_original8 [simp]: "length (original8 i dat) = 8"
  by (simp add: original8_def)

lemma overwrite_original:
  assumes "i \<le> length dat"
  shows "overwrite i (original8 i dat) dat = dat"
proof -
  define pre rest where "pre = take i dat" and "rest = drop i dat"
  then have dat: "dat = pre @ rest" "i = length pre" using assms by simp_all
  define o8 where "o8 = original8 i dat"
  have o8: "o8 = take 8 (rest @ replicate 8 0)" unfolding o8_def original8_def rest_def ..
  have "take (length rest) o8 @ drop 8 rest = rest" unfolding o8 by (cases "length rest \<le> 8") simp_all
  moreover have "length o8 = 8" by (simp add: o8_def)
  ultimately show ?thesis unfolding o8_def [symmetric] using overwrite_append [of pre o8 rest] dat by simp
qed

text \<open>A variant differs from the data in eight bytes only.\<close>

definition variantAt :: "nat \<Rightarrow> byte list \<Rightarrow> byte list \<Rightarrow> bool" where
  "variantAt i dat d \<longleftrightarrow> length d = length dat \<and> take i d = take i dat \<and> drop (i + 8) d = drop (i + 8) dat"

lemma variantAt_overwrite: "length bs = 8 \<Longrightarrow> i \<le> length dat \<Longrightarrow> variantAt i dat (overwrite i bs dat)"
  by (cases "8 \<le> length dat - i") (auto simp: variantAt_def overwrite_def)

lemma tryReplacers_spec:
  "i \<le> length dat \<Longrightarrow> tryReplacers i rs dat = (seen, dat') \<Longrightarrow>
   seen = map (\<lambda>r. overwrite i (PutUint64 LittleEndian r) dat) rs \<and>
   overwrite i (original8 i dat0) dat' = overwrite i (original8 i dat0) dat \<and> length dat' = length dat"
proof (induction rs arbitrary: dat seen)
  case (Cons r rs)
  let ?d = "overwrite i (PutUint64 LittleEndian r) dat"
  obtain s1 where s1: "tryReplacers i rs ?d = (s1, dat')" "seen = ?d # s1"
    using Cons.prems(2) by (auto simp: Let_def split: prod.splits)
  show ?case using Cons.IH [OF _ s1(1)] Cons.prems(1) s1(2) by (simp add: overwrite_same host.length_put)
qed simp

lemma checkDataAt_spec:
  assumes "i \<le> length dat" and "checkDataAt compMap img i dat = Some (seen, dat')"
  shows "dat' = dat \<and> (\<forall>d \<in> set seen. variantAt i dat d)"
proof -
  from assms(2) obtain rs dat1 where t: "tryReplacers i rs dat = (seen, dat1)"
    "dat' = overwrite i (original8 i dat) dat1"
    by (auto simp: checkDataAt_def Let_def elim!: bind_someE split: prod.splits)
  from tryReplacers_spec [OF assms(1) t(1), of dat] show ?thesis
    using t(2) assms(1) by (auto simp: host.length_put overwrite_original intro!: variantAt_overwrite)
qed

lemma checkDataLoop_spec:
  "\<forall>i \<in> set is. i \<le> length dat \<Longrightarrow> checkDataLoop compMap img is dat = Some (seen, dat') \<Longrightarrow>
   dat' = dat \<and> (\<forall>d \<in> set seen. \<exists>i \<in> set is. variantAt i dat d)"
proof (induction "is" arbitrary: seen)
  case (Cons i "is")
  from Cons.prems(2) obtain s1 d1 s2 where s: "checkDataAt compMap img i dat = Some (s1, d1)"
    "checkDataLoop compMap img is d1 = Some (s2, dat')" "seen = s1 @ s2" by (auto elim!: bind_pairE)
  have "d1 = dat" "\<forall>d \<in> set s1. variantAt i dat d" using checkDataAt_spec [OF _ s(1)] Cons.prems(1) by auto
  then show ?case using Cons.IH [of s2] Cons.prems(1) s(2,3) by auto
qed simp

lemma checkDataLoop_runs: "runs (checkDataLoop compMap img is dat)"
  by (induction "is" arbitrary: dat)
    (auto simp: checkDataAt_def Let_def intro!: runs_pair runs_bind shrinkExpand_runs split: prod.split)

subsection \<open>The results\<close>

text \<open>
  C30. The hints for a number of 1 to 64 bits are computed without a panic; they are in ascending order,
  without repetition, and fit into the bits of the number.
\<close>

theorem shrinkExpand_range:
  assumes "1 \<le> bitsize" and "bitsize \<le> 64"
  shows "\<exists>rs. shrinkExpand v compMap bitsize img = Some rs \<and> sorted rs \<and> distinct rs \<and>
    list_all (\<lambda>x. unat x < 2 ^ unat bitsize) rs"
proof -
  have "bitsize \<noteq> 0" using assms(1) by auto
  then obtain rs where rs: "shrinkExpand v compMap bitsize img = Some rs"
    using shrinkExpand_runs [of bitsize] assms(2) by (fastforce simp: runs_def)
  then show ?thesis
    by (auto simp: shrinkExpand_def Let_def list_all_iff elim!: bind_someE dest: allReplacers_bits)
qed

theorem shrinkExpand_range_witness:
  "\<exists>rs. shrinkExpand 0x1234 [(0x34, [0xab])] 16 False = Some rs \<and> sorted rs \<and> distinct rs \<and>
    list_all (\<lambda>x. unat x < 2 ^ unat (16 :: uint64)) rs"
  by (rule shrinkExpand_range) simp_all




text \<open>
  C33. Trying the hints for a buffer never panics and leaves the buffer as it was; every variant that
  is run has its length and differs from it in at most eight bytes, which start among the first 100.
\<close>

theorem checkDataArg_restores:
  "\<exists>seen. checkDataArg dat compMap = Some (seen, dat) \<and>
     list_all (\<lambda>d. list_ex (\<lambda>i. variantAt i dat d) [0..<100]) seen"
proof -
  obtain seen dat' where "checkDataArg dat compMap = Some (seen, dat')"
    using checkDataLoop_runs unfolding checkDataArg_def by (fastforce simp: runs_def)
  moreover from this have "dat' = dat \<and> (\<forall>d \<in> set seen. \<exists>i \<in> {0..<min (length dat) maxDataLength}. variantAt i dat d)"
    unfolding checkDataArg_def using checkDataLoop_spec [of "[0..<min (length dat) maxDataLength]" dat] by fastforce
  ultimately show ?thesis by (fastforce simp: list_all_iff list_ex_iff maxDataLength_def)
qed

end
