(* ===== verification/Signal.thy ===== *)
theory Signal
  imports Prelude "HOL-Library.AList" "HOL-Library.Multiset"
begin

text \<open>
  Feedback signal, \<^verbatim>\<open>pkg/signal/signal.go\<close>: a set of elements with priorities. A Go map is an association
  list with distinct keys, whose order is the order of one walk over the map; \<^verbatim>\<open>nil\<close> and an empty map
  are both the empty list. Results are compared by what they map (\<open>map_of\<close>), and the abstraction \<open>level\<close>
  gives every element its priority, or the bottom for an element that is not there.
\<close>

type_synonym elemType = "32 word"
type_synonym prioType = "8 word"
type_synonym Signal = "(elemType \<times> prioType) list"

record Serial =
  Elems :: "elemType list"
  Prios :: "prioType list"

definition Signal_Len :: "Signal \<Rightarrow> nat" where
  "Signal_Len s = length s"

definition Signal_Empty :: "Signal \<Rightarrow> bool" where
  "Signal_Empty s = (length s = 0)"

fun copyInto :: "Signal \<Rightarrow> Signal \<Rightarrow> Signal" where
  "copyInto [] c = c"
| "copyInto ((e, p) # s) c = copyInto s (AList.update e p c)"

definition Signal_Copy :: "Signal \<Rightarrow> Signal" where
  "Signal_Copy s = copyInto s []"

text \<open>The part that is split off, and what is left; a count of zero is never reached and takes all.\<close>

fun splitLoop :: "Signal \<Rightarrow> int \<Rightarrow> Signal \<Rightarrow> Signal \<times> Signal" where
  "splitLoop [] n c = (c, [])"
| "splitLoop ((e, p) # s) n c =
     (let c = AList.update e p c; n = n - 1 in if n = 0 then (c, s) else splitLoop s n c)"

definition Signal_Split :: "Signal \<Rightarrow> int \<Rightarrow> Signal \<times> Signal" where
  "Signal_Split s n = (if Signal_Empty s then ([], s) else splitLoop s n [])"

definition FromRaw :: "elemType list \<Rightarrow> 8 word \<Rightarrow> Signal" where
  "FromRaw raw prio = fold (\<lambda>e s. AList.update e prio s) raw []"

definition Signal_Serialize :: "Signal \<Rightarrow> Serial" where
  "Signal_Serialize s = \<lparr>Elems = map fst s, Prios = map snd s\<rparr>"

definition AddElem :: "Serial \<Rightarrow> elemType \<Rightarrow> prioType \<Rightarrow> Serial" where
  "AddElem ser e p = ser\<lparr>Elems := Elems ser @ [e], Prios := Prios ser @ [p]\<rparr>"

definition Serial_Deserialize :: "Serial \<Rightarrow> Signal option" where
  "Serial_Deserialize ser =
     (if length (Elems ser) \<noteq> length (Prios ser) then None
      else Some (copyInto (zip (Elems ser) (Prios ser)) []))"

text \<open>Is the element there with at least this priority? Priorities are signed.\<close>

definition hasPrio :: "Signal \<Rightarrow> elemType \<Rightarrow> prioType \<Rightarrow> bool" where
  "hasPrio s e p1 = (case map_of s e of None \<Rightarrow> False | Some p \<Rightarrow> sint p \<ge> sint p1)"

fun diffLoop :: "Signal \<Rightarrow> Signal \<Rightarrow> Signal \<Rightarrow> Signal" where
  "diffLoop s [] res = res"
| "diffLoop s ((e, p1) # s1) res =
     (if hasPrio s e p1 then diffLoop s s1 res else diffLoop s s1 (AList.update e p1 res))"

definition Signal_Diff :: "Signal \<Rightarrow> Signal \<Rightarrow> Signal" where
  "Signal_Diff s s1 = (if Signal_Empty s1 then [] else diffLoop s s1 [])"

definition DiffRaw :: "Signal \<Rightarrow> elemType list \<Rightarrow> 8 word \<Rightarrow> Signal" where
  "DiffRaw s raw prio = diffLoop s (map (\<lambda>e. (e, prio)) raw) []"

fun intersectLoop :: "Signal \<Rightarrow> Signal \<Rightarrow> Signal \<Rightarrow> Signal" where
  "intersectLoop s1 [] res = res"
| "intersectLoop s1 ((e, p) # s) res =
     (if hasPrio s1 e p then intersectLoop s1 s (AList.update e p res) else intersectLoop s1 s res)"

definition Signal_Intersection :: "Signal \<Rightarrow> Signal \<Rightarrow> Signal" where
  "Signal_Intersection s s1 = (if Signal_Empty s1 then [] else intersectLoop s1 s [])"

fun mergeLoop :: "Signal \<Rightarrow> Signal \<Rightarrow> Signal" where
  "mergeLoop s0 [] = s0"
| "mergeLoop s0 ((e, p1) # s1) =
     (case map_of s0 e of
        None \<Rightarrow> mergeLoop (AList.update e p1 s0) s1
      | Some p \<Rightarrow> mergeLoop (if sint p < sint p1 then AList.update e p1 s0 else s0) s1)"

definition Signal_Merge :: "Signal \<Rightarrow> Signal \<Rightarrow> Signal" where
  "Signal_Merge s s1 = (if Signal_Empty s1 then s else mergeLoop s s1)"

record ContextPrio =
  cpr_prio :: prioType
  cpr_idx :: nat

type_synonym covered = "(elemType \<times> ContextPrio) list"

fun coverOne :: "nat \<Rightarrow> Signal \<Rightarrow> covered \<Rightarrow> covered" where
  "coverOne i [] cov = cov"
| "coverOne i ((e, p) # s) cov =
     (let better = (case map_of cov e of None \<Rightarrow> True | Some prev \<Rightarrow> sint p > sint (cpr_prio prev)) in
      coverOne i s (if better then AList.update e \<lparr>cpr_prio = p, cpr_idx = i\<rparr> cov else cov))"

fun coverAll :: "nat \<Rightarrow> (Signal \<times> 'c) list \<Rightarrow> covered \<Rightarrow> covered" where
  "coverAll i [] cov = cov"
| "coverAll i (inp # corpus) cov = coverAll (Suc i) corpus (coverOne i (fst inp) cov)"

text \<open>The order in which Go walks over the set of indices is the parameter \<open>iter\<close>.\<close>

definition minimizeIndices :: "(nat list \<Rightarrow> nat list) \<Rightarrow> (Signal \<times> 'c) list \<Rightarrow> nat list" where
  "minimizeIndices iter corpus = iter (remdups (map (\<lambda>(_, cp). cpr_idx cp) (coverAll 0 corpus [])))"

definition Signal_Minimize :: "(nat list \<Rightarrow> nat list) \<Rightarrow> (Signal \<times> 'c) list \<Rightarrow> 'c list" where
  "Signal_Minimize iter corpus = map (\<lambda>idx. snd (corpus ! idx)) (minimizeIndices iter corpus)"

subsection \<open>Levels\<close>

definition level :: "Signal \<Rightarrow> elemType \<Rightarrow> int option" where
  "level s e = map_option sint (map_of s e)"

fun joinLevel :: "int option \<Rightarrow> int option \<Rightarrow> int option" where
  "joinLevel None b = b"
| "joinLevel a None = a"
| "joinLevel (Some p) (Some q) = Some (max p q)"

definition joined :: "Signal list \<Rightarrow> elemType \<Rightarrow> int option" where
  "joined ss e = foldr (\<lambda>s l. joinLevel (level s e) l) ss None"

lemma joinLevel_None [simp]: "joinLevel a None = a"
  by (cases a) simp_all

lemma joinLevel_assoc: "joinLevel (joinLevel a b) c = joinLevel a (joinLevel b c)"
  by (cases a; cases b; cases c) simp_all

lemma joinLevel_idem [simp]: "joinLevel a a = a"
  by (cases a) simp_all

lemma level_update [simp]: "level (AList.update e p s) = (level s)(e \<mapsto> sint p)"
  by (auto simp: level_def update_conv fun_eq_iff)

lemma level_map_of_eq: "level s = level t \<longleftrightarrow> map_of s = map_of t"
proof
  assume "level s = level t"
  then have "map_option sint (map_of s e) = map_option sint (map_of t e)" for e
    unfolding level_def by metis
  then show "map_of s = map_of t"
    by (intro ext) (metis (no_types, lifting) option.inj_map_strong signed_word_eqI)
qed (simp add: level_def fun_eq_iff)

lemma level_ext: "(\<And>e. level s e = level t e) \<Longrightarrow> map_of s = map_of t"
  using level_map_of_eq by (metis ext)

lemma level_Nil [simp]: "level [] e = None" and level_Cons: "level ((a, p) # s) e = (if e = a then Some (sint p) else level s e)"
  by (auto simp: level_def)

lemma hasPrio_level: "hasPrio s e p \<longleftrightarrow> joinLevel (level s e) (Some (sint p)) = level s e"
  by (auto simp: hasPrio_def level_def split: option.splits)

text \<open>The walks, by what they do to the level of each element, and that they keep the keys distinct.\<close>

abbreviation wfSignal :: "Signal \<Rightarrow> bool" where
  "wfSignal s \<equiv> distinct (map fst s)"

named_theorems wf_signal \<open>operations that keep the keys of a signal distinct\<close>

lemma level_notin: "e \<notin> fst ` set s \<Longrightarrow> level s e = None"
  by (auto simp: level_def map_of_eq_None_iff)

lemma level_copyInto:
  "wfSignal s \<Longrightarrow> level (copyInto s c) e = (case level s e of None \<Rightarrow> level c e | Some l \<Rightarrow> Some l)"
  by (induction s c rule: copyInto.induct) (auto simp: level_Cons level_notin split: option.splits)

lemma level_mergeLoop:
  "wfSignal s1 \<Longrightarrow> level (mergeLoop s0 s1) e = joinLevel (level s0 e) (level s1 e)"
proof (induction s0 s1 rule: mergeLoop.induct)
  case (2 s0 a p1 s1)
  then have "level s1 a = None" by (simp add: level_notin)
  with 2 show ?case
    by (cases "map_of s0 a") (auto simp: level_Cons, auto simp: level_def)
qed simp

lemma level_diffLoop:
  "wfSignal s1 \<Longrightarrow> level (diffLoop s s1 res) e =
    (case level s1 e of None \<Rightarrow> level res e
     | Some p \<Rightarrow> if joinLevel (level s e) (Some p) = level s e then level res e else Some p)"
  by (induction s s1 res rule: diffLoop.induct)
    (auto simp: level_Cons level_notin hasPrio_level split: option.splits)

lemma level_diffLoop_raw:
  "level (diffLoop s (map (\<lambda>e. (e, prio)) raw) res) e =
    (if e \<in> set raw \<and> joinLevel (level s e) (Some (sint prio)) \<noteq> level s e then Some (sint prio) else level res e)"
  by (induction raw arbitrary: res) (auto simp: hasPrio_level)

lemma level_intersectLoop:
  "wfSignal s \<Longrightarrow> level (intersectLoop s1 s res) e =
    (case level s e of None \<Rightarrow> level res e
     | Some p \<Rightarrow> if joinLevel (level s1 e) (Some p) = level s1 e then Some p else level res e)"
  by (induction s1 s res rule: intersectLoop.induct)
    (auto simp: level_Cons level_notin hasPrio_level split: option.splits)

lemma copyInto_wf [wf_signal]: "wfSignal c \<Longrightarrow> wfSignal (copyInto s c)"
  by (induction s c rule: copyInto.induct) (simp_all add: distinct_update)

lemma mergeLoop_wf [wf_signal]: "wfSignal s0 \<Longrightarrow> wfSignal (mergeLoop s0 s1)"
  by (induction s0 s1 rule: mergeLoop.induct) (simp_all add: distinct_update split: option.splits)

lemma diffLoop_wf [wf_signal]: "wfSignal res \<Longrightarrow> wfSignal (diffLoop s s1 res)"
  by (induction s s1 res rule: diffLoop.induct) (simp_all add: distinct_update)

lemma intersectLoop_wf [wf_signal]: "wfSignal res \<Longrightarrow> wfSignal (intersectLoop s1 s res)"
  by (induction s1 s res rule: intersectLoop.induct) (simp_all add: distinct_update)

lemma level_Merge [simp]: "wfSignal s1 \<Longrightarrow> level (Signal_Merge s s1) e = joinLevel (level s e) (level s1 e)"
  by (simp add: Signal_Merge_def Signal_Empty_def level_mergeLoop)

lemma level_Diff:
  "wfSignal s1 \<Longrightarrow> level (Signal_Diff s s1) e =
    (if joinLevel (level s e) (level s1 e) = level s e then None else level s1 e)"
  by (auto simp: Signal_Diff_def Signal_Empty_def level_diffLoop split: option.splits)

lemma level_DiffRaw:
  "level (DiffRaw s raw prio) e =
    (if e \<in> set raw \<and> joinLevel (level s e) (Some (sint prio)) \<noteq> level s e then Some (sint prio) else None)"
  by (simp add: DiffRaw_def level_diffLoop_raw)

lemma level_Intersection:
  "wfSignal s \<Longrightarrow> level (Signal_Intersection s s1) e =
    (if level s e \<noteq> None \<and> joinLevel (level s1 e) (level s e) = level s1 e then level s e else None)"
  by (auto simp: Signal_Intersection_def Signal_Empty_def level_intersectLoop split: option.splits)

lemma signal_ops_wf [wf_signal]:
  "wfSignal s \<Longrightarrow> wfSignal (Signal_Merge s s1)" "wfSignal (Signal_Diff s s1)" "wfSignal (DiffRaw s raw prio)"
  "wfSignal (Signal_Intersection s s1)" "wfSignal (Signal_Copy s)"
  by (simp_all add: Signal_Merge_def Signal_Diff_def DiffRaw_def Signal_Intersection_def Signal_Copy_def wf_signal)

lemma map_of_Merge_Diff:
  "wfSignal s1 \<Longrightarrow> map_of (Signal_Merge s (Signal_Diff s s1)) = map_of (Signal_Merge s s1)"
  by (rule level_ext) (simp add: level_Diff wf_signal)

lemma Deserialize_Serialize:
  "wfSignal s \<Longrightarrow> \<exists>t. Serial_Deserialize (Signal_Serialize s) = Some t \<and> map_of t = map_of s"
  by (auto simp: Serial_Deserialize_def Signal_Serialize_def zip_map_fst_snd level_copyInto
      intro!: level_ext split: option.splits)

subsection \<open>Minimization\<close>

text \<open>
  What the table of covered elements holds after some inputs: for each of their elements the first input
  that has it with the highest priority.
\<close>

definition firstBest :: "Signal list \<Rightarrow> elemType \<Rightarrow> nat \<Rightarrow> int \<Rightarrow> bool" where
  "firstBest ss e i p \<longleftrightarrow> i < length ss \<and> level (ss ! i) e = Some p \<and>
     (\<forall>j q. j < length ss \<longrightarrow> level (ss ! j) e = Some q \<longrightarrow> (if j < i then q < p else q \<le> p))"

definition coveredBy :: "Signal list \<Rightarrow> covered \<Rightarrow> bool" where
  "coveredBy ss cov \<longleftrightarrow>
     (\<forall>e. case map_of cov e of
            None \<Rightarrow> (\<forall>s \<in> set ss. level s e = None)
          | Some cp \<Rightarrow> firstBest ss e (cpr_idx cp) (sint (cpr_prio cp)))"

text \<open>One input: each of its elements replaces the entry if it is better, and no other entry changes.\<close>

definition betterEntry :: "nat \<Rightarrow> prioType \<Rightarrow> ContextPrio option \<Rightarrow> ContextPrio option" where
  "betterEntry i p old =
     (case old of
        None \<Rightarrow> Some \<lparr>cpr_prio = p, cpr_idx = i\<rparr>
      | Some prev \<Rightarrow> Some (if sint p > sint (cpr_prio prev) then \<lparr>cpr_prio = p, cpr_idx = i\<rparr> else prev))"

lemma map_of_coverOne:
  "wfSignal s \<Longrightarrow> map_of (coverOne i s cov) e =
     (case map_of s e of None \<Rightarrow> map_of cov e | Some p \<Rightarrow> betterEntry i p (map_of cov e))"
proof (induction i s cov rule: coverOne.induct)
  case (2 i a p s cov)
  then have "map_of s a = None" by (simp add: map_of_eq_None_iff)
  with 2 show ?case
    by (auto simp: Let_def betterEntry_def update_conv split: option.splits)
qed simp

lemma firstBest_keep:
  assumes "firstBest ss e i p" and "\<And>q. level s e = Some q \<Longrightarrow> q \<le> p"
  shows "firstBest (ss @ [s]) e i p"
  using assms unfolding firstBest_def by (auto simp: nth_append less_Suc_eq)

lemma firstBest_new:
  assumes "level s e = Some p" and "\<And>t q. t \<in> set ss \<Longrightarrow> level t e = Some q \<Longrightarrow> q < p"
  shows "firstBest (ss @ [s]) e (length ss) p"
  using assms(1) assms(2) [OF nth_mem] unfolding firstBest_def by (auto simp: nth_append less_Suc_eq)

lemma firstBest_max: "firstBest ss e i p \<Longrightarrow> t \<in> set ss \<Longrightarrow> level t e = Some q \<Longrightarrow> q \<le> p"
  unfolding firstBest_def in_set_conv_nth by (fastforce split: if_splits)

lemma coveredBy_snoc:
  assumes "coveredBy ss cov" and "wfSignal s"
  shows "coveredBy (ss @ [s]) (coverOne (length ss) s cov)"
  unfolding coveredBy_def
proof
  fix e
  have old: "case map_of cov e of None \<Rightarrow> (\<forall>s \<in> set ss. level s e = None)
      | Some cp \<Rightarrow> firstBest ss e (cpr_idx cp) (sint (cpr_prio cp))"
    using assms(1) by (simp add: coveredBy_def)
  show "case map_of (coverOne (length ss) s cov) e of None \<Rightarrow> (\<forall>s \<in> set (ss @ [s]). level s e = None)
      | Some cp \<Rightarrow> firstBest (ss @ [s]) e (cpr_idx cp) (sint (cpr_prio cp))"
  proof (cases "map_of s e")
    case None
    then have "level s e = None" by (simp add: level_def)
    then show ?thesis
      using old None by (auto simp: map_of_coverOne [OF assms(2)] intro: firstBest_keep split: option.splits)
  next
    case (Some p)
    then have p: "level s e = Some (sint p)" by (simp add: level_def)
    show ?thesis
    proof (cases "map_of cov e")
      case None
      then show ?thesis
        using old Some p firstBest_new [OF p, of ss] by (auto simp: map_of_coverOne [OF assms(2)] betterEntry_def)
    next
      case (Some cp)
      with old have best: "firstBest ss e (cpr_idx cp) (sint (cpr_prio cp))" by simp
      note entry = map_of_coverOne [OF assms(2), of "length ss" cov e, unfolded Some \<open>map_of s e = Some p\<close>]
      show ?thesis
      proof (cases "sint (cpr_prio cp) < sint p")
        case True
        then show ?thesis
          using firstBest_new [OF p, of ss] firstBest_max [OF best] by (fastforce simp: entry betterEntry_def)
      next
        case False
        then show ?thesis
          using firstBest_keep [OF best, of s] by (simp add: entry betterEntry_def p)
      qed
    qed
  qed
qed

lemma coverAll_coveredBy:
  "coveredBy ss cov \<Longrightarrow> list_all wfSignal (map fst corpus) \<Longrightarrow>
   coveredBy (ss @ map fst corpus) (coverAll (length ss) corpus cov)"
proof (induction corpus arbitrary: ss cov)
  case (Cons inp corpus)
  then show ?case
    using Cons.IH [of "ss @ [fst inp]" "coverOne (length ss) (fst inp) cov"] coveredBy_snoc [of ss cov "fst inp"]
    by simp
qed simp

text \<open>The join of a list of signals, as its greatest levels.\<close>

lemma joined_None: "joined ss e = None \<longleftrightarrow> (\<forall>s \<in> set ss. level s e = None)"
proof (induction ss)
  case (Cons s ss)
  then show ?case by (cases "level s e"; cases "joined ss e") (auto simp: joined_def)
qed (simp add: joined_def)

lemma joined_Some:
  "joined ss e = Some p \<longleftrightarrow>
    (\<exists>s \<in> set ss. level s e = Some p) \<and> (\<forall>s \<in> set ss. \<forall>q. level s e = Some q \<longrightarrow> q \<le> p)"
proof (induction ss arbitrary: p)
  case (Cons s ss)
  have step: "joined (s # ss) e = joinLevel (level s e) (joined ss e)" by (simp add: joined_def)
  show ?case
  proof (cases "joined ss e")
    case None
    then have "\<forall>s \<in> set ss. level s e = None" by (simp add: joined_None)
    then show ?thesis using step None by auto
  next
    case (Some m)
    then have "(\<exists>s \<in> set ss. level s e = Some m) \<and> (\<forall>s \<in> set ss. \<forall>q. level s e = Some q \<longrightarrow> q \<le> m)"
      using Cons by simp
    then show ?thesis
      using step Some by (cases "level s e") (force simp: max_def)+
  qed
qed (simp add: joined_def)

definition mergeAll :: "Signal list \<Rightarrow> Signal" where
  "mergeAll ss = foldl Signal_Merge [] ss"

lemma level_foldl_Merge:
  "list_all wfSignal ss \<Longrightarrow> level (foldl Signal_Merge s ss) e = joinLevel (level s e) (joined ss e)"
  by (induction ss arbitrary: s) (simp_all add: joined_def joinLevel_assoc)

lemma firstBest_joined: "firstBest ss e i p \<Longrightarrow> joined ss e = Some p"
  unfolding joined_Some using firstBest_max by (metis firstBest_def nth_mem)

lemma joined_firstBest: "joined ss e = Some p \<Longrightarrow> coveredBy ss cov \<Longrightarrow> \<exists>cp. map_of cov e = Some cp \<and> firstBest ss e (cpr_idx cp) p"
proof -
  assume j: "joined ss e = Some p" and cov: "coveredBy ss cov"
  then have entry: "case map_of cov e of None \<Rightarrow> (\<forall>s \<in> set ss. level s e = None)
      | Some cp \<Rightarrow> firstBest ss e (cpr_idx cp) (sint (cpr_prio cp))" by (simp add: coveredBy_def)
  show ?thesis
  proof (cases "map_of cov e")
    case None
    then show ?thesis using entry j by (simp add: joined_None [symmetric])
  next
    case (Some cp)
    then show ?thesis using entry firstBest_joined [of ss e "cpr_idx cp"] j by fastforce
  qed
qed

lemma coverOne_distinct: "distinct (map fst cov) \<Longrightarrow> distinct (map fst (coverOne i s cov))"
  by (induction i s cov rule: coverOne.induct) (simp_all add: Let_def distinct_update)

lemma coverAll_distinct: "distinct (map fst cov) \<Longrightarrow> distinct (map fst (coverAll i corpus cov))"
  by (induction i corpus cov rule: coverAll.induct) (simp_all add: coverOne_distinct)

lemma minimizeIndices_firstBest:
  assumes "list_all wfSignal (map fst corpus)" and "mset (iter xs) = mset xs"
    and "xs = remdups (map (\<lambda>(_, cp). cpr_idx cp) (coverAll 0 corpus []))"
  shows "distinct (iter xs)" and "i \<in> set (iter xs) \<longleftrightarrow> (\<exists>e p. firstBest (map fst corpus) e i p)"
proof -
  let ?ss = "map fst corpus" and ?cov = "coverAll 0 corpus []"
  have cov: "coveredBy ?ss ?cov"
    using coverAll_coveredBy [of "[]" "[]" corpus] assms(1) by (simp add: coveredBy_def)
  have dis: "distinct (map fst ?cov)" by (simp add: coverAll_distinct)
  show "distinct (iter xs)"
    using assms(2,3) mset_eq_imp_distinct_iff by fastforce
  have "i \<in> set (iter xs) \<longleftrightarrow> (\<exists>e cp. map_of ?cov e = Some cp \<and> cpr_idx cp = i)"
    using mset_eq_setD [OF assms(2)] assms(3) map_of_eq_Some_iff [OF dis] by force
  also have "\<dots> \<longleftrightarrow> (\<exists>e p. firstBest ?ss e i p)"
  proof
    assume "\<exists>e cp. map_of ?cov e = Some cp \<and> cpr_idx cp = i"
    then obtain e cp where "map_of ?cov e = Some cp" "cpr_idx cp = i" by blast
    moreover have "case map_of ?cov e of None \<Rightarrow> (\<forall>s \<in> set ?ss. level s e = None)
      | Some cp \<Rightarrow> firstBest ?ss e (cpr_idx cp) (sint (cpr_prio cp))" using cov unfolding coveredBy_def by blast
    ultimately show "\<exists>e p. firstBest ?ss e i p" by auto
  next
    assume "\<exists>e p. firstBest ?ss e i p"
    then obtain e p where best: "firstBest ?ss e i p" by blast
    then obtain cp where cp: "map_of ?cov e = Some cp" "firstBest ?ss e (cpr_idx cp) p"
      using joined_firstBest [OF firstBest_joined cov] by blast
    have "cpr_idx cp = i"
      using best cp(2) unfolding firstBest_def by (metis less_irrefl linorder_cases)
    with cp(1) show "\<exists>e cp. map_of ?cov e = Some cp \<and> cpr_idx cp = i" by blast
  qed
  finally show "i \<in> set (iter xs) \<longleftrightarrow> (\<exists>e p. firstBest ?ss e i p)" .
qed

lemma joined_firstBest_subset:
  assumes "coveredBy ss cov" and "\<And>i. i \<in> set js \<longleftrightarrow> (\<exists>e p. firstBest ss e i p)"
  shows "joined (map ((!) ss) js) e = joined ss e"
proof (cases "joined ss e")
  case None
  have "j < length ss" if "j \<in> set js" for j using assms(2) that by (auto simp: firstBest_def)
  then have "joined (map ((!) ss) js) e = None" using None by (auto simp: joined_None)
  then show ?thesis using None by simp
next
  case (Some p)
  have lt: "j < length ss" if "j \<in> set js" for j using assms(2) that by (auto simp: firstBest_def)
  obtain i where "firstBest ss e i p" using joined_firstBest [OF Some assms(1)] by blast
  then have "i \<in> set js" "level (ss ! i) e = Some p" using assms(2) by (blast, simp add: firstBest_def)
  moreover have "q \<le> p" if "j \<in> set js" "level (ss ! j) e = Some q" for j q
    using Some that lt [OF that(1)] nth_mem unfolding joined_Some by blast
  ultimately have "joined (map ((!) ss) js) e = Some p" by (auto simp: joined_Some)
  then show ?thesis using Some by simp
qed

text \<open>
  C34. Minimization of a corpus keeps an input exactly if it is the first one that reaches the highest
  priority of some element, each of them once; and the inputs it keeps have, merged, the same signal with
  the same priorities as the whole corpus, in whatever order Go walks over its maps.
\<close>

theorem Minimize_keeps_signal:
  assumes "list_all wfSignal (map fst corpus)" and "\<And>xs. mset (iter xs) = mset xs"
  shows "\<exists>js. Signal_Minimize iter corpus = map (\<lambda>i. snd (corpus ! i)) js \<and> distinct js \<and>
    (\<forall>i. i \<in> set js \<longleftrightarrow> (\<exists>e p. firstBest (map fst corpus) e i p)) \<and>
    map_of (mergeAll (map (\<lambda>i. fst (corpus ! i)) js)) = map_of (mergeAll (map fst corpus))"
proof -
  define js where "js = minimizeIndices iter corpus"
  note js = minimizeIndices_firstBest [of corpus iter, OF assms(1,2) refl, folded minimizeIndices_def js_def]
  have lt: "j < length corpus" if "j \<in> set js" for j using js(2) that by (auto simp: firstBest_def)
  then have sub: "map (\<lambda>i. fst (corpus ! i)) js = map ((!) (map fst corpus)) js" by simp
  have wf: "list_all wfSignal (map (\<lambda>i. fst (corpus ! i)) js)"
    using assms(1) lt by (auto simp: list_all_length in_set_conv_nth)
  have cov: "coveredBy (map fst corpus) (coverAll 0 corpus [])"
    using coverAll_coveredBy [of "[]" "[]" corpus] assms(1) by (simp add: coveredBy_def)
  have "map_of (mergeAll (map (\<lambda>i. fst (corpus ! i)) js)) = map_of (mergeAll (map fst corpus))"
    using joined_firstBest_subset [OF cov js(2)] wf assms(1)
    by (intro level_ext) (simp add: mergeAll_def level_foldl_Merge sub)
  then show ?thesis using js by (auto simp: Signal_Minimize_def js_def)
qed

definition exCorpus :: "(Signal \<times> string) list" where
  "exCorpus = [([(1, 2), (5, 1)], ''a''), ([(1, 1)], ''b''), ([(5, 3)], ''c'')]"

theorem Minimize_keeps_signal_witness:
  "\<exists>js. Signal_Minimize rev exCorpus = map (\<lambda>i. snd (exCorpus ! i)) js \<and> distinct js \<and>
    map_of (mergeAll (map (\<lambda>i. fst (exCorpus ! i)) js)) = map_of (mergeAll (map fst exCorpus))"
proof -
  have "list_all wfSignal (map fst exCorpus)" by (simp add: exCorpus_def)
  from Minimize_keeps_signal [OF this, of rev] show ?thesis by auto
qed

end
