(* ===== verification/FuzzerState.thy ===== *)
theory FuzzerState
  imports Signal Foreach
begin

text \<open>
  The state that the processes of a fuzzer share, \<^verbatim>\<open>syz-fuzzer/fuzzer.go\<close>: the corpus with its running
  sums of priorities, and three signals. Every section under a lock is one function, so that a step of the
  system \<open>fstep\<close> is one such section of one process; the lemmas hold for every interleaving. The sums of
  priorities are counts of signal elements and are taken as integers.
\<close>

record ('p, 'h) Fuzzer =
  fz_corpus :: "'p list"
  fz_corpusHashes :: "'h list"
  fz_corpusPrios :: "int list"
  fz_sumPrios :: int
  fz_corpusSignal :: Signal
  fz_maxSignal :: Signal
  fz_newSignal :: Signal

record 'p FuzzerSnapshot =
  sn_corpus :: "'p list"
  sn_corpusPrios :: "int list"
  sn_sumPrios :: int

record CallInfo =
  ci_Signal :: "elemType list"
  ci_Errno :: int

definition chooseProgram :: "'p FuzzerSnapshot \<Rightarrow> rng \<Rightarrow> ('p \<times> rng) option" where
  "chooseProgram sn r = do {
     (randVal, r) \<leftarrow> Intn (nat (sn_sumPrios sn + 1)) r;
     let idx = sortSearch (length (sn_corpusPrios sn)) (\<lambda>i. sn_corpusPrios sn ! i \<ge> int randVal);
     if idx < length (sn_corpus sn) then Some (sn_corpus sn ! idx, r) else None
   }"

text \<open>The two sections of \<^verbatim>\<open>addInputToCorpus\<close>.\<close>

definition noteInput :: "'p \<Rightarrow> Signal \<Rightarrow> 'h \<Rightarrow> ('p, 'h) Fuzzer \<Rightarrow> ('p, 'h) Fuzzer" where
  "noteInput p sign sig f =
     (if sig \<in> set (fz_corpusHashes f) then f
      else
        let prio = (if Signal_Empty sign then 1 else int (length sign));
            sum = fz_sumPrios f + prio
        in f\<lparr>fz_corpus := fz_corpus f @ [p], fz_corpusHashes := sig # fz_corpusHashes f,
             fz_sumPrios := sum, fz_corpusPrios := fz_corpusPrios f @ [sum]\<rparr>)"

definition mergeInput :: "Signal \<Rightarrow> ('p, 'h) Fuzzer \<Rightarrow> ('p, 'h) Fuzzer" where
  "mergeInput sign f =
     (if Signal_Empty sign then f
      else f\<lparr>fz_corpusSignal := Signal_Merge (fz_corpusSignal f) sign,
             fz_maxSignal := Signal_Merge (fz_maxSignal f) sign\<rparr>)"

definition addInputToCorpus :: "'p \<Rightarrow> Signal \<Rightarrow> 'h \<Rightarrow> ('p, 'h) Fuzzer \<Rightarrow> ('p, 'h) Fuzzer" where
  "addInputToCorpus p sign sig f = mergeInput sign (noteInput p sign sig f)"

definition snapshot :: "('p, 'h) Fuzzer \<Rightarrow> 'p FuzzerSnapshot" where
  "snapshot f = \<lparr>sn_corpus = fz_corpus f, sn_corpusPrios = fz_corpusPrios f, sn_sumPrios = fz_sumPrios f\<rparr>"

definition addMaxSignal :: "Signal \<Rightarrow> ('p, 'h) Fuzzer \<Rightarrow> ('p, 'h) Fuzzer" where
  "addMaxSignal sign f =
     (if Signal_Len sign = 0 then f else f\<lparr>fz_maxSignal := Signal_Merge (fz_maxSignal f) sign\<rparr>)"

definition grabNewSignal :: "('p, 'h) Fuzzer \<Rightarrow> Signal \<times> ('p, 'h) Fuzzer" where
  "grabNewSignal f =
     (let sign = fz_newSignal f in if Signal_Empty sign then ([], f) else (sign, f\<lparr>fz_newSignal := []\<rparr>))"

definition corpusSignalDiff :: "('p, 'h) Fuzzer \<Rightarrow> Signal \<Rightarrow> Signal" where
  "corpusSignalDiff f sign = Signal_Diff (fz_corpusSignal f) sign"

text \<open>The priority of the signal of a call. \<open>anyArray\<close> is the type of squashed arguments of the target.\<close>

definition isAnyPtr :: "Ref \<Rightarrow> Type \<Rightarrow> bool" where
  "isAnyPtr anyArray t = (case t of PtrType _ elem _ \<Rightarrow> elem = anyArray | _ \<Rightarrow> False)"

definition anyVisit :: "Type list \<Rightarrow> heap \<Rightarrow> Ref \<Rightarrow> Arg \<Rightarrow> ArgCtx \<Rightarrow> bool \<Rightarrow> (bool \<times> bool) option" where
  "anyVisit tt h anyArray arg ctx res = do {
     t \<leftarrow> argType tt h arg;
     Some (if isAnyPtr anyArray t then (True, True) else (res, False))
   }"

definition CallContainsAny :: "Type list \<Rightarrow> heap \<Rightarrow> Ref \<Rightarrow> Call \<Rightarrow> bool option" where
  "CallContainsAny tt h anyArray c = ForeachArg tt (\<lambda>_. argSize tt h) (anyVisit tt h anyArray) c False"

definition signalPrio ::
  "Type list \<Rightarrow> heap \<Rightarrow> Ref \<Rightarrow> Call list \<Rightarrow> CallInfo \<Rightarrow> int \<Rightarrow> 8 word option" where
  "signalPrio tt h anyArray calls info call =
     (if call = -1 then Some 0
      else if call < 0 \<or> int (length calls) \<le> call then None
      else do {
        let prio = (if ci_Errno info = 0 then 2 else 0);
        anys \<leftarrow> CallContainsAny tt h anyArray (calls ! nat call);
        Some (if \<not> anys then prio OR 1 else prio)
      })"

text \<open>
  \<^verbatim>\<open>checkNewCallSignal\<close> has two sections: the difference is taken under the read lock, and merged under the
  write lock after other processes may have run.
\<close>

definition newCallDiff :: "8 word \<Rightarrow> CallInfo \<Rightarrow> ('p, 'h) Fuzzer \<Rightarrow> Signal" where
  "newCallDiff prio info f = DiffRaw (fz_maxSignal f) (ci_Signal info) prio"

definition commitDiff :: "Signal \<Rightarrow> ('p, 'h) Fuzzer \<Rightarrow> ('p, 'h) Fuzzer" where
  "commitDiff diff f =
     f\<lparr>fz_maxSignal := Signal_Merge (fz_maxSignal f) diff, fz_newSignal := Signal_Merge (fz_newSignal f) diff\<rparr>"

definition checkNewCallSignal :: "8 word \<Rightarrow> CallInfo \<Rightarrow> ('p, 'h) Fuzzer \<Rightarrow> bool \<times> ('p, 'h) Fuzzer" where
  "checkNewCallSignal prio info f =
     (let diff = newCallDiff prio info f in if Signal_Empty diff then (False, f) else (True, commitDiff diff f))"

text \<open>The calls with new signal, when no other process interferes.\<close>

fun checkCalls ::
  "(CallInfo \<Rightarrow> int \<Rightarrow> 8 word option) \<Rightarrow> CallInfo list \<Rightarrow> int \<Rightarrow> ('p, 'h) Fuzzer \<Rightarrow>
   (int list \<times> ('p, 'h) Fuzzer) option" where
  "checkCalls prio [] i f = Some ([], f)"
| "checkCalls prio (ci # infos) i f = do {
     p \<leftarrow> prio ci i;
     let (new, f) = checkNewCallSignal p ci f;
     (calls, f) \<leftarrow> checkCalls prio infos (i + 1) f;
     Some (if new then i # calls else calls, f)
   }"

definition checkNewSignal ::
  "Type list \<Rightarrow> heap \<Rightarrow> Ref \<Rightarrow> Call list \<Rightarrow> CallInfo list \<Rightarrow> CallInfo \<Rightarrow> ('p, 'h) Fuzzer \<Rightarrow>
   (int list \<times> bool \<times> ('p, 'h) Fuzzer) option" where
  "checkNewSignal tt h anyArray progCalls infos extra f = do {
     (calls, f) \<leftarrow> checkCalls (signalPrio tt h anyArray progCalls) infos 0 f;
     p \<leftarrow> signalPrio tt h anyArray progCalls extra (-1);
     let (new, f) = checkNewCallSignal p extra f;
     Some (calls, new, f)
   }"

subsection \<open>The system\<close>

text \<open>
  The shared state, and for each process the difference or the input signal between its two sections.
  \<open>received\<close> and \<open>reported\<close> are not in the program: they record what came in with inputs and from the
  manager, and what \<^verbatim>\<open>poll\<close> has sent to it.
\<close>

type_synonym levels = "elemType \<Rightarrow> int option"

record ('p, 'h) system =
  shared :: "('p, 'h) Fuzzer"
  pending :: "nat \<rightharpoonup> Signal"
  noted :: "nat \<rightharpoonup> Signal"
  received :: levels
  reported :: levels

definition joinLevels :: "levels \<Rightarrow> levels \<Rightarrow> levels" where
  "joinLevels a b e = joinLevel (a e) (b e)"

definition initFuzzer :: "('p, 'h) Fuzzer" where
  "initFuzzer = \<lparr>fz_corpus = [], fz_corpusHashes = [], fz_corpusPrios = [], fz_sumPrios = 0,
     fz_corpusSignal = [], fz_maxSignal = [], fz_newSignal = []\<rparr>"

definition initSystem :: "('p, 'h) system" where
  "initSystem = \<lparr>shared = initFuzzer, pending = Map.empty, noted = Map.empty, received = (\<lambda>_. None),
     reported = (\<lambda>_. None)\<rparr>"

inductive fstep :: "('p, 'h) system \<Rightarrow> ('p, 'h) system \<Rightarrow> bool" where
  check: "pending s pr = None \<Longrightarrow> diff = newCallDiff prio info (shared s) \<Longrightarrow> \<not> Signal_Empty diff \<Longrightarrow>
    fstep s (s\<lparr>pending := (pending s)(pr \<mapsto> diff)\<rparr>)"
| commit: "pending s pr = Some diff \<Longrightarrow>
    fstep s (s\<lparr>shared := commitDiff diff (shared s), pending := (pending s)(pr := None)\<rparr>)"
| note_input: "noted s pr = None \<Longrightarrow> wfSignal sign \<Longrightarrow>
    fstep s (s\<lparr>shared := noteInput p sign sig (shared s), noted := (noted s)(pr \<mapsto> sign)\<rparr>)"
| merge_input: "noted s pr = Some sign \<Longrightarrow>
    fstep s (s\<lparr>shared := mergeInput sign (shared s), noted := (noted s)(pr := None),
               received := joinLevels (received s) (level sign)\<rparr>)"
| add_max: "Serial_Deserialize ser = Some sign \<Longrightarrow>
    fstep s (s\<lparr>shared := addMaxSignal sign (shared s), received := joinLevels (received s) (level sign)\<rparr>)"
| grab: "grabNewSignal (shared s) = (sign, f) \<Longrightarrow>
    fstep s (s\<lparr>shared := f, reported := joinLevels (reported s) (level sign)\<rparr>)"

text \<open>An invariant of a transition system: it holds at first and each step keeps it.\<close>

locale system_invariant =
  fixes init :: 's and step :: "'s \<Rightarrow> 's \<Rightarrow> bool" and inv :: "'s \<Rightarrow> bool"
  assumes inv_init: "inv init" and inv_step: "inv s \<Longrightarrow> step s s' \<Longrightarrow> inv s'"
begin

lemma reachable_inv: "step\<^sup>*\<^sup>* init s \<Longrightarrow> inv s"
  by (induction rule: rtranclp_induct) (auto intro: inv_init inv_step)

end

subsection \<open>Signals\<close>

definition wfSystem :: "('p, 'h) system \<Rightarrow> bool" where
  "wfSystem s \<longleftrightarrow> wfSignal (fz_corpusSignal (shared s)) \<and> wfSignal (fz_maxSignal (shared s)) \<and>
     wfSignal (fz_newSignal (shared s)) \<and> (\<forall>pr d. pending s pr = Some d \<longrightarrow> wfSignal d) \<and>
     (\<forall>pr d. noted s pr = Some d \<longrightarrow> wfSignal d)"

definition belowLevel :: "int option \<Rightarrow> int option \<Rightarrow> bool" where
  "belowLevel a b \<longleftrightarrow> joinLevel b a = b"

text \<open>All that was found is known, and waits to be reported unless it came in or was reported.\<close>

definition nothingLost :: "('p, 'h) system \<Rightarrow> bool" where
  "nothingLost s \<longleftrightarrow>
     (\<forall>e. level (fz_maxSignal (shared s)) e =
            joinLevel (received s e) (joinLevel (reported s e) (level (fz_newSignal (shared s)) e)) \<and>
          belowLevel (level (fz_corpusSignal (shared s)) e) (received s e))"

lemma joinLevel_comm: "joinLevel a b = joinLevel b a"
  by (cases a; cases b) simp_all

lemma joinLevel_left_comm: "joinLevel a (joinLevel b c) = joinLevel b (joinLevel a c)"
  by (cases a; cases b; cases c) simp_all

lemma joinLevel_left_idem: "joinLevel a (joinLevel a b) = joinLevel a b"
  by (cases a; cases b) simp_all

lemmas joinLevel_ac = joinLevel_assoc joinLevel_comm joinLevel_left_comm joinLevel_left_idem

lemma belowLevel_mono: "belowLevel a b \<Longrightarrow> belowLevel (joinLevel c a) (joinLevel b c)"
  by (cases a; cases b; cases c) (auto simp: belowLevel_def)

lemma belowLevel_join: "belowLevel a b \<Longrightarrow> belowLevel a (joinLevel b c)"
  by (cases a; cases b; cases c) (auto simp: belowLevel_def)

lemma Deserialize_wf: "Serial_Deserialize ser = Some s \<Longrightarrow> wfSignal s"
  by (auto simp: Serial_Deserialize_def wf_signal split: if_splits)

lemma noteInput_signals [simp]:
  "fz_corpusSignal (noteInput p sign sig f) = fz_corpusSignal f" "fz_maxSignal (noteInput p sign sig f) = fz_maxSignal f"
  "fz_newSignal (noteInput p sign sig f) = fz_newSignal f"
  by (simp_all add: noteInput_def Let_def)

lemma fstep_wf: "fstep s s' \<Longrightarrow> wfSystem s \<Longrightarrow> wfSystem s'"
  by (induction rule: fstep.induct)
    (auto simp: wfSystem_def newCallDiff_def commitDiff_def mergeInput_def addMaxSignal_def grabNewSignal_def Let_def
      wf_signal split: if_splits)

lemma fstep_nothingLost: "fstep s s' \<Longrightarrow> wfSystem s \<Longrightarrow> nothingLost s \<Longrightarrow> nothingLost s'"
proof (induction rule: fstep.induct)
  case (commit s pr diff)
  then have "wfSignal diff" by (auto simp: wfSystem_def)
  with commit show ?case by (simp add: nothingLost_def commitDiff_def joinLevel_ac)
next
  case (merge_input s pr sign)
  then have "wfSignal sign" by (auto simp: wfSystem_def)
  with merge_input show ?case
    by (auto simp: nothingLost_def mergeInput_def joinLevels_def Signal_Empty_def joinLevel_ac
        belowLevel_mono belowLevel_join)
next
  case (add_max ser sign s)
  with Deserialize_wf show ?case
    by (auto simp: nothingLost_def addMaxSignal_def Signal_Len_def joinLevels_def joinLevel_ac belowLevel_join)
next
  case (grab s sign f)
  then show ?case
    by (auto simp: nothingLost_def grabNewSignal_def joinLevels_def Let_def Signal_Empty_def joinLevel_ac split: if_splits)
qed (simp_all add: nothingLost_def)

lemma initSystem_ok: "wfSystem initSystem" "nothingLost initSystem"
  by (simp_all add: wfSystem_def nothingLost_def initSystem_def initFuzzer_def belowLevel_def)

interpretation fz: system_invariant initSystem fstep "\<lambda>s. wfSystem s \<and> nothingLost s"
  by unfold_locales (use initSystem_ok fstep_wf fstep_nothingLost in blast)+

subsection \<open>The corpus\<close>

text \<open>The sums of priorities grow with every input, and the last one is the total.\<close>

definition corpusOk :: "('p, 'h) system \<Rightarrow> bool" where
  "corpusOk s \<longleftrightarrow>
     (let f = shared s in
      length (fz_corpusPrios f) = length (fz_corpus f) \<and> length (fz_corpusHashes f) = length (fz_corpus f) \<and>
      distinct (fz_corpusHashes f) \<and> sorted_wrt (<) (0 # fz_corpusPrios f) \<and>
      fz_sumPrios f = last (0 # fz_corpusPrios f))"

lemma sorted_wrt_snoc: "sorted_wrt (<) (xs @ [y]) \<longleftrightarrow> sorted_wrt (<) xs \<and> (\<forall>x \<in> set xs. x < (y :: int))"
  by (simp add: sorted_wrt_append)

lemma sorted_last: "sorted_wrt (<) (a # xs) \<Longrightarrow> x \<in> set (a # xs) \<Longrightarrow> x \<le> (last (a # xs) :: int)"
  by (induction xs arbitrary: a) (auto split: if_splits)

lemma noteInput_corpusOk:
  assumes "corpusOk s" and "shared s' = noteInput p sign sig (shared s)"
  shows "corpusOk s'"
proof (cases "sig \<in> set (fz_corpusHashes (shared s))")
  case False
  let ?f = "shared s" and ?prio = "if Signal_Empty sign then 1 else int (length sign)"
  have pos: "0 < ?prio" by (simp add: Signal_Empty_def)
  have srt: "sorted_wrt (<) (0 # fz_corpusPrios ?f)" and last: "fz_sumPrios ?f = last (0 # fz_corpusPrios ?f)"
    using assms(1) by (simp_all add: corpusOk_def Let_def)
  have "\<forall>x \<in> set (0 # fz_corpusPrios ?f). x < fz_sumPrios ?f + ?prio"
  proof
    fix x assume "x \<in> set (0 # fz_corpusPrios ?f)"
    with srt have "x \<le> fz_sumPrios ?f" unfolding last by (rule sorted_last)
    with pos show "x < fz_sumPrios ?f + ?prio" by linarith
  qed
  with srt have "sorted_wrt (<) ((0 # fz_corpusPrios ?f) @ [fz_sumPrios ?f + ?prio])"
    by (simp only: sorted_wrt_snoc)
  with False assms show ?thesis by (simp add: corpusOk_def noteInput_def Let_def)
qed (use assms in \<open>simp add: corpusOk_def noteInput_def\<close>)

lemma fstep_corpusOk: "fstep s s' \<Longrightarrow> corpusOk s \<Longrightarrow> corpusOk s'"
proof (induction rule: fstep.induct)
  case (note_input s pr sign p sig)
  then show ?case using noteInput_corpusOk [of s _ p sign sig] by simp
qed (auto simp: corpusOk_def commitDiff_def mergeInput_def addMaxSignal_def grabNewSignal_def Let_def split: if_splits)

lemma initSystem_corpusOk: "corpusOk initSystem"
  by (simp add: corpusOk_def initSystem_def initFuzzer_def)

interpretation fc: system_invariant initSystem fstep corpusOk
  by unfold_locales (use initSystem_corpusOk fstep_corpusOk in blast)+

lemma sorted_wrt_nth_mono: "sorted_wrt (<) (xs :: int list) \<Longrightarrow> i \<le> j \<Longrightarrow> j < length xs \<Longrightarrow> xs ! i \<le> xs ! j"
  by (cases "i = j") (auto dest: sorted_wrt_nth_less [where i = i and j = j])

lemma chooseProgram_index:
  assumes "corpusOk s" and "k < length (fz_corpus (shared s))" and "int v \<le> fz_corpusPrios (shared s) ! k"
    and "\<And>i. i < k \<Longrightarrow> fz_corpusPrios (shared s) ! i < int v"
  shows "chooseProgram (snapshot (shared s)) (v # r) = Some (fz_corpus (shared s) ! k, r)"
proof -
  let ?f = "shared s"
  have ok: "length (fz_corpusPrios ?f) = length (fz_corpus ?f)" "sorted_wrt (<) (fz_corpusPrios ?f)"
    "sorted_wrt (<) (0 # fz_corpusPrios ?f)" "fz_sumPrios ?f = last (0 # fz_corpusPrios ?f)"
    using assms(1) by (simp_all add: corpusOk_def Let_def)
  have "fz_corpusPrios ?f ! k \<le> fz_sumPrios ?f"
    unfolding ok(4) by (rule sorted_last [OF ok(3)]) (use assms(2) ok(1) in simp)
  then have "Intn (nat (fz_sumPrios ?f + 1)) (v # r) = Some (v, r)"
    using assms(3) by (intro Intn_surj) linarith
  moreover have "sortSearch (length (fz_corpusPrios ?f)) (\<lambda>i. int v \<le> fz_corpusPrios ?f ! i) = k"
  proof (subst sortSearch_least)
    fix a b assume "a \<le> b" "b < length (fz_corpusPrios ?f)" "int v \<le> fz_corpusPrios ?f ! a"
    then show "int v \<le> fz_corpusPrios ?f ! b" using sorted_wrt_nth_mono [OF ok(2)] by fastforce
  next
    show "k \<le> length (fz_corpusPrios ?f) \<and> (\<forall>a < k. \<not> int v \<le> fz_corpusPrios ?f ! a) \<and>
      (k < length (fz_corpusPrios ?f) \<longrightarrow> int v \<le> fz_corpusPrios ?f ! k)"
      using assms(2-4) ok(1) by fastforce
  qed
  ultimately show ?thesis using assms(2) by (simp add: chooseProgram_def snapshot_def)
qed

lemma corpusPrios_cover:
  assumes "corpusOk s" and "fz_corpus (shared s) \<noteq> []" and "int v \<le> fz_sumPrios (shared s)"
  shows "\<exists>k < length (fz_corpus (shared s)). int v \<le> fz_corpusPrios (shared s) ! k \<and>
    (\<forall>i < k. fz_corpusPrios (shared s) ! i < int v)"
proof -
  let ?ps = "fz_corpusPrios (shared s)"
  have len: "length ?ps = length (fz_corpus (shared s))" and "fz_sumPrios (shared s) = last (0 # ?ps)"
    using assms(1) by (simp_all add: corpusOk_def Let_def)
  moreover have ne: "?ps \<noteq> []" using len assms(2) by auto
  ultimately have top: "int v \<le> ?ps ! (length ?ps - 1)" using assms(3) by (simp add: last_conv_nth)
  let ?k = "LEAST k. int v \<le> ?ps ! k"
  have "?k \<le> length ?ps - 1" by (rule Least_le) (rule top)
  moreover have "int v \<le> ?ps ! ?k" by (rule LeastI) (rule top)
  moreover have "?ps ! i < int v" if "i < ?k" for i using not_less_Least [OF that] by simp
  moreover have "length ?ps - 1 < length ?ps" using ne by simp
  ultimately show ?thesis unfolding len [symmetric] by (intro exI [of _ ?k]) simp
qed


definition exSystem :: "(string, nat) system" where
  "exSystem = initSystem\<lparr>shared := noteInput ''p'' [(7, 1), (8, 1)] 0 initFuzzer, noted := [0 \<mapsto> [(7, 1), (8, 1)]]\<rparr>"

lemma exSystem_reachable: "fstep\<^sup>*\<^sup>* initSystem exSystem"
  using fstep.note_input [of "initSystem :: (string, nat) system" 0 "[(7, 1), (8, 1)]" "''p''" 0]
  by (intro r_into_rtranclp) (simp add: exSystem_def initSystem_def)


text \<open>
  C35. In every interleaving of the processes no signal is lost: what a fuzzer knows (the maximal signal)
  is always what came in with inputs and from the manager, joined with what it reported to the manager
  and what still waits to be reported; and the signal of the corpus is part of what came in.
\<close>

theorem signal_never_lost:
  assumes "fstep\<^sup>*\<^sup>* initSystem s"
  shows "level (fz_maxSignal (shared s)) e =
      joinLevel (received s e) (joinLevel (reported s e) (level (fz_newSignal (shared s)) e)) \<and>
    joinLevel (received s e) (level (fz_corpusSignal (shared s)) e) = received s e"
  using fz.reachable_inv [OF assms] by (simp add: nothingLost_def belowLevel_def)

text \<open>One process finds an element, and reports it.\<close>

definition exFound :: "(string, nat) system" where
  "exFound = initSystem\<lparr>pending := [0 \<mapsto> [(7, 3)]]\<rparr>"

definition exCommitted :: "(string, nat) system" where
  "exCommitted = initSystem\<lparr>shared := commitDiff [(7, 3)] initFuzzer\<rparr>"

lemma exCommitted_reachable: "fstep\<^sup>*\<^sup>* initSystem exCommitted"
proof (rule converse_rtranclp_into_rtranclp)
  show "fstep initSystem exFound"
    using fstep.check [of "initSystem :: (string, nat) system" 0 "[(7, 3)]" 3 "\<lparr>ci_Signal = [7], ci_Errno = 0\<rparr>"]
    by (simp add: exFound_def initSystem_def newCallDiff_def DiffRaw_def initFuzzer_def Signal_Empty_def hasPrio_def)
  show "fstep\<^sup>*\<^sup>* exFound exCommitted"
    using fstep.commit [of exFound 0 "[(7, 3)]"]
    by (intro r_into_rtranclp) (simp add: exFound_def exCommitted_def initSystem_def)
qed

theorem signal_never_lost_witness:
  "joinLevel (received exCommitted 7)
     (joinLevel (reported exCommitted 7) (level (fz_newSignal (shared exCommitted)) 7)) = Some 3"
proof -
  have "level (fz_maxSignal (shared exCommitted)) 7 = Some 3"
    by (simp add: exCommitted_def commitDiff_def initFuzzer_def Signal_Merge_def Signal_Empty_def level_Cons)
  with signal_never_lost [OF exCommitted_reachable, of 7] show ?thesis by simp
qed

end
