(* ===== verification/WorkQueue.thy ===== *)
theory WorkQueue
  imports FuzzerState
begin

text \<open>
  The queue of work items that the processes of a fuzzer share, \<^verbatim>\<open>syz-fuzzer/workqueue.go\<close>. A section under a
  lock is one function; \<^verbatim>\<open>dequeue\<close> has two, and between them another process may take the last item. The
  channel \<^verbatim>\<open>needCandidates\<close> holds at most one token, as its only maker creates it, and sending does not block.

  The specification is a single list of items in the order of their arrival, from which the latest item of the
  best rank is taken.
\<close>

unbundle bit_operations_syntax

type_synonym ProgFlags = "64 word"

definition ProgCandidate :: ProgFlags where "ProgCandidate = 1"

record 'p WorkTriage =
  wt_p :: 'p
  wt_call :: int
  wt_info :: CallInfo
  wt_flags :: ProgFlags

record 'p WorkCandidate =
  wc_p :: 'p
  wc_flags :: ProgFlags

record 'p WorkSmash =
  ws_p :: 'p
  ws_call :: int

text \<open>A work item is an \<^verbatim>\<open>interface{}\<close>; anything but the three kinds makes \<^verbatim>\<open>enqueue\<close> panic.\<close>

datatype 'p work = Triage "'p WorkTriage" | Candidate "'p WorkCandidate" | Smash "'p WorkSmash" | OtherWork

record 'p WorkQueue =
  wq_triageCandidate :: "'p WorkTriage list"
  wq_candidate :: "'p WorkCandidate list"
  wq_triage :: "'p WorkTriage list"
  wq_smash :: "'p WorkSmash list"
  wq_procs :: int
  wq_needCandidates :: bool

definition newWorkQueue :: "int \<Rightarrow> bool \<Rightarrow> 'p WorkQueue" where
  "newWorkQueue procs needCandidates =
     \<lparr>wq_triageCandidate = [], wq_candidate = [], wq_triage = [], wq_smash = [],
      wq_procs = procs, wq_needCandidates = needCandidates\<rparr>"

definition enqueue :: "'p work \<Rightarrow> 'p WorkQueue \<Rightarrow> 'p WorkQueue option" where
  "enqueue item wq =
     (case item of
        Triage t \<Rightarrow>
          Some (if wt_flags t AND ProgCandidate \<noteq> 0 then wq\<lparr>wq_triageCandidate := wq_triageCandidate wq @ [t]\<rparr>
                else wq\<lparr>wq_triage := wq_triage wq @ [t]\<rparr>)
      | Candidate c \<Rightarrow> Some (wq\<lparr>wq_candidate := wq_candidate wq @ [c]\<rparr>)
      | Smash s \<Rightarrow> Some (wq\<lparr>wq_smash := wq_smash wq @ [s]\<rparr>)
      | OtherWork \<Rightarrow> None)"

definition queueEmpty :: "'p WorkQueue \<Rightarrow> bool" where
  "queueEmpty wq \<longleftrightarrow>
     length (wq_triageCandidate wq) + length (wq_candidate wq) + length (wq_triage wq) + length (wq_smash wq) = 0"

definition wantCandidates :: "'p WorkQueue \<Rightarrow> bool" where
  "wantCandidates wq \<longleftrightarrow> int (length (wq_candidate wq)) < wq_procs wq"

text \<open>The second section of \<^verbatim>\<open>dequeue\<close>: the item, if any, whether candidates are wanted, and the queue.\<close>

definition takeItem :: "'p WorkQueue \<Rightarrow> 'p work option \<times> bool \<times> 'p WorkQueue" where
  "takeItem wq =
     (if wq_triageCandidate wq \<noteq> [] then
        (Some (Triage (last (wq_triageCandidate wq))), False, wq\<lparr>wq_triageCandidate := butlast (wq_triageCandidate wq)\<rparr>)
      else if wq_candidate wq \<noteq> [] then
        (let wq' = wq\<lparr>wq_candidate := butlast (wq_candidate wq)\<rparr>
         in (Some (Candidate (last (wq_candidate wq))), int (length (wq_candidate wq')) < wq_procs wq, wq'))
      else if wq_triage wq \<noteq> [] then
        (Some (Triage (last (wq_triage wq))), False, wq\<lparr>wq_triage := butlast (wq_triage wq)\<rparr>)
      else if wq_smash wq \<noteq> [] then
        (Some (Smash (last (wq_smash wq))), False, wq\<lparr>wq_smash := butlast (wq_smash wq)\<rparr>)
      else (None, False, wq))"

definition sendNeed :: "'p WorkQueue \<Rightarrow> 'p WorkQueue" where
  "sendNeed wq = wq\<lparr>wq_needCandidates := True\<rparr>"

text \<open>The whole of \<^verbatim>\<open>dequeue\<close> when no other process interferes.\<close>

definition dequeue :: "'p WorkQueue \<Rightarrow> 'p work option \<times> 'p WorkQueue" where
  "dequeue wq =
     (if queueEmpty wq then (None, wq)
      else let (item, want, wq) = takeItem wq in (item, if want then sendNeed wq else wq))"

subsection \<open>The specification\<close>

definition workRank :: "'p work \<Rightarrow> nat" where
  "workRank w =
     (case w of
        Triage t \<Rightarrow> if wt_flags t AND ProgCandidate \<noteq> 0 then 0 else 2
      | Candidate _ \<Rightarrow> 1
      | Smash _ \<Rightarrow> 3
      | OtherWork \<Rightarrow> 4)"

text \<open>The item taken has the best rank, and of those with that rank it is the latest.\<close>

definition picks :: "'p work list \<Rightarrow> 'p work \<Rightarrow> 'p work list \<Rightarrow> bool" where
  "picks pool w pool' \<longleftrightarrow>
     (\<exists>xs ys. pool = xs @ w # ys \<and> pool' = xs @ ys \<and>
        (\<forall>v \<in> set xs. workRank w \<le> workRank v) \<and> (\<forall>v \<in> set ys. workRank w < workRank v))"

datatype 'p event = Put "'p work" | Got "'p work" | GotNil

inductive poolRun :: "'p event list \<Rightarrow> 'p work list \<Rightarrow> bool" where
  start: "poolRun [] []"
| put: "poolRun tr pool \<Longrightarrow> w \<noteq> OtherWork \<Longrightarrow> poolRun (tr @ [Put w]) (pool @ [w])"
| got: "poolRun tr pool \<Longrightarrow> picks pool w pool' \<Longrightarrow> poolRun (tr @ [Got w]) pool'"
| nothing: "poolRun tr [] \<Longrightarrow> poolRun (tr @ [GotNil]) []"

subsection \<open>The processes\<close>

text \<open>A process is idle, or inside \<^verbatim>\<open>dequeue\<close> after the first section, or about to send.\<close>

datatype place = Idle | Passed | Sending

record 'p wqSystem =
  sy_queue :: "'p WorkQueue"
  sy_at :: "nat \<Rightarrow> place"
  sy_trace :: "'p event list"

definition initQueues :: "int \<Rightarrow> 'p wqSystem" where
  "initQueues procs = \<lparr>sy_queue = newWorkQueue procs True, sy_at = (\<lambda>_. Idle), sy_trace = []\<rparr>"

inductive wstep :: "'p wqSystem \<Rightarrow> 'p wqSystem \<Rightarrow> bool" where
  enq: "sy_at s pr = Idle \<Longrightarrow> enqueue w (sy_queue s) = Some wq \<Longrightarrow>
    wstep s (s\<lparr>sy_queue := wq, sy_trace := sy_trace s @ [Put w]\<rparr>)"
| empty: "sy_at s pr = Idle \<Longrightarrow> queueEmpty (sy_queue s) \<Longrightarrow> wstep s (s\<lparr>sy_trace := sy_trace s @ [GotNil]\<rparr>)"
| pass: "sy_at s pr = Idle \<Longrightarrow> \<not> queueEmpty (sy_queue s) \<Longrightarrow> wstep s (s\<lparr>sy_at := (sy_at s)(pr := Passed)\<rparr>)"
| take: "sy_at s pr = Passed \<Longrightarrow> takeItem (sy_queue s) = (item, want, wq) \<Longrightarrow>
    wstep s (s\<lparr>sy_queue := wq, sy_at := (sy_at s)(pr := if want then Sending else Idle),
               sy_trace := sy_trace s @ [case item of None \<Rightarrow> GotNil | Some w \<Rightarrow> Got w]\<rparr>)"
| send: "sy_at s pr = Sending \<Longrightarrow>
    wstep s (s\<lparr>sy_queue := sendNeed (sy_queue s), sy_at := (sy_at s)(pr := Idle)\<rparr>)"
| poll: "wstep s (s\<lparr>sy_queue := (sy_queue s)\<lparr>wq_needCandidates := False\<rparr>\<rparr>)"

subsection \<open>Refinement\<close>

definition ofRank :: "nat \<Rightarrow> 'p work list \<Rightarrow> 'p work list" where
  "ofRank r pool = filter (\<lambda>w. workRank w = r) pool"

text \<open>The queues of a pool: its items by rank.\<close>

definition queuesOf :: "'p work list \<Rightarrow> 'p WorkQueue \<Rightarrow> bool" where
  "queuesOf pool wq \<longleftrightarrow>
     map Triage (wq_triageCandidate wq) = ofRank 0 pool \<and> map Candidate (wq_candidate wq) = ofRank 1 pool \<and>
     map Triage (wq_triage wq) = ofRank 2 pool \<and> map Smash (wq_smash wq) = ofRank 3 pool \<and> ofRank 4 pool = []"

lemma enqueue_refines:
  assumes "queuesOf pool wq" and "enqueue w wq = Some wq'"
  shows "w \<noteq> OtherWork \<and> queuesOf (pool @ [w]) wq'"
  using assms by (cases w) (auto simp: enqueue_def queuesOf_def ofRank_def workRank_def)

lemma queuesOf_empty: "queuesOf pool wq \<Longrightarrow> queueEmpty wq \<Longrightarrow> pool = []"
proof (rule ccontr)
  assume q: "queuesOf pool wq" "queueEmpty wq" "pool \<noteq> []"
  then obtain w where w: "w \<in> set pool" by (cases pool) auto
  have "ofRank r pool = []" if "r \<in> {0, 1, 2, 3, 4}" for r
    using q(1,2) that by (auto simp: queuesOf_def queueEmpty_def)
  moreover have "workRank w \<in> {0, 1, 2, 3, 4}" by (cases w) (simp_all add: workRank_def)
  ultimately show False using w by (auto simp: ofRank_def filter_empty_conv)
qed

text \<open>Taking the last item of the first rank that has any is what the specification asks for.\<close>

lemma picks_last:
  assumes "ofRank r pool \<noteq> []" and "\<forall>v \<in> set pool. r \<le> workRank v"
  obtains pool' where "picks pool (last (ofRank r pool)) pool'" and "ofRank r pool' = butlast (ofRank r pool)"
    and "\<And>r'. r' \<noteq> r \<Longrightarrow> ofRank r' pool' = ofRank r' pool"
proof -
  have "\<exists>v \<in> set pool. workRank v = r" using assms(1) by (auto simp: ofRank_def filter_empty_conv)
  then obtain xs w ys where split: "pool = xs @ w # ys" "workRank w = r" "\<forall>v \<in> set ys. workRank v \<noteq> r"
    by (rule split_list_last_propE) blast
  then have ys: "ofRank r ys = []" by (simp add: ofRank_def filter_empty_conv)
  then have last: "last (ofRank r pool) = w" "butlast (ofRank r pool) = ofRank r xs"
    using split(1,2) by (simp_all add: ofRank_def)
  have "\<forall>v \<in> set xs. workRank w \<le> workRank v" "\<forall>v \<in> set ys. workRank w < workRank v"
    using split assms(2) by (auto simp: less_le)
  then have "picks pool w (xs @ ys)" unfolding picks_def using split(1) by blast
  moreover have "ofRank r (xs @ ys) = ofRank r xs" using ys by (simp add: ofRank_def)
  moreover have "ofRank r' (xs @ ys) = ofRank r' pool" if "r' \<noteq> r" for r' using split(1,2) that by (simp add: ofRank_def)
  ultimately show ?thesis using that last by metis
qed

lemma ofRank_min: "(\<And>r'. r' < r \<Longrightarrow> ofRank r' pool = []) \<Longrightarrow> \<forall>v \<in> set pool. r \<le> workRank v"
  by (metis (mono_tags, lifting) filter_empty_conv leI ofRank_def)

text \<open>One rank at a time: the queue of a rank loses its last item.\<close>

lemma picks_rank:
  assumes "ofRank r pool = map f q" and "q \<noteq> []" and "\<And>r'. r' < r \<Longrightarrow> ofRank r' pool = []"
  shows "\<exists>pool'. picks pool (f (last q)) pool' \<and> ofRank r pool' = map f (butlast q) \<and>
    (\<forall>r'. r' \<noteq> r \<longrightarrow> ofRank r' pool' = ofRank r' pool)"
proof -
  have "ofRank r pool \<noteq> []" using assms(1,2) by simp
  then obtain pool' where "picks pool (last (ofRank r pool)) pool'" "ofRank r pool' = butlast (ofRank r pool)"
    "\<And>r'. r' \<noteq> r \<Longrightarrow> ofRank r' pool' = ofRank r' pool"
    using picks_last ofRank_min [OF assms(3)] by metis
  then show ?thesis using assms(1,2) by (auto simp: last_map map_butlast)
qed

lemma takeItem_refines:
  assumes q: "queuesOf pool wq" and t: "takeItem wq = (item, want, wq')"
  shows "(item = None \<and> pool = [] \<and> wq' = wq) \<or> (\<exists>w pool'. item = Some w \<and> picks pool w pool' \<and> queuesOf pool' wq')"
proof -
  note Q = q [unfolded queuesOf_def]
  consider (0) "wq_triageCandidate wq \<noteq> []" | (1) "wq_triageCandidate wq = []" "wq_candidate wq \<noteq> []"
    | (2) "wq_triageCandidate wq = []" "wq_candidate wq = []" "wq_triage wq \<noteq> []"
    | (3) "wq_triageCandidate wq = []" "wq_candidate wq = []" "wq_triage wq = []" "wq_smash wq \<noteq> []"
    | (4) "wq_triageCandidate wq = []" "wq_candidate wq = []" "wq_triage wq = []" "wq_smash wq = []" by blast
  then show ?thesis
  proof cases
    case 0
    have "ofRank r' pool = []" if "r' < 0" for r' using that Q 0 by (auto simp: less_Suc_eq eval_nat_numeral)
    then obtain pool' where "picks pool (Triage (last (wq_triageCandidate wq))) pool'" "ofRank 0 pool' = map Triage (butlast (wq_triageCandidate wq))"
      "\<forall>r'. r' \<noteq> 0 \<longrightarrow> ofRank r' pool' = ofRank r' pool"
      using Q 0 picks_rank [of 0 pool Triage "wq_triageCandidate wq"] by fastforce
    moreover from this have "queuesOf pool' wq'" using t Q 0 by (auto simp: takeItem_def queuesOf_def Let_def)
    moreover have "item = Some (Triage (last (wq_triageCandidate wq)))" using t 0 by (simp add: takeItem_def Let_def)
    ultimately show ?thesis by blast
  next
    case 1
    have "ofRank r' pool = []" if "r' < 1" for r' using that Q 1 by (auto simp: less_Suc_eq eval_nat_numeral)
    then obtain pool' where "picks pool (Candidate (last (wq_candidate wq))) pool'" "ofRank 1 pool' = map Candidate (butlast (wq_candidate wq))"
      "\<forall>r'. r' \<noteq> 1 \<longrightarrow> ofRank r' pool' = ofRank r' pool"
      using Q 1 picks_rank [of 1 pool Candidate "wq_candidate wq"] by fastforce
    moreover from this have "queuesOf pool' wq'" using t Q 1 by (auto simp: takeItem_def queuesOf_def Let_def)
    moreover have "item = Some (Candidate (last (wq_candidate wq)))" using t 1 by (simp add: takeItem_def Let_def)
    ultimately show ?thesis by blast
  next
    case 2
    have "ofRank r' pool = []" if "r' < 2" for r' using that Q 2 by (auto simp: less_Suc_eq eval_nat_numeral)
    then obtain pool' where "picks pool (Triage (last (wq_triage wq))) pool'" "ofRank 2 pool' = map Triage (butlast (wq_triage wq))"
      "\<forall>r'. r' \<noteq> 2 \<longrightarrow> ofRank r' pool' = ofRank r' pool"
      using Q 2 picks_rank [of 2 pool Triage "wq_triage wq"] by fastforce
    moreover from this have "queuesOf pool' wq'" using t Q 2 by (auto simp: takeItem_def queuesOf_def Let_def)
    moreover have "item = Some (Triage (last (wq_triage wq)))" using t 2 by (simp add: takeItem_def Let_def)
    ultimately show ?thesis by blast
  next
    case 3
    have "ofRank r' pool = []" if "r' < 3" for r' using that Q 3 by (auto simp: less_Suc_eq eval_nat_numeral)
    then obtain pool' where "picks pool (Smash (last (wq_smash wq))) pool'" "ofRank 3 pool' = map Smash (butlast (wq_smash wq))"
      "\<forall>r'. r' \<noteq> 3 \<longrightarrow> ofRank r' pool' = ofRank r' pool"
      using Q 3 picks_rank [of 3 pool Smash "wq_smash wq"] by fastforce
    moreover from this have "queuesOf pool' wq'" using t Q 3 by (auto simp: takeItem_def queuesOf_def Let_def)
    moreover have "item = Some (Smash (last (wq_smash wq)))" using t 3 by (simp add: takeItem_def Let_def)
    ultimately show ?thesis by blast
  next
    case 4
    then show ?thesis using t queuesOf_empty [OF q] by (simp add: takeItem_def queueEmpty_def)
  qed
qed

subsection \<open>Every interleaving\<close>

definition puts :: "'p event list \<Rightarrow> 'p work multiset" where
  "puts tr = mset (concat (map (\<lambda>e. case e of Put w \<Rightarrow> [w] | _ \<Rightarrow> []) tr))"

definition gots :: "'p event list \<Rightarrow> 'p work multiset" where
  "gots tr = mset (concat (map (\<lambda>e. case e of Got w \<Rightarrow> [w] | _ \<Rightarrow> []) tr))"

lemma poolRun_conserves: "poolRun tr pool \<Longrightarrow> puts tr = gots tr + mset pool"
  by (induction rule: poolRun.induct) (auto simp: puts_def gots_def picks_def)

definition refinesPool :: "'p wqSystem \<Rightarrow> bool" where
  "refinesPool s \<longleftrightarrow> (\<exists>pool. poolRun (sy_trace s) pool \<and> queuesOf pool (sy_queue s))"

lemma queuesOf_need [simp]: "queuesOf pool (wq\<lparr>wq_needCandidates := b\<rparr>) = queuesOf pool wq"
  by (simp add: queuesOf_def)

lemma wstep_refines: "wstep s s' \<Longrightarrow> refinesPool s \<Longrightarrow> refinesPool s'"
proof (induction rule: wstep.induct)
  case (enq s pr w wq)
  then show ?case unfolding refinesPool_def using enqueue_refines poolRun.put by fastforce
next
  case (empty s pr)
  then obtain pool where "poolRun (sy_trace s) pool" "queuesOf pool (sy_queue s)" unfolding refinesPool_def by blast
  moreover from this have "pool = []" using queuesOf_empty empty(2) by blast
  ultimately show ?case unfolding refinesPool_def by (auto intro: poolRun.nothing)
next
  case (take s pr item want wq)
  then obtain pool where pool: "poolRun (sy_trace s) pool" "queuesOf pool (sy_queue s)" unfolding refinesPool_def by blast
  from takeItem_refines [OF pool(2) take(2)] show ?case
  proof (elim disjE exE conjE)
    assume "item = None" "pool = []" "wq = sy_queue s"
    then show ?thesis unfolding refinesPool_def using pool poolRun.nothing by fastforce
  next
    fix w pool' assume "item = Some w" "picks pool w pool'" "queuesOf pool' wq"
    then show ?thesis unfolding refinesPool_def using poolRun.got [OF pool(1)] by fastforce
  qed
qed (auto simp: refinesPool_def sendNeed_def)

lemma initQueues_refines: "refinesPool (initQueues procs)"
  unfolding refinesPool_def
  by (rule exI [of _ "[]"]) (auto simp: initQueues_def newWorkQueue_def queuesOf_def ofRank_def intro: poolRun.start)

interpretation wqs: system_invariant "initQueues procs" wstep refinesPool for procs
  by unfold_locales (use initQueues_refines wstep_refines in blast)+

text \<open>
  C27. However the processes interleave, the work queue behaves like one list of items in the order of arrival:
  every item taken is the latest of the best rank (triage of candidates, candidates, triage, smashing), nothing is
  returned only when the list is empty, and the items that were put in are those taken and those still there, none
  lost and none twice.
\<close>

theorem work_queue_refines:
  assumes "wstep\<^sup>*\<^sup>* (initQueues procs) s"
  shows "\<exists>pool. poolRun (sy_trace s) pool \<and> puts (sy_trace s) = gots (sy_trace s) + mset pool \<and>
    (queueEmpty (sy_queue s) \<longrightarrow> pool = []) \<and> queuesOf pool (sy_queue s)"
proof -
  obtain pool where "poolRun (sy_trace s) pool" "queuesOf pool (sy_queue s)"
    using wqs.reachable_inv [OF assms] unfolding refinesPool_def by blast
  then show ?thesis using poolRun_conserves queuesOf_empty by blast
qed

definition exSmash :: "nat work" where "exSmash = Smash \<lparr>ws_p = 1, ws_call = 0\<rparr>"
definition exCand :: "nat work" where "exCand = Candidate \<lparr>wc_p = 2, wc_flags = 1\<rparr>"

theorem work_queue_refines_witness:
  "\<exists>s. wstep\<^sup>*\<^sup>* (initQueues 1) s \<and> sy_trace s = [Put exSmash, Put exCand] \<and>
     (\<exists>pool. poolRun [Put exSmash, Put exCand] pool \<and> queuesOf pool (sy_queue s))"
proof -
  let ?s0 = "initQueues 1 :: nat wqSystem"
  obtain q1 where q1: "enqueue exSmash (sy_queue ?s0) = Some q1" by (simp add: enqueue_def exSmash_def)
  obtain q2 where q2: "enqueue exCand q1 = Some q2" by (simp add: enqueue_def exCand_def)
  let ?s1 = "?s0\<lparr>sy_queue := q1, sy_trace := sy_trace ?s0 @ [Put exSmash]\<rparr>"
  let ?s2 = "?s1\<lparr>sy_queue := q2, sy_trace := sy_trace ?s1 @ [Put exCand]\<rparr>"
  have "wstep ?s0 ?s1" by (rule wstep.enq [of _ 0]) (use q1 in \<open>simp_all add: initQueues_def\<close>)
  moreover have "wstep ?s1 ?s2" by (rule wstep.enq [of _ 0]) (use q2 in \<open>simp_all add: initQueues_def\<close>)
  ultimately have reach: "wstep\<^sup>*\<^sup>* ?s0 ?s2" by (meson rtranclp.rtrancl_into_rtrancl rtranclp.rtrancl_refl)
  moreover have trace: "sy_trace ?s2 = [Put exSmash, Put exCand]" by (simp add: initQueues_def)
  moreover have "\<exists>pool. poolRun (sy_trace ?s2) pool \<and> queuesOf pool (sy_queue ?s2)"
    using work_queue_refines [OF reach] by blast
  ultimately show ?thesis by metis
qed

end
