(* ===== verification/Fallback.thy ===== *)
theory Fallback
  imports Foreach
begin

text \<open>
  The feedback of a kernel without coverage, and the features a program needs: the rest of
  \<^verbatim>\<open>prog/analysis.go\<close> apart from the state of the generator. A fallback signal packs a type, the number
  of a call and eight bits of detail into 32 bits. Go's \<^verbatim>\<open>int\<close> has 64 bits.
\<close>

unbundle bit_operations_syntax

type_synonym goint = "64 word"
type_synonym fbSignal = "32 word"

definition CallExecuted :: goint where "CallExecuted = 1"
definition CallFinished :: goint where "CallFinished = 2"
definition CallBlocked :: goint where "CallBlocked = 4"

text \<open>\<^verbatim>\<open>CallInfo\<close> of package \<^verbatim>\<open>prog\<close>.\<close>

record ProgCallInfo =
  pci_Flags :: goint
  pci_Errno :: goint
  pci_Signal :: "fbSignal list"

definition fallbackSignalErrno :: goint where "fallbackSignalErrno = 0"
definition fallbackSignalErrnoBlocked :: goint where "fallbackSignalErrnoBlocked = 1"
definition fallbackSignalCtor :: goint where "fallbackSignalCtor = 2"
definition fallbackSignalFlags :: goint where "fallbackSignalFlags = 3"
definition fallbackCallMask :: goint where "fallbackCallMask = 0x1fffff"

definition checkMaxCallID :: "goint \<Rightarrow> unit option" where
  "checkMaxCallID i = (if i AND NOT fallbackCallMask \<noteq> 0 then None else Some ())"

definition encodeFallbackSignal :: "goint \<Rightarrow> goint \<Rightarrow> goint \<Rightarrow> fbSignal option" where
  "encodeFallbackSignal kind i aux = do {
     checkMaxCallID i;
     if kind AND NOT 7 \<noteq> 0 then None
     else Some (ucast kind OR push_bit 3 (ucast (i AND fallbackCallMask)) OR push_bit 24 (ucast aux))
   }"

definition decodeFallbackSignal :: "fbSignal \<Rightarrow> goint \<times> goint \<times> goint" where
  "decodeFallbackSignal s = (ucast (s AND 7), ucast (drop_bit 3 s AND ucast fallbackCallMask), ucast (drop_bit 24 s))"

definition Decode_FallbackSignal :: "fbSignal \<Rightarrow> (goint \<times> goint) option" where
  "Decode_FallbackSignal s =
     (let (kind, i, aux) = decodeFallbackSignal s in
      if kind = fallbackSignalErrno \<or> kind = fallbackSignalErrnoBlocked then Some (i, aux)
      else if kind = fallbackSignalCtor \<or> kind = fallbackSignalFlags then Some (i, 0)
      else None)"

definition addSignal :: "goint \<Rightarrow> goint \<Rightarrow> goint \<Rightarrow> ProgCallInfo \<Rightarrow> ProgCallInfo option" where
  "addSignal kind i aux ci = do {
     s \<leftarrow> encodeFallbackSignal kind i aux;
     Some (ci\<lparr>pci_Signal := pci_Signal ci @ [s]\<rparr>)
   }"

text \<open>A set of flags is folded into three bits; otherwise the position of the value gives them.\<close>

fun foldFlags :: "uint64 \<Rightarrow> nat \<Rightarrow> uint64 list \<Rightarrow> goint \<Rightarrow> goint" where
  "foldFlags val i [] flags = flags"
| "foldFlags val i (v # vals) flags =
     foldFlags val (Suc i) vals (if val AND v \<noteq> 0 then flags XOR push_bit (i mod 3) 1 else flags)"

fun findFlag :: "uint64 \<Rightarrow> nat \<Rightarrow> uint64 list \<Rightarrow> goint \<Rightarrow> goint" where
  "findFlag val i [] flags = flags"
| "findFlag val i (v # vals) flags = (if val = v then flags OR of_nat (i mod 8) else findFlag val (Suc i) vals flags)"

definition extractArgSignal ::
  "Type list \<Rightarrow> heap \<Rightarrow> Arg \<Rightarrow> goint \<Rightarrow> (nat \<rightharpoonup> Call) \<Rightarrow> goint \<times> ProgCallInfo \<Rightarrow> (goint \<times> ProgCallInfo) option" where
  "extractArgSignal tt h arg callID resources st =
     (let (flags, ci) = st in
      case arg of
        ResultArg p \<Rightarrow> do {
          a \<leftarrow> h p;
          let flags = push_bit 1 flags;
          case ro_Res a of
            Some res \<Rightarrow>
              (case resources res of
                 None \<Rightarrow> Some (flags, ci)
               | Some ctor \<Rightarrow> do {
                   ci \<leftarrow> addSignal fallbackSignalCtor callID (of_nat (sys_ID (call_Meta ctor))) ci;
                   Some (flags, ci)
                 })
          | None \<Rightarrow> do {
              t \<leftarrow> typeAt tt (ro_ref a);
              (case t of
                 ResourceType _ _ d \<Rightarrow>
                   (case SpecialValues d of
                      [] \<Rightarrow> None
                    | v # _ \<Rightarrow> Some (if ro_Val a \<noteq> v then flags OR 1 else flags, ci))
               | _ \<Rightarrow> None)
            }
        }
      | ConstArg c val \<Rightarrow> do {
          t \<leftarrow> typeAt tt (arg_ref c);
          let flags = push_bit 3 flags;
          Some (case t of
                  FlagsType _ vals bitMask \<Rightarrow> if bitMask then foldFlags val 0 vals flags else findFlag val 0 vals flags
                | LenType _ _ _ _ \<Rightarrow> (let flags = push_bit 1 flags in if val = 0 then flags OR 1 else flags)
                | _ \<Rightarrow> flags, ci)
        }
      | PointerArg c addr vma res \<Rightarrow>
          (let flags = push_bit 1 flags in Some (if argIsSpecial arg then flags OR 1 else flags, ci))
      | _ \<Rightarrow> Some (flags, ci))"

fun extractArgs ::
  "Type list \<Rightarrow> heap \<Rightarrow> Arg list \<Rightarrow> goint \<Rightarrow> (nat \<rightharpoonup> Call) \<Rightarrow> goint \<times> ProgCallInfo \<Rightarrow> (goint \<times> ProgCallInfo) option" where
  "extractArgs tt h [] callID resources st = Some st"
| "extractArgs tt h (a # as) callID resources st =
     Option.bind (extractArgSignal tt h a callID resources st) (extractArgs tt h as callID resources)"

definition noteResult :: "Call \<Rightarrow> Arg \<Rightarrow> ArgCtx \<Rightarrow> (nat \<rightharpoonup> Call) \<Rightarrow> (nat \<rightharpoonup> Call) option" where
  "noteResult c arg ctx resources = Some (case arg of ResultArg p \<Rightarrow> resources(p \<mapsto> c) | _ \<Rightarrow> resources)"

text \<open>The body of the loop for a call that was executed: its signal, and its result arguments when it succeeded.\<close>

definition callFallback ::
  "Type list \<Rightarrow> heap \<Rightarrow> Call \<Rightarrow> (nat \<rightharpoonup> Call) \<Rightarrow> ProgCallInfo \<Rightarrow> ((nat \<rightharpoonup> Call) \<times> ProgCallInfo) option" where
  "callFallback tt h c resources ci = do {
     let i = of_nat (sys_ID (call_Meta c));
     let kind = (if pci_Flags ci AND CallFinished \<noteq> 0 \<and> pci_Flags ci AND CallBlocked \<noteq> 0
                then fallbackSignalErrnoBlocked else fallbackSignalErrno);
     ci \<leftarrow> addSignal kind i (pci_Errno ci) ci;
     if sa_BreaksReturns (sys_Attrs (call_Meta c)) \<or> pci_Errno ci \<noteq> 0 then Some (resources, ci)
     else do {
       resources \<leftarrow> ForeachArg tt (\<lambda>_. argSize tt h) (always (noteResult c)) c resources;
       (flags, ci) \<leftarrow> extractArgs tt h (call_Args c) i resources (0, ci);
       ci \<leftarrow> (if flags \<noteq> 0 then addSignal fallbackSignalFlags i flags ci else Some ci);
       Some (resources, ci)
     }
   }"

text \<open>The loop over the calls and their infos; a call that breaks the returns ends it.\<close>

fun fallbackLoop ::
  "Type list \<Rightarrow> heap \<Rightarrow> Call list \<Rightarrow> (nat \<rightharpoonup> Call) \<Rightarrow> ProgCallInfo list \<Rightarrow> ProgCallInfo list option" where
  "fallbackLoop tt h [] resources infos = Some infos"
| "fallbackLoop tt h (c # cs) resources [] = None"
| "fallbackLoop tt h (c # cs) resources (ci # infos) =
     (if pci_Flags ci AND CallExecuted = 0 then map_option (Cons ci) (fallbackLoop tt h cs resources infos)
      else do {
        (resources, ci) \<leftarrow> callFallback tt h c resources ci;
        if sa_BreaksReturns (sys_Attrs (call_Meta c)) then Some (ci # infos)
        else map_option (Cons ci) (fallbackLoop tt h cs resources infos)
      })"

definition FallbackSignal :: "Type list \<Rightarrow> heap \<Rightarrow> Call list \<Rightarrow> ProgCallInfo list \<Rightarrow> ProgCallInfo list option" where
  "FallbackSignal tt h calls infos = fallbackLoop tt h calls Map.empty infos"

subsection \<open>Required features\<close>

record RequiredFeatures =
  rf_Bitmasks :: bool
  rf_Csums :: bool
  rf_FaultInjection :: bool
  rf_Async :: bool

definition featureVisit :: "Type list \<Rightarrow> heap \<Rightarrow> Arg \<Rightarrow> ArgCtx \<Rightarrow> RequiredFeatures \<Rightarrow> RequiredFeatures option" where
  "featureVisit tt h arg ctx features = do {
     t \<leftarrow> argType tt h arg;
     features \<leftarrow>
       (case arg of
          ConstArg _ _ \<Rightarrow> Some (if BitfieldOffset t \<noteq> 0 \<or> BitfieldLength t \<noteq> 0
                              then features\<lparr>rf_Bitmasks := True\<rparr> else features)
        | _ \<Rightarrow> Some features);
     Some (case t of CsumType _ _ _ _ \<Rightarrow> features\<lparr>rf_Csums := True\<rparr> | _ \<Rightarrow> features)
   }"

fun callFeatures :: "Type list \<Rightarrow> heap \<Rightarrow> Call list \<Rightarrow> RequiredFeatures \<Rightarrow> RequiredFeatures option" where
  "callFeatures tt h [] features = Some features"
| "callFeatures tt h (c # cs) features = do {
     features \<leftarrow> ForeachArg tt (\<lambda>_. argSize tt h) (always (featureVisit tt h)) c features;
     let features = (if cp_FailNth (call_Props c) > 0 then features\<lparr>rf_FaultInjection := True\<rparr> else features);
     let features = (if cp_Async (call_Props c) then features\<lparr>rf_Async := True\<rparr> else features);
     callFeatures tt h cs features
   }"

definition Prog_RequiredFeatures :: "Type list \<Rightarrow> heap \<Rightarrow> Call list \<Rightarrow> RequiredFeatures option" where
  "Prog_RequiredFeatures tt h calls =
     callFeatures tt h calls \<lparr>rf_Bitmasks = False, rf_Csums = False, rf_FaultInjection = False, rf_Async = False\<rparr>"

subsection \<open>Decoding a signal\<close>

lemma and_not_mask: "(x AND NOT (mask n) = (0 :: 'a :: len word)) = (take_bit n x = x)"
proof -
  have "x AND NOT (mask n) = 0 \<longleftrightarrow> (\<forall>k. bit x k \<longrightarrow> k < n)"
    by (auto simp: bit_eq_iff bit_simps dest: bit_imp_le_length)
  also have "\<dots> \<longleftrightarrow> take_bit n x = x"
    by (metis bit_take_bit_iff bit_word_eqI)
  finally show ?thesis .
qed

lemma mask_numerals: "(7 :: 'a :: len word) = mask 3" "(0x1fffff :: 'a :: len word) = mask 21" "(255 :: 'a :: len word) = mask 8"
  by (simp_all add: mask_eq_exp_minus_1)

lemma ucast_mask: "n \<le> LENGTH('b) \<Longrightarrow> (ucast (mask n :: 'a :: len word) :: 'b :: len word) = mask (min n LENGTH('a))"
  by (rule bit_word_eqI) (auto simp: bit_simps)

lemma decode_encode:
  assumes "encodeFallbackSignal kind i aux = Some s"
  shows "decodeFallbackSignal s = (kind, i, aux AND 255)"
proof -
  have ty: "take_bit 3 kind = kind" and i: "take_bit 21 i = i"
    and s: "s = ucast kind OR push_bit 3 (ucast (i AND mask 21)) OR push_bit 24 (ucast aux)"
    using assms unfolding encodeFallbackSignal_def checkMaxCallID_def fallbackCallMask_def mask_numerals
    by (auto simp: and_not_mask split: if_splits)
  have tb: "k < 3" if "bit kind k" for k using ty that by (metis bit_take_bit_iff)
  have ib: "k < 21" if "bit i k" for k using i that by (metis bit_take_bit_iff)
  have "ucast (s AND 7) = kind"
    unfolding s mask_numerals by (rule bit_word_eqI) (auto simp: bit_simps dest: tb)
  moreover have "ucast (drop_bit 3 s AND ucast fallbackCallMask) = i"
    unfolding s fallbackCallMask_def mask_numerals
    by (rule bit_word_eqI) (auto simp: bit_simps dest: tb ib)
  moreover have "ucast (drop_bit 24 s) = aux AND 255"
    unfolding s mask_numerals by (rule bit_word_eqI) (auto simp: bit_simps dest: tb ib)
  ultimately show ?thesis by (simp add: decodeFallbackSignal_def)
qed

lemma encode_defined:
  assumes "kind < 8" and "n < 2 ^ 21"
  shows "\<exists>s. encodeFallbackSignal kind (of_nat n) aux = Some s"
proof -
  have "take_bit 3 kind = kind" using assms(1) by (simp add: word_unat_eq_iff unsigned_take_bit_eq take_bit_nat_eq_self_iff word_less_nat_alt)
  moreover have "take_bit 21 (of_nat n :: goint) = of_nat n" using assms(2) by (simp add: take_bit_of_nat take_bit_nat_eq_self)
  ultimately show ?thesis
    unfolding encodeFallbackSignal_def checkMaxCallID_def fallbackCallMask_def mask_numerals
    by (simp add: and_not_mask)
qed

lemma addSignal_run:
  assumes "kind < 8" and "sys_ID meta < 2 ^ 21"
  shows "\<exists>s. addSignal kind (of_nat (sys_ID meta)) aux ci = Some (ci\<lparr>pci_Signal := pci_Signal ci @ [s]\<rparr>)
    \<and> decodeFallbackSignal s = (kind, of_nat (sys_ID meta), aux AND 255)"
  using encode_defined [OF assms, of aux] decode_encode by (auto simp: addSignal_def)

text \<open>The elements a call may add after the first: they name the call and no error.\<close>

definition plainSignal :: "nat \<Rightarrow> fbSignal \<Rightarrow> bool" where
  "plainSignal n s \<longleftrightarrow> Decode_FallbackSignal s = Some (of_nat n, 0)"

definition addsPlain :: "nat \<Rightarrow> ProgCallInfo \<Rightarrow> ProgCallInfo \<Rightarrow> bool" where
  "addsPlain n ci ci' \<longleftrightarrow> (\<exists>new. ci' = ci\<lparr>pci_Signal := pci_Signal ci @ new\<rparr> \<and> (\<forall>s \<in> set new. plainSignal n s))"

lemma addsPlain_refl [simp]: "addsPlain n ci ci"
  unfolding addsPlain_def by (rule exI [of _ "[]"]) simp

lemma addsPlain_trans:
  assumes "addsPlain n ci ci1" and "addsPlain n ci1 ci2"
  shows "addsPlain n ci ci2"
proof -
  obtain new1 where 1: "ci1 = ci\<lparr>pci_Signal := pci_Signal ci @ new1\<rparr>" "\<forall>s \<in> set new1. plainSignal n s"
    using assms(1) unfolding addsPlain_def by blast
  obtain new2 where 2: "ci2 = ci1\<lparr>pci_Signal := pci_Signal ci1 @ new2\<rparr>" "\<forall>s \<in> set new2. plainSignal n s"
    using assms(2) unfolding addsPlain_def by blast
  show ?thesis unfolding addsPlain_def using 1 2 by (intro exI [of _ "new1 @ new2"]) auto
qed

lemma addSignal_plain:
  assumes "kind = fallbackSignalCtor \<or> kind = fallbackSignalFlags" and "sys_ID meta < 2 ^ 21"
  shows "\<exists>ci'. addSignal kind (of_nat (sys_ID meta)) aux ci = Some ci' \<and> addsPlain (sys_ID meta) ci ci'"
proof -
  have "kind < 8" using assms(1) by (auto simp: fallbackSignalCtor_def fallbackSignalFlags_def)
  then obtain s where s: "addSignal kind (of_nat (sys_ID meta)) aux ci = Some (ci\<lparr>pci_Signal := pci_Signal ci @ [s]\<rparr>)"
    "decodeFallbackSignal s = (kind, of_nat (sys_ID meta), aux AND 255)" using addSignal_run assms(2) by blast
  have "plainSignal (sys_ID meta) s" using s(2) assms(1)
    by (auto simp: plainSignal_def Decode_FallbackSignal_def fallbackSignalErrno_def fallbackSignalErrnoBlocked_def
        fallbackSignalCtor_def fallbackSignalFlags_def)
  then have "addsPlain (sys_ID meta) ci (ci\<lparr>pci_Signal := pci_Signal ci @ [s]\<rparr>)"
    unfolding addsPlain_def by (intro exI [of _ "[s]"]) simp
  then show ?thesis using s(1) by blast
qed

text \<open>What the top-level arguments must satisfy: they have types, and a result argument that refers to nothing has a special value.\<close>

definition topArgOk :: "Type list \<Rightarrow> heap \<Rightarrow> Arg \<Rightarrow> bool" where
  "topArgOk tt h arg =
     (case arg of
        ResultArg p \<Rightarrow>
          (case h p of
             None \<Rightarrow> False
           | Some a \<Rightarrow> ro_Res a \<noteq> None \<or>
               (case typeAt tt (ro_ref a) of Some (ResourceType _ _ d) \<Rightarrow> SpecialValues d \<noteq> [] | _ \<Rightarrow> False))
      | ConstArg c _ \<Rightarrow> typeAt tt (arg_ref c) \<noteq> None
      | _ \<Rightarrow> True)"

definition fallbackOk :: "Type list \<Rightarrow> heap \<Rightarrow> Call \<Rightarrow> bool" where
  "fallbackOk tt h c \<longleftrightarrow> sys_ID (call_Meta c) < 2 ^ 21 \<and> callVisits tt (argSize tt h) c \<noteq> None \<and>
     (\<forall>a \<in> set (call_Args c). topArgOk tt h a)"

lemma extractArgSignal_plain:
  assumes "topArgOk tt h arg" and "sys_ID meta < 2 ^ 21"
  shows "\<exists>flags' ci'. extractArgSignal tt h arg (of_nat (sys_ID meta)) resources (flags, ci) = Some (flags', ci')
    \<and> addsPlain (sys_ID meta) ci ci'"
proof (cases arg)
  case (ResultArg p)
  then obtain a where a: "h p = Some a" using assms(1) by (auto simp: topArgOk_def split: option.splits)
  show ?thesis
  proof (cases "ro_Res a")
    case None
    then show ?thesis using assms(1) a ResultArg
      by (auto simp: topArgOk_def extractArgSignal_def Let_def split: option.splits Type.splits list.splits)
  next
    case (Some res)
    show ?thesis
    proof (cases "resources res")
      case None
      then show ?thesis using a ResultArg Some by (simp add: extractArgSignal_def)
    next
      case ctor: (Some ctor)
      obtain ci' where "addSignal fallbackSignalCtor (of_nat (sys_ID meta)) (of_nat (sys_ID (call_Meta ctor))) ci = Some ci'"
        "addsPlain (sys_ID meta) ci ci'" using addSignal_plain [OF _ assms(2)] by blast
      then show ?thesis using a ResultArg Some ctor by (simp add: extractArgSignal_def)
    qed
  qed
next
  case (ConstArg c val)
  then show ?thesis using assms(1) by (auto simp: topArgOk_def extractArgSignal_def Let_def)
qed (auto simp: extractArgSignal_def Let_def)

lemma extractArgs_plain:
  "\<forall>a \<in> set as. topArgOk tt h a \<Longrightarrow> sys_ID meta < 2 ^ 21 \<Longrightarrow>
   \<exists>flags' ci'. extractArgs tt h as (of_nat (sys_ID meta)) resources (flags, ci) = Some (flags', ci') \<and> addsPlain (sys_ID meta) ci ci'"
proof (induction as arbitrary: flags ci)
  case (Cons a as)
  obtain flags1 ci1 where 1: "extractArgSignal tt h a (of_nat (sys_ID meta)) resources (flags, ci) = Some (flags1, ci1)"
    "addsPlain (sys_ID meta) ci ci1" using extractArgSignal_plain [of tt h a meta resources flags ci] Cons.prems by auto
  obtain flags2 ci2 where 2: "extractArgs tt h as (of_nat (sys_ID meta)) resources (flags1, ci1) = Some (flags2, ci2)"
    "addsPlain (sys_ID meta) ci1 ci2" using Cons.IH [of flags1 ci1] Cons.prems by auto
  show ?case using 1 2 addsPlain_trans [OF 1(2) 2(2)] by simp
qed simp

lemma noteResult_run: "\<exists>resources'. runVisits (noteResult c) vs resources = Some resources'"
  by (induction vs arbitrary: resources) (auto simp: noteResult_def)

text \<open>What one call reports: first its error, then, if it succeeded, plain signals.\<close>

definition reports :: "Call \<Rightarrow> ProgCallInfo \<Rightarrow> ProgCallInfo \<Rightarrow> bool" where
  "reports c ci ci' \<longleftrightarrow>
     (\<exists>s rest. ci' = ci\<lparr>pci_Signal := pci_Signal ci @ s # rest\<rparr>
        \<and> Decode_FallbackSignal s = Some (of_nat (sys_ID (call_Meta c)), pci_Errno ci AND 255)
        \<and> (\<forall>s' \<in> set rest. plainSignal (sys_ID (call_Meta c)) s')
        \<and> (pci_Errno ci \<noteq> 0 \<or> sa_BreaksReturns (sys_Attrs (call_Meta c)) \<longrightarrow> rest = []))"

lemma callFallback_reports:
  assumes ok: "fallbackOk tt h c"
  shows "\<exists>resources' ci'. callFallback tt h c resources ci = Some (resources', ci') \<and> reports c ci ci'"
proof -
  let ?meta = "call_Meta c" and ?i = "of_nat (sys_ID (call_Meta c)) :: goint"
  let ?quiet = "sa_BreaksReturns (sys_Attrs ?meta) \<or> pci_Errno ci \<noteq> 0"
  let ?kind = "if pci_Flags ci AND CallFinished \<noteq> 0 \<and> pci_Flags ci AND CallBlocked \<noteq> 0
    then fallbackSignalErrnoBlocked else fallbackSignalErrno"
  have small: "sys_ID ?meta < 2 ^ 21" using ok by (simp add: fallbackOk_def)
  have "?kind < 8" by (simp add: fallbackSignalErrno_def fallbackSignalErrnoBlocked_def)
  then obtain s where s: "addSignal ?kind ?i (pci_Errno ci) ci = Some (ci\<lparr>pci_Signal := pci_Signal ci @ [s]\<rparr>)"
    "decodeFallbackSignal s = (?kind, ?i, pci_Errno ci AND 255)" using addSignal_run [OF _ small] by blast
  have errno: "Decode_FallbackSignal s = Some (?i, pci_Errno ci AND 255)"
    using s(2) by (simp add: Decode_FallbackSignal_def fallbackSignalErrno_def fallbackSignalErrnoBlocked_def)
  let ?ci = "ci\<lparr>pci_Signal := pci_Signal ci @ [s]\<rparr>"
  show ?thesis
  proof (cases ?quiet)
    case True
    then have "callFallback tt h c resources ci = Some (resources, ?ci)" using s(1) by (simp add: callFallback_def)
    then show ?thesis using errno True unfolding reports_def by fastforce
  next
    case False
    obtain vs where "callVisits tt (argSize tt h) c = Some vs" using ok by (auto simp: fallbackOk_def)
    then obtain res' where res': "ForeachArg tt (\<lambda>_. argSize tt h) (always (noteResult c)) c resources = Some res'"
      using noteResult_run [of c vs resources] by (auto simp: ForeachArg_visits)
    obtain flags1 ci1 where 1: "extractArgs tt h (call_Args c) ?i res' (0, ?ci) = Some (flags1, ci1)" "addsPlain (sys_ID ?meta) ?ci ci1"
      using extractArgs_plain [OF _ small, of "call_Args c" tt h res' 0 ?ci] ok by (auto simp: fallbackOk_def)
    obtain ci2 where 2: "(if flags1 \<noteq> 0 then addSignal fallbackSignalFlags ?i flags1 ci1 else Some ci1) = Some ci2"
      "addsPlain (sys_ID ?meta) ci1 ci2" using addSignal_plain [OF _ small, of fallbackSignalFlags flags1 ci1] by (cases "flags1 = 0") auto
    obtain rest where "ci2 = ?ci\<lparr>pci_Signal := pci_Signal ?ci @ rest\<rparr>" "\<forall>s \<in> set rest. plainSignal (sys_ID ?meta) s"
      using addsPlain_trans [OF 1(2) 2(2)] unfolding addsPlain_def by blast
    then have "reports c ci ci2" using errno False unfolding reports_def by (intro exI [of _ s] exI [of _ rest]) simp
    moreover have "callFallback tt h c resources ci = Some (res', ci2)"
      using False s(1) res' 1(1) 2(1) by (simp add: callFallback_def)
    ultimately show ?thesis by blast
  qed
qed

text \<open>Call \<open>i\<close> is reported if it ran and no earlier call that ran breaks the returns.\<close>

definition reported :: "Call list \<Rightarrow> ProgCallInfo list \<Rightarrow> nat \<Rightarrow> bool" where
  "reported calls infos i \<longleftrightarrow> pci_Flags (infos ! i) AND CallExecuted \<noteq> 0 \<and>
     (\<forall>j < i. pci_Flags (infos ! j) AND CallExecuted \<noteq> 0 \<longrightarrow> \<not> sa_BreaksReturns (sys_Attrs (call_Meta (calls ! j))))"

definition reportsAll :: "Call list \<Rightarrow> ProgCallInfo list \<Rightarrow> ProgCallInfo list \<Rightarrow> bool" where
  "reportsAll calls infos infos' \<longleftrightarrow> length infos' = length infos \<and>
     (\<forall>i < length infos. if i < length calls \<and> reported calls infos i then reports (calls ! i) (infos ! i) (infos' ! i)
        else infos' ! i = infos ! i)"

lemma reported_Cons:
  "reported (c # cs) (ci # infos) 0 \<longleftrightarrow> pci_Flags ci AND CallExecuted \<noteq> 0"
  "reported (c # cs) (ci # infos) (Suc i) \<longleftrightarrow>
     (pci_Flags ci AND CallExecuted \<noteq> 0 \<longrightarrow> \<not> sa_BreaksReturns (sys_Attrs (call_Meta c))) \<and> reported cs infos i"
  by (auto simp: reported_def less_Suc_eq_0_disj)

lemma reportsAll_Cons:
  assumes "if pci_Flags ci AND CallExecuted \<noteq> 0 then reports c ci ci' else ci' = ci"
    and "if pci_Flags ci AND CallExecuted \<noteq> 0 \<and> sa_BreaksReturns (sys_Attrs (call_Meta c)) then infos' = infos
      else reportsAll cs infos infos'"
  shows "reportsAll (c # cs) (ci # infos) (ci' # infos')"
  unfolding reportsAll_def
proof (intro conjI allI impI)
  show "length (ci' # infos') = length (ci # infos)" using assms(2) by (auto simp: reportsAll_def split: if_splits)
  fix i assume "i < length (ci # infos)"
  then show "if i < length (c # cs) \<and> reported (c # cs) (ci # infos) i then reports ((c # cs) ! i) ((ci # infos) ! i) ((ci' # infos') ! i)
      else (ci' # infos') ! i = (ci # infos) ! i"
    using assms by (cases i) (auto simp: reported_Cons reportsAll_def split: if_splits)
qed

lemma fallbackLoop_reports:
  "\<forall>c \<in> set calls. fallbackOk tt h c \<Longrightarrow> length calls \<le> length infos \<Longrightarrow>
   \<exists>infos'. fallbackLoop tt h calls resources infos = Some infos' \<and> reportsAll calls infos infos'"
proof (induction tt h calls resources infos rule: fallbackLoop.induct)
  case (1 tt h resources infos)
  then show ?case by (simp add: reportsAll_def)
next
  case (3 tt h c cs resources ci infos)
  have rest: "length cs \<le> length infos" "\<forall>c \<in> set cs. fallbackOk tt h c" using 3(3,4) by simp_all
  show ?case
  proof (cases "pci_Flags ci AND CallExecuted = 0")
    case True
    then obtain infos' where "fallbackLoop tt h cs resources infos = Some infos'" "reportsAll cs infos infos'"
      using 3(1) rest by blast
    then show ?thesis using True reportsAll_Cons [of ci c ci infos' infos cs] by simp
  next
    case False
    obtain resources1 ci1 where run: "callFallback tt h c resources ci = Some (resources1, ci1)" and rep: "reports c ci ci1"
      using callFallback_reports 3(3) by (metis list.set_intros(1))
    show ?thesis
    proof (cases "sa_BreaksReturns (sys_Attrs (call_Meta c))")
      case True
      then show ?thesis using False run rep reportsAll_Cons [of ci c ci1 infos infos cs] by simp
    next
      case go: False
      obtain infos' where "fallbackLoop tt h cs resources1 infos = Some infos'" "reportsAll cs infos infos'"
        using 3(2) [OF False run refl go] rest by blast
      then show ?thesis using False go run rep reportsAll_Cons [of ci c ci1 infos' infos cs] by simp
    qed
  qed
qed simp

text \<open>
  C23. On calls whose arguments have types, with an info for each, computing the fallback signal never panics.
  A call that ran, unless an earlier one breaks the returns, gets a signal that decodes to its number and its error
  modulo 256; all further signals decode to its number and no error, and a call that failed or breaks the
  returns has none. The other infos, and flags and errors of all, are unchanged.
\<close>

theorem FallbackSignal_decodes:
  assumes "\<forall>c \<in> set calls. fallbackOk tt h c" and "length calls \<le> length infos"
  shows "\<exists>infos'. FallbackSignal tt h calls infos = Some infos' \<and> length infos' = length infos \<and>
    (\<forall>i < length infos.
       if i < length calls \<and> reported calls infos i then
         \<exists>s rest. infos' ! i = (infos ! i)\<lparr>pci_Signal := pci_Signal (infos ! i) @ s # rest\<rparr>
           \<and> Decode_FallbackSignal s = Some (of_nat (sys_ID (call_Meta (calls ! i))), pci_Errno (infos ! i) AND 255)
           \<and> (\<forall>s' \<in> set rest. Decode_FallbackSignal s' = Some (of_nat (sys_ID (call_Meta (calls ! i))), 0))
           \<and> (pci_Errno (infos ! i) \<noteq> 0 \<or> sa_BreaksReturns (sys_Attrs (call_Meta (calls ! i))) \<longrightarrow> rest = [])
       else infos' ! i = infos ! i)"
  using fallbackLoop_reports [OF assms, of Map.empty]
  unfolding FallbackSignal_def reportsAll_def reports_def plainSignal_def by blast

definition exCall :: Call where
  "exCall = \<lparr>call_Meta = \<lparr>sys_ID = 5, sys_NR = 0, sys_Name = ''read'', sys_CallName = ''read'', sys_MissingArgs = 0,
      sys_Args = [], sys_Ret = None,
      sys_Attrs = \<lparr>sa_Disabled = False, sa_Timeout = 0, sa_ProgTimeout = 0, sa_IgnoreReturn = False,
        sa_BreaksReturns = False, sa_NoGenerate = False, sa_NoMinimize = False\<rparr>\<rparr>,
    call_Args = [PointerArg \<lparr>arg_id = 0, arg_ref = 1, arg_dir = DirIn\<rparr> 0 0 None], call_Ret = None,
    call_Props = \<lparr>cp_FailNth = 0, cp_Async = False, cp_Rerun = 0\<rparr>, call_Comment = []\<rparr>"

theorem FallbackSignal_decodes_witness:
  "\<exists>infos'. FallbackSignal [] Map.empty [exCall] [\<lparr>pci_Flags = 1, pci_Errno = 0, pci_Signal = []\<rparr>] = Some infos' \<and> length infos' = 1"
proof -
  have "\<forall>c \<in> set [exCall]. fallbackOk [] Map.empty c"
    by (simp add: fallbackOk_def exCall_def callVisits_def topArgOk_def)
  from FallbackSignal_decodes [OF this, of "[\<lparr>pci_Flags = 1, pci_Errno = 0, pci_Signal = []\<rparr>]"]
  show ?thesis by auto
qed

end
