(* ===== verification/Resources.thy ===== *)
theory Resources
  imports ProgArgs
begin

text \<open>
  Resources and the calls that can be used, \<^verbatim>\<open>prog/resources.go\<close>. The fields \<^verbatim>\<open>inputResources\<close> and
  \<^verbatim>\<open>outputResources\<close> of a call, which the program fills at start-up, are the functions \<open>inRes\<close> and
  \<open>outRes\<close>. Go walks over the set of enabled calls in an order of its own in every pass: \<open>orders k\<close> is
  the order of pass \<open>k\<close>, and the theorem holds for all of them.
\<close>

definition timespecName :: string where "timespecName = ''timespec''"

definition clockGettime :: string where "clockGettime = ''clock_gettime''"

definition SyscallMap :: "Target \<Rightarrow> string \<Rightarrow> Syscall option" where
  "SyscallMap target name = find (\<lambda>c. sys_Name c = name) (rev (tgt_Syscalls target))"

fun ctorCalls :: "Target \<Rightarrow> bool \<Rightarrow> ResourceCtor list \<Rightarrow> Syscall list option" where
  "ctorCalls target precise [] = Some []"
| "ctorCalls target precise (ctor # ctors) = do {
     metas \<leftarrow>
       (if \<not> precise \<or> rc_Precise ctor then
          if rc_Call ctor < length (tgt_Syscalls target) then Some [tgt_Syscalls target ! rc_Call ctor] else None
        else Some []);
     rest \<leftarrow> ctorCalls target precise ctors;
     Some (metas @ rest)
   }"

definition calcResourceCtors :: "Target \<Rightarrow> ResourceDesc \<Rightarrow> bool \<Rightarrow> Syscall list option" where
  "calcResourceCtors target res precise = do {
     metas \<leftarrow> ctorCalls target precise (rd_Ctors res);
     kind \<leftarrow> (case rd_Kind res of [] \<Rightarrow> None | k # _ \<Rightarrow> Some k);
     Some (metas @
       (if kind = timespecName then (case SyscallMap target clockGettime of None \<Rightarrow> [] | Some c \<Rightarrow> [c]) else []))
   }"

text \<open>May a resource of kind \<open>src\<close> be passed for one of kind \<open>dst\<close>? The loop compares up to the shorter length.\<close>

fun sameKinds :: "string list \<Rightarrow> string list \<Rightarrow> bool" where
  "sameKinds [] src = True"
| "sameKinds (k # dst) (s # src) = (k = s \<and> sameKinds dst src)"
| "sameKinds (k # dst) [] = False"

definition isCompatibleResourceImpl :: "string list \<Rightarrow> string list \<Rightarrow> bool \<Rightarrow> bool" where
  "isCompatibleResourceImpl dst src precise =
     (if length dst > length src \<and> precise then False
      else
        let dst = (if length dst > length src then take (length src) dst else dst);
            src = (if length src > length dst then take (length dst) src else src)
        in sameKinds dst src)"

text \<open>
  The constructors of a resource: for each call, by position, a precise and an imprecise entry. The
  early end of the inner loop does not change what it finds.
\<close>

definition ctorsOf :: "ResourceDesc list list \<Rightarrow> ResourceDesc \<Rightarrow> ResourceCtor list" where
  "ctorsOf callsResources res =
     concat (map (\<lambda>(call, callResources).
       (if list_ex (\<lambda>r. isCompatibleResourceImpl (rd_Kind res) (rd_Kind r) True) callResources
        then [\<lparr>rc_Call = call, rc_Precise = True\<rparr>] else []) @
       (if list_ex (\<lambda>r. isCompatibleResourceImpl (rd_Kind res) (rd_Kind r) False) callResources
        then [\<lparr>rc_Call = call, rc_Precise = False\<rparr>] else [])) (enumerate 0 callsResources))"

definition populateCtors :: "ResourceDesc list list \<Rightarrow> ResourceDesc list \<Rightarrow> ResourceDesc list" where
  "populateCtors callsResources resources =
     map (\<lambda>res. res\<lparr>rd_Ctors := rd_Ctors res @ ctorsOf callsResources res\<rparr>) resources"

subsection \<open>Transitively enabled calls\<close>

type_synonym 'c enabledState = "'c list \<times> string list"

text \<open>One call of a pass: it is supported once all its inputs can be created.\<close>

definition tryCall ::
  "('c \<Rightarrow> ResourceDesc list) \<Rightarrow> ('c \<Rightarrow> ResourceDesc list) \<Rightarrow> 'c \<Rightarrow> 'c enabledState \<Rightarrow> 'c enabledState" where
  "tryCall inRes outRes c st =
     (let (supported, canCreate) = st in
      if c \<in> set supported then st
      else if list_ex (\<lambda>res. rd_Name res \<notin> set canCreate) (inRes c) then st
      else (supported @ [c], canCreate @ concat (map rd_Kind (outRes c))))"

partial_function (option) enabledLoop ::
  "('c \<Rightarrow> ResourceDesc list) \<Rightarrow> ('c \<Rightarrow> ResourceDesc list) \<Rightarrow> (nat \<Rightarrow> 'c list) \<Rightarrow> nat \<Rightarrow> 'c enabledState \<Rightarrow>
   'c enabledState option" where
  "enabledLoop inRes outRes orders k st =
     (let st' = fold (tryCall inRes outRes) (orders k) st in
      if length (fst st) = length (fst st') then Some st' else enabledLoop inRes outRes orders (Suc k) st')"

definition transitivelyEnabled ::
  "('c \<Rightarrow> ResourceDesc list) \<Rightarrow> ('c \<Rightarrow> ResourceDesc list) \<Rightarrow> (nat \<Rightarrow> 'c list) \<Rightarrow> 'c enabledState option" where
  "transitivelyEnabled inRes outRes orders = enabledLoop inRes outRes orders 0 ([], [])"

text \<open>\<^verbatim>\<open>%v\<close> of a list of strings.\<close>

fun fmt_strings :: "string list \<Rightarrow> string" where
  "fmt_strings [] = []"
| "fmt_strings [s] = s"
| "fmt_strings (s # ss) = s @ '' '' @ fmt_strings ss"

definition disabledReason :: "string \<Rightarrow> string list \<Rightarrow> string" where
  "disabledReason name ctors =
     ''no syscalls can create resource '' @ name @ '', enable some syscalls that can create it ['' @
     fmt_strings ctors @ '']''"

text \<open>The reason for a call that is not supported: the first input that nothing creates.\<close>

definition callReason ::
  "Target \<Rightarrow> string list \<Rightarrow> ResourceDesc list \<Rightarrow> string option option" where
  "callReason target canCreate inputs =
     (case find (\<lambda>res. rd_Name res \<notin> set canCreate) inputs of
        None \<Rightarrow> Some None
      | Some res \<Rightarrow> do {
          metas \<leftarrow> calcResourceCtors target res True;
          Some (Some (disabledReason (rd_Name res) (map sys_Name metas)))
        })"

fun disabledCalls ::
  "Target \<Rightarrow> ('c \<Rightarrow> ResourceDesc list) \<Rightarrow> 'c enabledState \<Rightarrow> 'c list \<Rightarrow> ('c \<times> string) list option" where
  "disabledCalls target inRes st [] = Some []"
| "disabledCalls target inRes st (c # cs) = do {
     reason \<leftarrow> (if c \<in> set (fst st) then Some None else callReason target (snd st) (inRes c));
     rest \<leftarrow> disabledCalls target inRes st cs;
     Some (case reason of None \<Rightarrow> rest | Some r \<Rightarrow> (c, r) # rest)
   }"

definition TransitivelyEnabledCalls ::
  "Target \<Rightarrow> ('c \<Rightarrow> ResourceDesc list) \<Rightarrow> ('c \<Rightarrow> ResourceDesc list) \<Rightarrow> (nat \<Rightarrow> 'c list) \<Rightarrow> 'c list \<Rightarrow>
   ('c list \<times> ('c \<times> string) list) option" where
  "TransitivelyEnabledCalls target inRes outRes orders enabled = do {
     st \<leftarrow> transitivelyEnabled inRes outRes orders;
     disabled \<leftarrow> disabledCalls target inRes st enabled;
     if length enabled \<noteq> length (fst st) + length disabled then None else Some (fst st, disabled)
   }"

subsection \<open>The least set of supported calls\<close>

text \<open>A call is supported if each of its inputs is of a kind that a supported call creates.\<close>

inductive_set supportedCalls ::
  "('c \<Rightarrow> ResourceDesc list) \<Rightarrow> ('c \<Rightarrow> ResourceDesc list) \<Rightarrow> 'c set \<Rightarrow> 'c set"
  for inRes :: "'c \<Rightarrow> ResourceDesc list" and outRes :: "'c \<Rightarrow> ResourceDesc list" and enabled :: "'c set" where
  supp: "c \<in> enabled \<Longrightarrow>
    (\<And>res. res \<in> set (inRes c) \<Longrightarrow>
       \<exists>c'. c' \<in> supportedCalls inRes outRes enabled \<and> (\<exists>out \<in> set (outRes c'). rd_Name res \<in> set (rd_Kind out))) \<Longrightarrow>
    c \<in> supportedCalls inRes outRes enabled"

definition createdKinds :: "('c \<Rightarrow> ResourceDesc list) \<Rightarrow> 'c set \<Rightarrow> string set" where
  "createdKinds outRes cs = {k. \<exists>c \<in> cs. \<exists>out \<in> set (outRes c). k \<in> set (rd_Kind out)}"

definition enabledOk ::
  "('c \<Rightarrow> ResourceDesc list) \<Rightarrow> ('c \<Rightarrow> ResourceDesc list) \<Rightarrow> 'c set \<Rightarrow> 'c enabledState \<Rightarrow> bool" where
  "enabledOk inRes outRes enabled st \<longleftrightarrow>
     distinct (fst st) \<and> set (fst st) \<subseteq> supportedCalls inRes outRes enabled \<and>
     set (snd st) = createdKinds outRes (set (fst st))"

lemma supported_enabled: "c \<in> supportedCalls inRes outRes enabled \<Longrightarrow> c \<in> enabled"
  by (erule supportedCalls.cases) blast

lemma tryCall_ok:
  assumes "enabledOk inRes outRes enabled st" and "c \<in> enabled"
  shows "enabledOk inRes outRes enabled (tryCall inRes outRes c st)"
proof -
  obtain sup can where st: "st = (sup, can)" by (cases st)
  show ?thesis
  proof (cases "c \<in> set sup \<or> list_ex (\<lambda>res. rd_Name res \<notin> set can) (inRes c)")
    case False
    have "c \<in> supportedCalls inRes outRes enabled"
    proof (rule supp [OF assms(2)])
      fix res assume "res \<in> set (inRes c)"
      with False have "rd_Name res \<in> set can" by (auto simp: list_ex_iff)
      then have "rd_Name res \<in> createdKinds outRes (set sup)" using assms(1) by (simp add: enabledOk_def st)
      moreover have "set sup \<subseteq> supportedCalls inRes outRes enabled" using assms(1) by (simp add: enabledOk_def st)
      ultimately show "\<exists>c'. c' \<in> supportedCalls inRes outRes enabled \<and>
          (\<exists>out \<in> set (outRes c'). rd_Name res \<in> set (rd_Kind out))"
        unfolding createdKinds_def by blast
    qed
    with False assms(1) show ?thesis
      by (auto simp: st tryCall_def enabledOk_def createdKinds_def)
  qed (use assms in \<open>auto simp: st tryCall_def\<close>)
qed

lemma pass_ok:
  "enabledOk inRes outRes enabled st \<Longrightarrow> set cs \<subseteq> enabled \<Longrightarrow>
   enabledOk inRes outRes enabled (fold (tryCall inRes outRes) cs st)"
  by (induction cs arbitrary: st) (simp_all add: tryCall_ok)

lemma tryCall_grows: "length (fst st) \<le> length (fst (tryCall inRes outRes c st))"
  by (auto simp: tryCall_def split: prod.splits)

lemma pass_grows: "length (fst st) \<le> length (fst (fold (tryCall inRes outRes) cs st))"
proof (induction cs arbitrary: st)
  case (Cons c cs)
  have "length (fst st) \<le> length (fst (tryCall inRes outRes c st))" by (rule tryCall_grows)
  also have "\<dots> \<le> length (fst (fold (tryCall inRes outRes) cs (tryCall inRes outRes c st)))" by (rule Cons.IH)
  finally show ?case by simp
qed simp

lemma tryCall_same: "length (fst (tryCall inRes outRes c st)) = length (fst st) \<Longrightarrow> tryCall inRes outRes c st = st"
  by (auto simp: tryCall_def split: prod.splits if_splits)

text \<open>A pass that supports no new call changed nothing, whatever its order.\<close>

lemma pass_same:
  "length (fst (fold (tryCall inRes outRes) cs st)) = length (fst st) \<Longrightarrow>
   fold (tryCall inRes outRes) cs st = st \<and> (\<forall>c \<in> set cs. tryCall inRes outRes c st = st)"
proof (induction cs arbitrary: st)
  case (Cons c cs)
  have "length (fst (tryCall inRes outRes c st)) = length (fst st)"
    using Cons.prems tryCall_grows [of st inRes outRes c] pass_grows [of "tryCall inRes outRes c st" inRes outRes cs]
    by simp
  then have "tryCall inRes outRes c st = st" by (rule tryCall_same)
  with Cons show ?case by simp
qed simp

lemma closed_supports:
  assumes "enabledOk inRes outRes enabled st" and "\<And>c. c \<in> enabled \<Longrightarrow> tryCall inRes outRes c st = st"
  shows "supportedCalls inRes outRes enabled \<subseteq> set (fst st)"
proof
  fix c assume "c \<in> supportedCalls inRes outRes enabled"
  then show "c \<in> set (fst st)"
  proof induction
    case (supp c)
    then have "\<forall>res \<in> set (inRes c). rd_Name res \<in> set (snd st)"
      using assms(1) unfolding enabledOk_def createdKinds_def by blast
    with assms(2) [OF supp(1)] show ?case
      by (auto simp: tryCall_def list_ex_iff split: prod.splits if_splits)
  qed
qed

lemma enabledLoop_returns:
  assumes "enabledOk inRes outRes enabled st" and "\<And>k. set (orders k) = enabled" and "finite enabled"
  shows "\<exists>st'. enabledLoop inRes outRes orders k st = Some st' \<and> enabledOk inRes outRes enabled st' \<and>
    set (fst st') = supportedCalls inRes outRes enabled"
  using assms(1)
proof (induction "card enabled - length (fst st)" arbitrary: k st rule: less_induct)
  case less
  let ?st = "fold (tryCall inRes outRes) (orders k) st"
  have ok: "enabledOk inRes outRes enabled ?st" using pass_ok [OF less.prems] assms(2) by simp
  show ?case
  proof (cases "length (fst st) = length (fst ?st)")
    case True
    then have same: "?st = st" "\<And>c. c \<in> enabled \<Longrightarrow> tryCall inRes outRes c st = st"
      using pass_same [of inRes outRes "orders k" st] assms(2) by auto
    have "set (fst st) = supportedCalls inRes outRes enabled"
      using closed_supports [OF less.prems same(2)] less.prems unfolding enabledOk_def by blast
    moreover have "enabledLoop inRes outRes orders k st = Some st"
      by (subst enabledLoop.simps) (simp add: same(1))
    ultimately show ?thesis using less.prems by simp
  next
    case False
    have sub: "set (fst ?st) \<subseteq> supportedCalls inRes outRes enabled" and "distinct (fst ?st)"
      using ok by (simp_all add: enabledOk_def)
    moreover have "supportedCalls inRes outRes enabled \<subseteq> enabled" using supported_enabled by (rule subsetI)
    ultimately have "length (fst ?st) \<le> card enabled"
      using card_mono [OF assms(3), of "set (fst ?st)"] by (simp add: distinct_card)
    moreover have "length (fst st) < length (fst ?st)"
      using False pass_grows [of st inRes outRes "orders k"] by simp
    ultimately have "card enabled - length (fst ?st) < card enabled - length (fst st)" by linarith
    moreover have "enabledLoop inRes outRes orders k st = enabledLoop inRes outRes orders (Suc k) ?st"
      using False by (subst enabledLoop.simps) (simp add: Let_def)
    ultimately show ?thesis using less.hyps [OF _ ok, of "Suc k"] by simp
  qed
qed

lemma transitivelyEnabled_least:
  assumes "\<And>k. set (orders k) = enabled" and "finite enabled"
  shows "\<exists>sup can. transitivelyEnabled inRes outRes orders = Some (sup, can) \<and> distinct sup \<and>
    set sup = supportedCalls inRes outRes enabled \<and> set can = createdKinds outRes (set sup)"
proof -
  have "enabledOk inRes outRes enabled ([], [])" by (simp add: enabledOk_def createdKinds_def)
  from enabledLoop_returns [where orders = orders and k = 0, OF this assms] show ?thesis
    by (auto simp: transitivelyEnabled_def enabledOk_def)
qed

text \<open>The reasons: every call that is not supported has an input that nothing creates.\<close>

definition resourceOk :: "Target \<Rightarrow> ResourceDesc \<Rightarrow> bool" where
  "resourceOk target res \<longleftrightarrow> rd_Kind res \<noteq> [] \<and> list_all (\<lambda>ctor. rc_Call ctor < length (tgt_Syscalls target)) (rd_Ctors res)"

lemma ctorCalls_runs:
  "list_all (\<lambda>ctor. rc_Call ctor < length (tgt_Syscalls target)) ctors \<Longrightarrow> \<exists>cs. ctorCalls target precise ctors = Some cs"
  by (induction ctors) auto

lemma calcResourceCtors_runs: "resourceOk target res \<Longrightarrow> \<exists>cs. calcResourceCtors target res precise = Some cs"
  using ctorCalls_runs [of target "rd_Ctors res" precise]
  by (auto simp: resourceOk_def calcResourceCtors_def split: list.splits)

lemma unsupported_input:
  assumes "c \<in> enabled" and "c \<notin> supportedCalls inRes outRes enabled"
    and "set can = createdKinds outRes (supportedCalls inRes outRes enabled)"
  shows "\<exists>res \<in> set (inRes c). rd_Name res \<notin> set can"
proof (rule ccontr)
  assume "\<not> ?thesis"
  then have "c \<in> supportedCalls inRes outRes enabled"
    using assms(1,3) unfolding createdKinds_def by (intro supp) blast+
  with assms(2) show False by blast
qed

lemma disabledCalls_unsupported:
  assumes "\<And>c. c \<in> set cs \<Longrightarrow> c \<notin> set (fst st) \<Longrightarrow> \<exists>res \<in> set (inRes c). rd_Name res \<notin> set (snd st)"
    and "\<And>c res. c \<in> set cs \<Longrightarrow> res \<in> set (inRes c) \<Longrightarrow> resourceOk target res"
  shows "\<exists>ds. disabledCalls target inRes st cs = Some ds \<and> map fst ds = filter (\<lambda>c. c \<notin> set (fst st)) cs"
  using assms
proof (induction cs)
  case (Cons c cs)
  then obtain ds where ds: "disabledCalls target inRes st cs = Some ds" "map fst ds = filter (\<lambda>c. c \<notin> set (fst st)) cs"
    by auto
  show ?case
  proof (cases "c \<in> set (fst st)")
    case False
    then obtain res where res: "find (\<lambda>res. rd_Name res \<notin> set (snd st)) (inRes c) = Some res" "res \<in> set (inRes c)"
      using Cons.prems(1) [of c] by (cases "find (\<lambda>res. rd_Name res \<notin> set (snd st)) (inRes c)")
        (auto simp: find_None_iff find_Some_iff)
    then obtain ms where "calcResourceCtors target res True = Some ms"
      using calcResourceCtors_runs [OF Cons.prems(2) [of c res], where precise = True] by auto
    with res(1) False ds show ?thesis by (simp add: callReason_def)
  qed (use ds in simp)
qed simp

text \<open>
  C36. The calls that the iteration finds to be supported are the least set of enabled calls whose inputs
  are created by calls of the set, whatever the order in which Go walks over the enabled calls. All other
  enabled calls are reported as disabled, each once, and no call is lost: the function does not panic.
\<close>

theorem TransitivelyEnabledCalls_least:
  assumes "\<And>k. set (orders k) = set enabled" and "distinct enabled"
    and "\<And>c res. c \<in> set enabled \<Longrightarrow> res \<in> set (inRes c) \<Longrightarrow> resourceOk target res"
  shows "\<exists>sup dis. TransitivelyEnabledCalls target inRes outRes orders enabled = Some (sup, dis) \<and>
    distinct sup \<and> set sup = supportedCalls inRes outRes (set enabled) \<and>
    map fst dis = filter (\<lambda>c. c \<notin> supportedCalls inRes outRes (set enabled)) enabled"
proof -
  obtain sup can where st: "transitivelyEnabled inRes outRes orders = Some (sup, can)" "distinct sup"
    "set sup = supportedCalls inRes outRes (set enabled)" "set can = createdKinds outRes (set sup)"
    using transitivelyEnabled_least [of orders "set enabled" inRes outRes] assms(1) by auto
  obtain dis where dis: "disabledCalls target inRes (sup, can) enabled = Some dis"
    "map fst dis = filter (\<lambda>c. c \<notin> set sup) enabled"
  proof -
    have "\<exists>res \<in> set (inRes c). rd_Name res \<notin> set (snd (sup, can))" if "c \<in> set enabled" "c \<notin> set (fst (sup, can))" for c
      using unsupported_input [of c "set enabled" inRes outRes can] that st(3,4) by simp
    then have "\<exists>ds. disabledCalls target inRes (sup, can) enabled = Some ds \<and>
        map fst ds = filter (\<lambda>c. c \<notin> set (fst (sup, can))) enabled"
      by (rule disabledCalls_unsupported) (use assms(3) in blast)+
    then show ?thesis using that by auto
  qed
  have "set (filter (\<lambda>c. c \<in> set sup) enabled) = set sup"
    using st(3) supported_enabled by fastforce
  then have "length sup = length (filter (\<lambda>c. c \<in> set sup) enabled)"
    using st(2) assms(2) by (metis distinct_card distinct_filter)
  moreover have "length dis = length (filter (\<lambda>c. c \<notin> set sup) enabled)"
    using arg_cong [OF dis(2), of length] by simp
  ultimately have "length enabled = length sup + length dis"
    using sum_length_filter_compl [of "\<lambda>c. c \<in> set sup" enabled] by simp
  then show ?thesis using st dis by (simp add: TransitivelyEnabledCalls_def)
qed

text \<open>Three calls: one opens a socket, one uses it, one needs a resource that nothing creates.\<close>

definition exRes :: "string \<Rightarrow> string list \<Rightarrow> ResourceDesc" where
  "exRes name kind = \<lparr>rd_Name = name, rd_Kind = kind, rd_Values = [0], rd_Ctors = []\<rparr>"

definition exIn :: "nat \<Rightarrow> ResourceDesc list" where
  "exIn c = (if c = 1 then [exRes ''fd'' [''fd'']] else if c = 2 then [exRes ''bpf'' [''bpf'']] else [])"

definition exOut :: "nat \<Rightarrow> ResourceDesc list" where
  "exOut c = (if c = 0 then [exRes ''sock'' [''fd'', ''sock'']] else [])"

definition exTarget0 :: Target where
  "exTarget0 = \<lparr>tgt_Syscalls = [], tgt_SpecialPointers = [], tgt_DataOffset = 0\<rparr>"

theorem TransitivelyEnabledCalls_least_witness:
  "\<exists>sup dis. TransitivelyEnabledCalls exTarget0 exIn exOut (\<lambda>k. if even k then [2, 1, 0] else [0, 1, 2]) [0, 1, 2] =
      Some (sup, dis) \<and> distinct sup \<and> set sup = supportedCalls exIn exOut (set [0, 1, 2])"
proof -
  have "resourceOk exTarget0 res" if "res \<in> set (exIn c)" for c res
    using that by (auto simp: exIn_def exRes_def resourceOk_def split: if_splits)
  moreover have "set (if even k then [2, 1, 0] else [0, 1, 2 :: nat]) = set [0, 1, 2]" for k :: nat by auto
  ultimately show ?thesis
    using TransitivelyEnabledCalls_least [of "\<lambda>k. if even k then [2, 1, 0] else [0, 1, 2]" "[0, 1, 2]" exIn exTarget0 exOut]
    by auto
qed

end
