(* ===== verification/TypeWalk.thy ===== *)
theory TypeWalk
  imports Resources
begin

text \<open>
  The traversal of the types of a call, \<^verbatim>\<open>foreachTypeImpl\<close> of \<^verbatim>\<open>prog/types.go\<close>, and the resources it
  finds for \<^verbatim>\<open>prog/resources.go\<close>. The recursion of the closure \<^verbatim>\<open>rec\<close> is a list of what is still to be
  done: \<open>Enter\<close> stands for a call of \<^verbatim>\<open>rec\<close>, \<open>Leave\<close> for the callback after the children in post-order.
  The callback works on a state, may panic, and says whether to stop (\<^verbatim>\<open>ctx.Stop\<close>). Types are identified
  by their reference.
\<close>

record TypeCtx =
  tc_Meta :: Syscall
  tc_Dir :: Dir
  tc_Optional :: bool

type_synonym seenKey = "Ref \<times> Dir \<times> bool"

datatype walkItem = Enter Ref Dir bool | Leave Ref TypeCtx

type_synonym 's typeCallback = "Type \<Rightarrow> TypeCtx \<Rightarrow> 's \<Rightarrow> ('s \<times> bool) option"

text \<open>What \<^verbatim>\<open>rec\<close> descends into; structs and unions only once for each direction and optionality.\<close>

definition enterFields :: "Field list \<Rightarrow> Dir \<Rightarrow> bool \<Rightarrow> walkItem list" where
  "enterFields fs dir opt = map (\<lambda>f. Enter (fld_Type f) (Field_Dir f dir) opt) fs"

definition typeChildren :: "Type \<Rightarrow> seenKey \<Rightarrow> seenKey list \<Rightarrow> walkItem list \<times> seenKey list" where
  "typeChildren t key seen =
     (let (r, dir, opt) = key in
      case t of
        PtrType _ elem elemDir \<Rightarrow> ([Enter elem elemDir opt], seen)
      | ArrayType _ elem _ _ _ \<Rightarrow> ([Enter elem dir opt], seen)
      | StructType _ fs _ _ \<Rightarrow> if key \<in> set seen then ([], seen) else (enterFields fs dir opt, key # seen)
      | UnionType _ fs \<Rightarrow> if key \<in> set seen then ([], seen) else (enterFields fs dir opt, key # seen)
      | _ \<Rightarrow> ([], seen))"

partial_function (option) walkTypes ::
  "Type list \<Rightarrow> Syscall \<Rightarrow> bool \<Rightarrow> 's typeCallback \<Rightarrow> walkItem list \<Rightarrow> seenKey list \<Rightarrow> 's \<Rightarrow> 's option" where
  "walkTypes tt meta preorder f work seen s =
     (case work of
        [] \<Rightarrow> Some s
      | Leave r ctx # work \<Rightarrow> do {
          t \<leftarrow> typeAt tt r;
          (s, stop) \<leftarrow> f t ctx s;
          if stop then None else walkTypes tt meta preorder f work seen s
        }
      | Enter r dir opt # work \<Rightarrow> do {
          t \<leftarrow> typeAt tt r;
          let opt = (opt \<or> Optional t);
          let ctx = \<lparr>tc_Meta = meta, tc_Dir = dir, tc_Optional = opt\<rparr>;
          (s, stop) \<leftarrow> (if preorder then f t ctx s else Some (s, False));
          if stop then walkTypes tt meta preorder f work seen s
          else
            let (cs, seen) = typeChildren t (r, dir, opt) seen in
            walkTypes tt meta preorder f (cs @ (if preorder then [] else [Leave r ctx]) @ work) seen s
        })"

definition callItems :: "Syscall \<Rightarrow> walkItem list" where
  "callItems meta =
     map (\<lambda>f. Enter (fld_Type f) DirIn False) (sys_Args meta) @
     (case sys_Ret meta of None \<Rightarrow> [] | Some r \<Rightarrow> [Enter r DirOut False])"

definition foreachTypeImpl :: "Type list \<Rightarrow> Syscall \<Rightarrow> bool \<Rightarrow> 's typeCallback \<Rightarrow> 's \<Rightarrow> 's option" where
  "foreachTypeImpl tt meta preorder f s = walkTypes tt meta preorder f (callItems meta) [] s"

definition ForeachCallType :: "Type list \<Rightarrow> Syscall \<Rightarrow> 's typeCallback \<Rightarrow> 's \<Rightarrow> 's option" where
  "ForeachCallType tt meta f s = foreachTypeImpl tt meta True f s"

fun ForeachType :: "Type list \<Rightarrow> Syscall list \<Rightarrow> 's typeCallback \<Rightarrow> 's \<Rightarrow> 's option" where
  "ForeachType tt [] f s = Some s"
| "ForeachType tt (meta # metas) f s = Option.bind (foreachTypeImpl tt meta True f s) (ForeachType tt metas f)"

fun ForeachTypePost :: "Type list \<Rightarrow> Syscall list \<Rightarrow> 's typeCallback \<Rightarrow> 's \<Rightarrow> 's option" where
  "ForeachTypePost tt [] f s = Some s"
| "ForeachTypePost tt (meta # metas) f s =
     Option.bind (foreachTypeImpl tt meta False f s) (ForeachTypePost tt metas f)"

subsection \<open>The resources of a call\<close>

text \<open>The three special resources have neither values nor constructors.\<close>

definition timespecRes :: ResourceDesc where
  "timespecRes = \<lparr>rd_Name = ''timespec'', rd_Kind = [''timespec''], rd_Values = [], rd_Ctors = []\<rparr>"

definition inputVisit :: "string \<Rightarrow> ResourceDesc list typeCallback" where
  "inputVisit os t ctx resources =
     Some
      (if tc_Dir ctx = DirOut then resources
       else case t of
         ResourceType _ _ d \<Rightarrow>
           if \<not> tc_Optional ctx \<and> d \<notin> set resources then resources @ [d] else resources
       | StructType _ _ _ _ \<Rightarrow>
           if os = ''linux'' \<and> timespecRes \<notin> set resources \<and> (Name t = ''timespec'' \<or> Name t = ''timeval'')
           then resources @ [timespecRes] else resources
       | _ \<Rightarrow> resources, False)"

definition getInputResources :: "Type list \<Rightarrow> string \<Rightarrow> Syscall \<Rightarrow> ResourceDesc list option" where
  "getInputResources tt os c = ForeachCallType tt c (inputVisit os) []"

definition outputVisit :: "ResourceDesc list typeCallback" where
  "outputVisit t ctx resources =
     Some
      (if Optional t then (resources, True)
       else case t of
         UnionType _ _ \<Rightarrow> (resources, True)
       | ResourceType _ _ d \<Rightarrow>
           if tc_Dir ctx = DirIn \<or> d \<in> set resources then (resources, False) else (resources @ [d], False)
       | _ \<Rightarrow> (resources, False))"

definition callResources :: "Type list \<Rightarrow> Syscall \<Rightarrow> ResourceDesc list option" where
  "callResources tt c = ForeachCallType tt c outputVisit []"

definition outputResources :: "Type list \<Rightarrow> Syscall \<Rightarrow> ResourceDesc list option" where
  "outputResources tt c =
     map_option (\<lambda>rs. if sys_Name c = clockGettime then rs @ [timespecRes] else rs) (callResources tt c)"

definition populateResourceCtors ::
  "Type list \<Rightarrow> Target \<Rightarrow> ResourceDesc list \<Rightarrow> ResourceDesc list option" where
  "populateResourceCtors tt target resources = do {
     callsResources \<leftarrow> those (map (callResources tt) (tgt_Syscalls target));
     Some (populateCtors callsResources resources)
   }"

subsection \<open>Reachable types\<close>

text \<open>A type at a place: its reference, the direction, and whether it or something around it is optional.\<close>

definition normItem :: "Type list \<Rightarrow> walkItem \<Rightarrow> seenKey option" where
  "normItem tt i =
     (case i of Enter r dir opt \<Rightarrow> map_option (\<lambda>t. (r, dir, opt \<or> Optional t)) (typeAt tt r) | Leave _ _ \<Rightarrow> None)"

definition childItems :: "Type list \<Rightarrow> seenKey \<Rightarrow> walkItem list" where
  "childItems tt key = (case typeAt tt (fst key) of None \<Rightarrow> [] | Some t \<Rightarrow> fst (typeChildren t key []))"

inductive_set typeReach :: "Type list \<Rightarrow> walkItem set \<Rightarrow> seenKey set"
  for tt :: "Type list" and roots :: "walkItem set" where
  root: "i \<in> roots \<Longrightarrow> normItem tt i = Some key \<Longrightarrow> key \<in> typeReach tt roots"
| child: "key \<in> typeReach tt roots \<Longrightarrow> i \<in> set (childItems tt key) \<Longrightarrow> normItem tt i = Some key' \<Longrightarrow>
    key' \<in> typeReach tt roots"

text \<open>
  Well-formed tables: all references are in range, and chains of pointers and arrays end, which
  \<open>rank\<close> witnesses. Recursive types go through a struct or union, whose rank is not compared.
\<close>

definition tableOk :: "Type list \<Rightarrow> (Ref \<Rightarrow> nat) \<Rightarrow> bool" where
  "tableOk tt rank \<longleftrightarrow>
     (\<forall>r t. typeAt tt r = Some t \<longrightarrow>
        (case t of
           PtrType _ elem _ \<Rightarrow> typeAt tt elem \<noteq> None \<and> rank elem < rank r
         | ArrayType _ elem _ _ _ \<Rightarrow> typeAt tt elem \<noteq> None \<and> rank elem < rank r
         | StructType _ fs _ _ \<Rightarrow> (\<forall>f \<in> set fs. typeAt tt (fld_Type f) \<noteq> None)
         | UnionType _ fs \<Rightarrow> (\<forall>f \<in> set fs. typeAt tt (fld_Type f) \<noteq> None)
         | _ \<Rightarrow> True))"

definition itemOk :: "Type list \<Rightarrow> walkItem \<Rightarrow> bool" where
  "itemOk tt i = (case i of Enter r _ _ \<Rightarrow> typeAt tt r \<noteq> None | Leave _ _ \<Rightarrow> False)"

lemma typeChildren_ok:
  assumes "tableOk tt rank" and "typeAt tt r = Some t" and "typeChildren t (r, dir, opt) seen = (cs, seen')"
  shows "list_all (itemOk tt) cs"
  using assms unfolding tableOk_def typeChildren_def
  by (fastforce simp: itemOk_def enterFields_def list_all_iff split: Type.splits if_splits)

subsection \<open>The traversal visits what is reachable\<close>

definition norms :: "Type list \<Rightarrow> walkItem set \<Rightarrow> seenKey set" where
  "norms tt is = {key. \<exists>i \<in> is. normItem tt i = Some key}"

definition closedKeys :: "Type list \<Rightarrow> seenKey set \<Rightarrow> seenKey set \<Rightarrow> bool" where
  "closedKeys tt vis todo \<longleftrightarrow> (\<forall>key \<in> vis. norms tt (set (childItems tt key)) \<subseteq> vis \<union> todo)"

definition itemRank :: "(Ref \<Rightarrow> nat) \<Rightarrow> walkItem \<Rightarrow> nat" where
  "itemRank rank i = (case i of Enter r _ _ \<Rightarrow> Suc (rank r) | Leave _ _ \<Rightarrow> 0)"

definition allKeys :: "Type list \<Rightarrow> seenKey set" where
  "allKeys tt = {..<length tt} \<times> {DirIn, DirOut, DirInOut} \<times> UNIV"

definition visitKey :: "Type list \<Rightarrow> Syscall \<Rightarrow> (Type \<Rightarrow> TypeCtx \<Rightarrow> 's \<Rightarrow> 's) \<Rightarrow> seenKey \<Rightarrow> 's \<Rightarrow> 's" where
  "visitKey tt meta g key s = (case key of (r, dir, opt) \<Rightarrow> g (tt ! r) \<lparr>tc_Meta = meta, tc_Dir = dir, tc_Optional = opt\<rparr> s)"

abbreviation never_stops :: "(Type \<Rightarrow> TypeCtx \<Rightarrow> 's \<Rightarrow> 's) \<Rightarrow> 's typeCallback" where
  "never_stops g \<equiv> \<lambda>t ctx s. Some (g t ctx s, False)"

lemma allKeys_finite [simp]: "finite (allKeys tt)"
  by (simp add: allKeys_def)

lemma typeAt_allKeys: "typeAt tt r = Some t \<Longrightarrow> (r, dir, opt) \<in> allKeys tt"
  by (cases dir) (auto simp: allKeys_def typeAt_def split: if_splits)

lemma typeAt_nth: "typeAt tt r = Some t \<Longrightarrow> t = tt ! r"
  by (simp add: typeAt_def split: if_splits)

lemma walkTypes_Nil: "walkTypes tt meta preorder f [] seen s = Some s"
  by (subst walkTypes.simps) simp

lemma walkTypes_visit:
  assumes "typeAt tt r = Some t" and "f t \<lparr>tc_Meta = meta, tc_Dir = dir, tc_Optional = opt \<or> Optional t\<rparr> s = Some (s', False)"
    and "typeChildren t (r, dir, opt \<or> Optional t) seen = (cs, seen')"
  shows "walkTypes tt meta True f (Enter r dir opt # work) seen s = walkTypes tt meta True f (cs @ work) seen' s'"
  by (subst walkTypes.simps) (simp add: assms Let_def)

lemma walkTypes_Enter:
  assumes "typeAt tt r = Some t" and "typeChildren t (r, dir, opt \<or> Optional t) seen = (cs, seen')"
  shows "walkTypes tt meta True (never_stops g) (Enter r dir opt # work) seen s =
    walkTypes tt meta True (never_stops g) (cs @ work) seen' (visitKey tt meta g (r, dir, opt \<or> Optional t) s)"
  using typeAt_nth [OF assms(1)] by (subst walkTypes_visit [OF assms(1) _ assms(2)]) (simp_all add: visitKey_def)

lemma typeChildren_cases:
  assumes "tableOk tt rank" and "typeAt tt r = Some t" and "typeChildren t key seen = (cs, seen')" and "fst key = r"
  shows "(cs = childItems tt key \<or> cs = [] \<and> key \<in> set seen) \<and>
    (seen' = seen \<and> sum_list (map (itemRank rank) cs) < Suc (rank r) \<or> seen' = key # seen \<and> key \<notin> set seen)"
proof -
  obtain dir opt where key: "key = (r, dir, opt)" using assms(4) by (cases key) auto
  have ok: "case t of PtrType _ elem _ \<Rightarrow> typeAt tt elem \<noteq> None \<and> rank elem < rank r
      | ArrayType _ elem _ _ _ \<Rightarrow> typeAt tt elem \<noteq> None \<and> rank elem < rank r | _ \<Rightarrow> True"
    using assms(1,2) unfolding tableOk_def by (cases t) fastforce+
  show ?thesis
    using ok assms(2,3) by (cases t) (auto simp: key typeChildren_def childItems_def itemRank_def split: if_splits)
qed

lemma walk_measure:
  assumes "tableOk tt rank" and "typeAt tt r = Some t" and "typeChildren t (r, dir, opt') seen = (cs, seen')"
  shows "((card (allKeys tt - set seen'), sum_list (map (itemRank rank) (cs @ work))),
      (card (allKeys tt - set seen), sum_list (map (itemRank rank) (Enter r dir opt # work)))) \<in> less_than <*lex*> less_than"
proof -
  let ?key = "(r, dir, opt')"
  consider "seen' = seen" "sum_list (map (itemRank rank) cs) < Suc (rank r)" | "seen' = ?key # seen" "?key \<notin> set seen"
    using typeChildren_cases [OF assms] by auto
  then show ?thesis
  proof cases
    case 1
    then show ?thesis by (simp add: itemRank_def)
  next
    case 2
    then have "allKeys tt - set seen' \<subset> allKeys tt - set seen" using typeAt_allKeys [OF assms(2)] by auto
    then have "card (allKeys tt - set seen') < card (allKeys tt - set seen)" by (intro psubset_card_mono) simp_all
    then show ?thesis by simp
  qed
qed

text \<open>Reachability from a list of items, by its first item.\<close>

lemma typeReach_mono: "key \<in> typeReach tt is \<Longrightarrow> is \<subseteq> js \<Longrightarrow> key \<in> typeReach tt js"
  by (induction rule: typeReach.induct) (auto intro: typeReach.intros)

lemma typeReach_children:
  assumes "key \<in> typeReach tt (set cs \<union> is)" and "set cs \<subseteq> set (childItems tt key0)"
    and "key0 \<in> typeReach tt js" and "is \<subseteq> js"
  shows "key \<in> typeReach tt js"
  using assms(1)
proof induction
  case (root i key)
  then show ?case using assms(2-4) by (auto intro: typeReach.intros)
qed (auto intro: typeReach.child)

lemma closedKeys_reach:
  assumes "closedKeys tt vis {}" and "norms tt is \<subseteq> vis"
  shows "typeReach tt is \<subseteq> vis"
proof
  fix key assume "key \<in> typeReach tt is"
  then show "key \<in> vis"
  proof induction
    case (child key i key')
    then have "key' \<in> norms tt (set (childItems tt key))" unfolding norms_def by blast
    then show ?case using assms(1) child.IH unfolding closedKeys_def by blast
  qed (use assms(2) in \<open>auto simp: norms_def\<close>)
qed

lemma walkTypes_visits:
  assumes "tableOk tt rank" and "list_all (itemOk tt) work" and "closedKeys tt vis (norms tt (set work))"
    and "set seen \<subseteq> vis"
  shows "\<exists>keys. (\<forall>(g :: Type \<Rightarrow> TypeCtx \<Rightarrow> 's \<Rightarrow> 's) s. walkTypes tt meta True (never_stops g) work seen s = Some (fold (visitKey tt meta g) keys s)) \<and>
    set keys \<subseteq> typeReach tt (set work) \<and> norms tt (set work) \<subseteq> vis \<union> set keys \<and>
    closedKeys tt (vis \<union> set keys) {}"
  using assms(2-4)
proof (induction "(card (allKeys tt - set seen), sum_list (map (itemRank rank) work))" arbitrary: work seen vis
    rule: wf_induct_rule [OF wf_lex_prod [OF wf_less_than wf_less_than]])
  case (1 work seen vis)
  show ?case
  proof (cases work)
    case Nil
    then show ?thesis using 1(3) by (intro exI [of _ "[]"]) (simp add: norms_def walkTypes_Nil)
  next
    case (Cons i work')
    then obtain r dir opt t where i: "i = Enter r dir opt" and t: "typeAt tt r = Some t"
      using 1(2) by (cases i) (auto simp: itemOk_def)
    define key where "key = (r, dir, opt \<or> Optional t)"
    obtain cs seen' where cs: "typeChildren t key seen = (cs, seen')" by fastforce
    have norm: "normItem tt i = Some key" by (simp add: i normItem_def t key_def)
    note step = typeChildren_cases [OF assms(1) t cs] and run = walkTypes_Enter [OF t cs [unfolded key_def], folded key_def]
    have key: "fst key = r" by (simp add: key_def)
    have sub: "set cs \<subseteq> set (childItems tt key)" using step [OF key] by auto
    have "list_all (itemOk tt) (cs @ work')"
      using typeChildren_ok [OF assms(1) t cs [unfolded key_def]] 1(2) Cons by simp
    moreover have "closedKeys tt (insert key vis) (norms tt (set (cs @ work')))"
      using 1(3,4) step [OF key] Cons norm unfolding closedKeys_def norms_def by fastforce
    moreover have "set seen' \<subseteq> insert key vis" using step [OF key] 1(4) by auto
    ultimately obtain keys where keys:
      "\<forall>(g :: Type \<Rightarrow> TypeCtx \<Rightarrow> 's \<Rightarrow> 's) s. walkTypes tt meta True (never_stops g) (cs @ work') seen' s = Some (fold (visitKey tt meta g) keys s)"
      "set keys \<subseteq> typeReach tt (set (cs @ work'))" "norms tt (set (cs @ work')) \<subseteq> insert key vis \<union> set keys"
      "closedKeys tt (insert key vis \<union> set keys) {}"
      using 1(1) [of seen' "cs @ work'" "insert key vis"] walk_measure [OF assms(1) t cs [unfolded key_def], of work' opt]
      unfolding Cons i by blast
    have "set keys \<subseteq> typeReach tt (set work)"
      using keys(2) typeReach_children [OF _ sub typeReach.root [OF _ norm], of _ "set work'" "set work"] Cons by fastforce
    moreover have "norms tt (set work) \<subseteq> vis \<union> set (key # keys)"
      using keys(3) norm Cons unfolding norms_def by fastforce
    ultimately show ?thesis
      using keys(1,4) norm typeReach.root [of i "set work" tt key] Cons
      by (intro exI [of _ "key # keys"]) (simp add: run i)
  qed
qed


text \<open>A linked list: a struct with a pointer to itself.\<close>

definition exTypes0 :: "Type list" where
  "exTypes0 =
     (let c = \<lparr>TypeName = ''list'', TypeSize = 8, TypeAlign = 8, IsOptional = False, IsVarlen = False\<rparr> in
      [VmaType c 0 0,
       StructType c [\<lparr>fld_Name = ''next'', fld_Type = 2, fld_HasDirection = False, fld_Direction = DirIn\<rparr>] 0 0,
       PtrType (c\<lparr>IsOptional := True\<rparr>) 1 DirInOut])"

definition exMeta0 :: Syscall where
  "exMeta0 = \<lparr>sys_ID = 0, sys_NR = 0, sys_Name = ''f'', sys_CallName = ''f'', sys_MissingArgs = 0,
     sys_Args = [\<lparr>fld_Name = ''a'', fld_Type = 2, fld_HasDirection = False, fld_Direction = DirIn\<rparr>],
     sys_Ret = None, sys_Attrs = \<lparr>sa_Disabled = False, sa_Timeout = 0, sa_ProgTimeout = 0, sa_IgnoreReturn = False,
       sa_BreaksReturns = False, sa_NoGenerate = False, sa_NoMinimize = False\<rparr>\<rparr>"


end
