(* ===== verification/Prio.thy ===== *)
theory Prio
  imports TypeWalk "HOL-Library.AList"
begin

text \<open>
  Call-to-call priorities and the choice table, \<^verbatim>\<open>prog/prio.go\<close>. Priorities are \<^verbatim>\<open>int32\<close>, kept at their
  width. Go maps are association lists in the order of one walk. A call is identified by its \<^verbatim>\<open>ID\<close>, its
  position in the table of calls; the set of enabled calls is a list of these.
\<close>

type_synonym int32 = "32 word"
type_synonym prios = "int32 list list"

text \<open>Signed division, which cuts towards zero.\<close>

definition div32 :: "int32 \<Rightarrow> int32 \<Rightarrow> int32" where
  "div32 a b = word_of_int (sgn (sint a) * sgn (sint b) * (\<bar>sint a\<bar> div \<bar>sint b\<bar>))"

definition prioLow :: int32 where "prioLow = 10"
definition prioHigh :: int32 where "prioHigh = 1000"

text \<open>\<^verbatim>\<open>prios[i][j] += d\<close>, which panics out of range.\<close>

definition addPrio :: "nat \<Rightarrow> nat \<Rightarrow> int32 \<Rightarrow> prios \<Rightarrow> prios option" where
  "addPrio i j d m =
     (if i < length m \<and> j < length (m ! i) then Some (m[i := (m ! i)[j := m ! i ! j + d]]) else None)"

definition zeroPrios :: "nat \<Rightarrow> prios" where
  "zeroPrios n = replicate n (replicate n 0)"

fun rowMax :: "int32 \<Rightarrow> int32 list \<Rightarrow> int32" where
  "rowMax m [] = m"
| "rowMax m (p # ps) = rowMax (if sint m < sint p then p else m) ps"

definition normalizeRow :: "int32 list \<Rightarrow> int32 list" where
  "normalizeRow prio =
     (let max = rowMax 1 prio in map (\<lambda>p. prioLow + div32 (p * (prioHigh - prioLow)) max) prio)"

definition normalizePrio :: "prios \<Rightarrow> prios" where
  "normalizePrio prios = map normalizeRow prios"

subsection \<open>Static priorities\<close>

record weights =
  wt_call :: nat
  wt_in :: int32
  wt_inout :: int32

type_synonym uses = "(string \<times> (nat \<times> weights) list) list"

text \<open>
  The key is a format string with its arguments put in. Where \<^verbatim>\<open>calcResourceUsage\<close> passes a name as the format
  itself, the name is taken to have no percent sign, as no resource kind and no string kind has.
\<close>

definition noteUsage :: "uses \<Rightarrow> Syscall \<Rightarrow> int32 \<Rightarrow> Dir \<Rightarrow> string \<Rightarrow> uses" where
  "noteUsage us c weight dir key =
     (let calls = (case map_of us key of None \<Rightarrow> [] | Some calls \<Rightarrow> calls);
          old = (case map_of calls (sys_ID c) of None \<Rightarrow> \<lparr>wt_call = 0, wt_in = 0, wt_inout = 0\<rparr> | Some w \<Rightarrow> w);
          w = old\<lparr>wt_call := sys_ID c,
                  wt_in := (if dir \<noteq> DirOut \<and> sint weight > sint (wt_in old) then weight else wt_in old),
                  wt_inout := (if sint weight > sint (wt_inout old) then weight else wt_inout old)\<rparr>
      in AList.update key (AList.update (sys_ID c) w calls) us)"

text \<open>The kinds of a resource, from the general to the special one, which weighs most.\<close>

fun noteKinds :: "Syscall \<Rightarrow> Dir \<Rightarrow> string \<Rightarrow> string list \<Rightarrow> uses \<Rightarrow> uses" where
  "noteKinds c dir str [] us = us"
| "noteKinds c dir str (k # ks) us =
     (let str = str @ ''-'' @ k in noteKinds c dir str ks (noteUsage us c (if ks = [] then 10 else 2) dir str))"

definition ptrUsage :: "Type list \<Rightarrow> Ref \<Rightarrow> string option option" where
  "ptrUsage tt elem = do {
     t \<leftarrow> typeAt tt elem;
     case t of
       StructType _ _ _ _ \<Rightarrow> Some (Some (Name t))
     | UnionType _ _ \<Rightarrow> Some (Some (Name t))
     | ArrayType _ e _ _ _ \<Rightarrow> map_option (\<lambda>t. Some (Name t)) (typeAt tt e)
     | _ \<Rightarrow> Some None
   }"

definition usageVisit :: "Type list \<Rightarrow> string list \<Rightarrow> uses typeCallback" where
  "usageVisit tt aux t ctx us = do {
     let c = tc_Meta ctx;
     us \<leftarrow>
       (case t of
          ResourceType _ _ d \<Rightarrow>
            Some (if rd_Name d \<in> set aux then noteUsage us c 1 (tc_Dir ctx) (''res'' @ rd_Name d)
                  else noteKinds c (tc_Dir ctx) ''res'' (rd_Kind d) us)
        | PtrType _ elem _ \<Rightarrow> do {
            name \<leftarrow> ptrUsage tt elem;
            Some (case name of None \<Rightarrow> us | Some n \<Rightarrow> noteUsage us c 10 (tc_Dir ctx) (''ptrto-'' @ n))
          }
        | BufferType _ k _ _ _ sub _ _ \<Rightarrow>
            Some (if k = BufferString \<or> k = BufferGlob then
                    (if sub \<noteq> [] then noteUsage us c 2 (tc_Dir ctx) (''str-'' @ sub) else us)
                  else if k = BufferFilename then noteUsage us c 10 DirIn ''filename''
                  else us)
        | VmaType _ _ _ \<Rightarrow> Some (noteUsage us c 5 (tc_Dir ctx) ''vma'')
        | _ \<Rightarrow> Some us);
     Some (us, False)
   }"

definition calcResourceUsage :: "Type list \<Rightarrow> string list \<Rightarrow> Target \<Rightarrow> uses option" where
  "calcResourceUsage tt aux target = ForeachType tt (tgt_Syscalls target) (usageVisit tt aux) []"

definition pairWeight :: "weights \<Rightarrow> weights \<Rightarrow> int32" where
  "pairWeight w0 w1 = div32 (wt_inout w0 * wt_in w1 * 3) 2 + wt_inout w0 * wt_inout w1"

fun addPairs :: "(weights \<times> weights) list \<Rightarrow> prios \<Rightarrow> prios option" where
  "addPairs [] m = Some m"
| "addPairs ((w0, w1) # ws) m =
     (if wt_call w0 = wt_call w1 then addPairs ws m
      else Option.bind (addPrio (wt_call w0) (wt_call w1) (pairWeight w0 w1) m) (addPairs ws))"

fun addUses :: "uses \<Rightarrow> prios \<Rightarrow> prios option" where
  "addUses [] m = Some m"
| "addUses ((_, calls) # us) m =
     Option.bind (addPairs (List.product (map snd calls) (map snd calls)) m) (addUses us)"

definition rawStatic :: "Type list \<Rightarrow> string list \<Rightarrow> Target \<Rightarrow> prios option" where
  "rawStatic tt aux target = do {
     us \<leftarrow> calcResourceUsage tt aux target;
     addUses us (zeroPrios (length (tgt_Syscalls target)))
   }"

definition selfPrio :: int32 where
  "selfPrio = div32 (prioHigh * 9) 10"

definition setSelf :: "prios \<Rightarrow> prios" where
  "setSelf prios = map (\<lambda>(c0, pp). pp[c0 := selfPrio]) (enumerate 0 prios)"

definition calcStaticPriorities :: "Type list \<Rightarrow> string list \<Rightarrow> Target \<Rightarrow> prios option" where
  "calcStaticPriorities tt aux target = map_option (\<lambda>m. setSelf (normalizePrio m)) (rawStatic tt aux target)"

subsection \<open>Dynamic priorities\<close>

text \<open>A program of the corpus is the list of its calls, by \<^verbatim>\<open>ID\<close>.\<close>

fun countAfter :: "nat \<Rightarrow> nat list \<Rightarrow> prios \<Rightarrow> prios option" where
  "countAfter c0 [] m = Some m"
| "countAfter c0 (c1 # cs) m = Option.bind (addPrio c0 c1 1 m) (countAfter c0 cs)"

fun countProg :: "nat list \<Rightarrow> prios \<Rightarrow> prios option" where
  "countProg [] m = Some m"
| "countProg (c0 # cs) m = Option.bind (countAfter c0 cs m) (countProg cs)"

fun countCorpus :: "nat list list \<Rightarrow> prios \<Rightarrow> prios option" where
  "countCorpus [] m = Some m"
| "countCorpus (p # ps) m = Option.bind (countProg p m) (countCorpus ps)"

definition calcDynamicPrio :: "Target \<Rightarrow> nat list list \<Rightarrow> prios option" where
  "calcDynamicPrio target corpus =
     map_option normalizePrio (countCorpus corpus (zeroPrios (length (tgt_Syscalls target))))"

definition scaleRow :: "int32 list \<Rightarrow> int32 list \<Rightarrow> int32 list" where
  "scaleRow dst ps = map2 (\<lambda>d p. div32 (d * p) prioHigh) dst ps"

definition CalculatePriorities :: "Type list \<Rightarrow> string list \<Rightarrow> Target \<Rightarrow> nat list list \<Rightarrow> prios option" where
  "CalculatePriorities tt aux target corpus = do {
     static \<leftarrow> calcStaticPriorities tt aux target;
     if corpus = [] then Some static
     else do {
       dynamic \<leftarrow> calcDynamicPrio target corpus;
       Some (map2 scaleRow static dynamic)
     }
   }"

subsection \<open>The choice table\<close>

record ChoiceTable =
  ct_runs :: "int32 list option list"
  ct_calls :: "nat list"
  ct_noGenerateCalls :: "nat list"

fun runSums :: "nat list \<Rightarrow> nat \<Rightarrow> int32 \<Rightarrow> int32 list \<Rightarrow> int32 list" where
  "runSums enabled j acc [] = []"
| "runSums enabled j acc (p # ps) =
     (let acc = (if j \<in> set enabled then acc + p else acc) in acc # runSums enabled (Suc j) acc ps)"

definition buildRuns :: "nat list \<Rightarrow> prios \<Rightarrow> int32 list option list" where
  "buildRuns enabled prios =
     map (\<lambda>(i, row). if i \<in> set enabled then Some (runSums enabled 0 0 row) else None) (enumerate 0 prios)"

text \<open>
  The calls that are enabled and may be generated; a \<^verbatim>\<open>nil\<close> map enables all. Calls with the attribute
  \<^verbatim>\<open>disabled\<close> or \<^verbatim>\<open>no_generate\<close> are taken out of the caller's map.
\<close>

definition attrsOf :: "Target \<Rightarrow> nat \<Rightarrow> SyscallAttrs" where
  "attrsOf target c = sys_Attrs (tgt_Syscalls target ! c)"

definition generatableCalls :: "Target \<Rightarrow> nat list option \<Rightarrow> nat list" where
  "generatableCalls target enabled =
     filter (\<lambda>c. \<not> sa_Disabled (attrsOf target c) \<and> \<not> sa_NoGenerate (attrsOf target c))
       (case enabled of None \<Rightarrow> [0..<length (tgt_Syscalls target)] | Some cs \<Rightarrow> cs)"

definition noGenerate :: "Target \<Rightarrow> nat list option \<Rightarrow> nat list" where
  "noGenerate target enabled =
     filter (\<lambda>c. \<not> sa_Disabled (attrsOf target c) \<and> sa_NoGenerate (attrsOf target c))
       (case enabled of None \<Rightarrow> [0..<length (tgt_Syscalls target)] | Some cs \<Rightarrow> cs)"

definition BuildChoiceTable ::
  "Type list \<Rightarrow> string list \<Rightarrow> Target \<Rightarrow> nat list list \<Rightarrow> nat list option \<Rightarrow> ChoiceTable option" where
  "BuildChoiceTable tt aux target corpus enabled =
     (let gen = generatableCalls target enabled; nogen = noGenerate target enabled in
      if gen = [] then None
      else if list_ex (list_ex (\<lambda>c. c \<notin> set gen \<and> c \<notin> set nogen)) corpus then None
      else do {
        prios \<leftarrow> CalculatePriorities tt aux target corpus;
        Some \<lparr>ct_runs = buildRuns gen prios, ct_calls = sort gen, ct_noGenerateCalls = nogen\<rparr>
      })"

definition ct_Generatable :: "ChoiceTable \<Rightarrow> nat \<Rightarrow> bool option" where
  "ct_Generatable ct call = (if call < length (ct_runs ct) then Some (ct_runs ct ! call \<noteq> None) else None)"

definition ct_Enabled :: "ChoiceTable \<Rightarrow> nat \<Rightarrow> bool option" where
  "ct_Enabled ct call = map_option (\<lambda>g. g \<or> call \<in> set (ct_noGenerateCalls ct)) (ct_Generatable ct call)"

definition ct_choose :: "ChoiceTable \<Rightarrow> rng \<Rightarrow> int \<Rightarrow> (nat \<times> rng) option" where
  "ct_choose ct r bias = do {
     (bias, r) \<leftarrow>
       (if bias < 0 then do { (k, r) \<leftarrow> Intn (length (ct_calls ct)) r; Some (ct_calls ct ! k, r) }
        else Some (nat bias, r));
     g \<leftarrow> ct_Generatable ct bias;
     if \<not> g then None
     else do {
       run \<leftarrow> ct_runs ct ! bias;
       if run = [] then None
       else do {
         (k, r) \<leftarrow> Intn (nat (sint (last run))) r;
         let x = word_of_nat (k + 1);
         let res = sortSearch (length run) (\<lambda>i. sint (run ! i) \<ge> sint (x :: int32));
         g \<leftarrow> ct_Generatable ct res;
         if \<not> g then None else Some (res, r)
       }
     }
   }"

subsection \<open>Arithmetic at 32 bits\<close>

lemma sint32: "- (2 ^ 31) \<le> x \<Longrightarrow> x < 2 ^ 31 \<Longrightarrow> sint (word_of_int x :: int32) = x"
  by (subst sint_sbintrunc') (simp add: signed_take_bit_int_eq_self)

lemma sint32_numerals [simp]: "sint prioLow = 10" "sint prioHigh = 1000" "sint (prioHigh - prioLow) = 990"
  by (simp_all add: prioLow_def prioHigh_def)

lemma sint_add32: "- (2 ^ 31) \<le> sint a + sint b \<Longrightarrow> sint a + sint b < 2 ^ 31 \<Longrightarrow> sint (a + b :: int32) = sint a + sint b"
  by (subst sint_word_add) (simp add: signed_take_bit_int_eq_self)

lemma sint_mult32: "- (2 ^ 31) \<le> sint a * sint b \<Longrightarrow> sint a * sint b < 2 ^ 31 \<Longrightarrow> sint (a * b :: int32) = sint a * sint b"
  by (subst sint_word_mult) (simp add: signed_take_bit_int_eq_self)

lemma sint_div32:
  assumes "0 \<le> sint a" and "0 < sint b"
  shows "sint (div32 a b) = sint a div sint b"
proof -
  have "sint a < 2 ^ 31" using sint_lt [of a] by simp
  moreover have "sint a div sint b \<le> sint a" "0 \<le> sint a div sint b"
    using assms zdiv_mono2 [of "sint a" 1 "sint b"] by (simp_all add: pos_imp_zdiv_nonneg_iff)
  moreover have "sgn (sint a) * sgn (sint b) * (\<bar>sint a\<bar> div \<bar>sint b\<bar>) = sint a div sint b"
    using assms by (cases "sint a = 0") (simp_all add: sgn_if)
  ultimately show ?thesis unfolding div32_def by (simp add: sint32)
qed

lemma rowMax_ge1: "sint m \<le> sint (rowMax m ps)"
  by (induction m ps rule: rowMax.induct) (force split: if_splits)+

lemma rowMax_ge: "p \<in> set ps \<Longrightarrow> sint p \<le> sint (rowMax m ps)"
proof (induction m ps rule: rowMax.induct)
  case (2 m q ps)
  then show ?case using rowMax_ge1 [of "if sint m < sint q then q else m" ps] by (auto split: if_splits)
qed simp

lemma rowMax_in: "rowMax m ps = m \<or> rowMax m ps \<in> set ps"
  by (induction m ps rule: rowMax.induct) (auto split: if_splits)

text \<open>The largest number that can be scaled without overflow.\<close>

definition prioLimit :: int where "prioLimit = 2169175"

definition rowOk :: "int \<Rightarrow> int \<Rightarrow> int32 list \<Rightarrow> bool" where
  "rowOk lo hi row \<longleftrightarrow> (\<forall>p \<in> set row. lo \<le> sint p \<and> sint p \<le> hi)"

lemma normalizeEntry:
  assumes "0 \<le> sint p" and "sint p \<le> sint m" and "1 \<le> sint m" and "sint m \<le> prioLimit"
  shows "sint (prioLow + div32 (p * (prioHigh - prioLow)) m) = 10 + sint p * 990 div sint m"
    and "sint p * 990 div sint m \<le> 990" and "0 \<le> sint p * 990 div sint m"
proof -
  have mult: "sint (p * (prioHigh - prioLow)) = sint p * 990"
    using assms by (subst sint_mult32) (simp_all add: prioLimit_def)
  have "sint p * 990 div sint m \<le> sint m * 990 div sint m"
    using assms by (intro zdiv_mono1) simp_all
  then show le: "sint p * 990 div sint m \<le> 990" using assms by simp
  show ge: "0 \<le> sint p * 990 div sint m" using assms by (simp add: pos_imp_zdiv_nonneg_iff)
  have "sint (div32 (p * (prioHigh - prioLow)) m) = sint p * 990 div sint m"
    using assms by (subst sint_div32) (simp_all add: mult)
  then show "sint (prioLow + div32 (p * (prioHigh - prioLow)) m) = 10 + sint p * 990 div sint m"
    using le ge by (subst sint_add32) simp_all
qed

lemma normalizeRow_range: "rowOk 0 prioLimit row \<Longrightarrow> rowOk 10 1000 (normalizeRow row)"
proof -
  assume row: "rowOk 0 prioLimit row"
  let ?m = "rowMax 1 row"
  have m: "1 \<le> sint ?m" "sint ?m \<le> prioLimit"
    using rowMax_ge1 [of 1 row] rowMax_in [of 1 row] row by (auto simp: rowOk_def prioLimit_def)
  have "10 \<le> sint (prioLow + div32 (p * (prioHigh - prioLow)) ?m) \<and> sint (prioLow + div32 (p * (prioHigh - prioLow)) ?m) \<le> 1000"
    if "p \<in> set row" for p
    using normalizeEntry [OF _ rowMax_ge [OF that, of 1] m] row that by (auto simp: rowOk_def)
  then show ?thesis by (auto simp: rowOk_def normalizeRow_def Let_def)
qed

subsection \<open>The matrix of priorities\<close>

definition matrixOk :: "nat \<Rightarrow> int \<Rightarrow> int \<Rightarrow> prios \<Rightarrow> bool" where
  "matrixOk n lo hi m \<longleftrightarrow> length m = n \<and> (\<forall>row \<in> set m. length row = n \<and> rowOk lo hi row)"

lemma matrixOk_normalize: "matrixOk n 0 prioLimit m \<Longrightarrow> matrixOk n 10 1000 (normalizePrio m)"
  by (auto simp: matrixOk_def normalizePrio_def normalizeRow_range) (simp add: normalizeRow_def Let_def)

lemma matrixOk_zero: "matrixOk n 0 0 (zeroPrios n)"
  by (simp add: matrixOk_def zeroPrios_def rowOk_def)

lemma rowOk_update: "rowOk lo hi row \<Longrightarrow> lo \<le> sint p \<Longrightarrow> sint p \<le> hi \<Longrightarrow> rowOk lo hi (row[j := p])"
  unfolding rowOk_def by (auto dest: subsetD [OF set_update_subset_insert])

lemma rowOk_mono: "rowOk lo hi row \<Longrightarrow> lo' \<le> lo \<Longrightarrow> hi \<le> hi' \<Longrightarrow> rowOk lo' hi' row"
  by (force simp: rowOk_def)

lemma rowOk_nth: "rowOk lo hi row \<Longrightarrow> j < length row \<Longrightarrow> lo \<le> sint (row ! j) \<and> sint (row ! j) \<le> hi"
  by (simp add: rowOk_def)

text \<open>Counting a pair of calls.\<close>

lemma addPrio_one:
  assumes "matrixOk n 0 k m" and "i < n" and "j < n" and "k < 2 ^ 31 - 1"
  shows "\<exists>m'. addPrio i j 1 m = Some m' \<and> matrixOk n 0 (k + 1) m'"
proof -
  have i: "i < length m" "length (m ! i) = n" "rowOk 0 k (m ! i)" using assms(1,2) by (auto simp: matrixOk_def)
  then have e: "0 \<le> sint (m ! i ! j)" "sint (m ! i ! j) \<le> k" using assms(3) rowOk_nth [of 0 k "m ! i" j] by simp_all
  then have "sint (m ! i ! j + 1) = sint (m ! i ! j) + 1" using assms(4) by (subst sint_add32) simp_all
  then have "rowOk 0 (k + 1) ((m ! i)[j := m ! i ! j + 1])"
    using e i(3) by (intro rowOk_update) (auto intro: rowOk_mono)
  then have "matrixOk n 0 (k + 1) (m[i := (m ! i)[j := m ! i ! j + 1]])"
    using assms(1) i(2) unfolding matrixOk_def
    by (auto dest!: subsetD [OF set_update_subset_insert] intro: rowOk_mono)
  then show ?thesis using i assms(3) by (simp add: addPrio_def)
qed

lemma countAfter_ok:
  "matrixOk n 0 k m \<Longrightarrow> c0 < n \<Longrightarrow> list_all (\<lambda>c. c < n) cs \<Longrightarrow> k + int (length cs) < 2 ^ 31 \<Longrightarrow>
   \<exists>m'. countAfter c0 cs m = Some m' \<and> matrixOk n 0 (k + int (length cs)) m'"
proof (induction cs arbitrary: k m)
  case (Cons c1 cs)
  then obtain m1 where "addPrio c0 c1 1 m = Some m1" "matrixOk n 0 (k + 1) m1"
    using addPrio_one [of n k m c0 c1] by auto
  with Cons.IH [of "k + 1" m1] Cons.prems show ?case by (simp add: add.assoc)
qed simp

fun progPairs :: "nat list \<Rightarrow> nat" where
  "progPairs [] = 0"
| "progPairs (c # cs) = length cs + progPairs cs"

lemma countProg_ok:
  "matrixOk n 0 k m \<Longrightarrow> list_all (\<lambda>c. c < n) p \<Longrightarrow> k + int (progPairs p) < 2 ^ 31 \<Longrightarrow>
   \<exists>m'. countProg p m = Some m' \<and> matrixOk n 0 (k + int (progPairs p)) m'"
proof (induction p arbitrary: k m)
  case (Cons c cs)
  then obtain m1 where "countAfter c cs m = Some m1" "matrixOk n 0 (k + int (length cs)) m1"
    using countAfter_ok [of n k m c cs] by auto
  with Cons.IH [of "k + int (length cs)" m1] Cons.prems show ?case by (simp add: add.assoc)
qed simp

lemma countCorpus_ok:
  "matrixOk n 0 k m \<Longrightarrow> list_all (list_all (\<lambda>c. c < n)) corpus \<Longrightarrow>
   k + int (sum_list (map progPairs corpus)) < 2 ^ 31 \<Longrightarrow>
   \<exists>m'. countCorpus corpus m = Some m' \<and> matrixOk n 0 (k + int (sum_list (map progPairs corpus))) m'"
proof (induction corpus arbitrary: k m)
  case (Cons p ps)
  then obtain m1 where "countProg p m = Some m1" "matrixOk n 0 (k + int (progPairs p)) m1"
    using countProg_ok [of n k m p] by auto
  with Cons.IH [of "k + int (progPairs p)" m1] Cons.prems show ?case by (simp add: add.assoc)
qed simp

lemma matrixOk_mono: "matrixOk n lo hi m \<Longrightarrow> lo' \<le> lo \<Longrightarrow> hi \<le> hi' \<Longrightarrow> matrixOk n lo' hi' m"
  by (auto simp: matrixOk_def intro: rowOk_mono)

lemma calcDynamicPrio_ok:
  assumes "list_all (list_all (\<lambda>c. c < length (tgt_Syscalls target))) corpus"
    and "int (sum_list (map progPairs corpus)) \<le> prioLimit"
  shows "\<exists>m. calcDynamicPrio target corpus = Some m \<and> matrixOk (length (tgt_Syscalls target)) 10 1000 m"
proof -
  obtain m where "countCorpus corpus (zeroPrios (length (tgt_Syscalls target))) = Some m"
    "matrixOk (length (tgt_Syscalls target)) 0 (int (sum_list (map progPairs corpus))) m"
    using countCorpus_ok [OF matrixOk_zero assms(1)] assms(2) by (auto simp: prioLimit_def)
  then show ?thesis using assms(2) matrixOk_normalize matrixOk_mono by (fastforce simp: calcDynamicPrio_def)
qed

text \<open>Static priorities keep the range, and a call has 900 with itself.\<close>

definition selfOk :: "nat \<Rightarrow> int \<Rightarrow> prios \<Rightarrow> bool" where
  "selfOk n lo m \<longleftrightarrow> (\<forall>i < n. lo \<le> sint (m ! i ! i))"

lemma selfPrio_900: "sint selfPrio = 900"
  by (simp add: selfPrio_def prioHigh_def sint_div32)

lemma setSelf_ok:
  assumes "matrixOk n 10 1000 m"
  shows "matrixOk n 10 1000 (setSelf m)" and "selfOk n 900 (setSelf m)"
proof -
  have nth: "setSelf m ! i = (m ! i)[i := selfPrio]" if "i < length m" for i
    using that by (simp add: setSelf_def nth_enumerate_eq)
  have len: "length (setSelf m) = length m" by (simp add: setSelf_def)
  have row: "length (m ! i) = n \<and> rowOk 10 1000 (m ! i)" if "i < length m" for i
    using assms that by (simp add: matrixOk_def)
  show "matrixOk n 10 1000 (setSelf m)"
    using assms row by (auto simp: matrixOk_def len nth in_set_conv_nth selfPrio_900 intro!: rowOk_update)
  show "selfOk n 900 (setSelf m)"
    using assms row by (auto simp: selfOk_def matrixOk_def nth selfPrio_900)
qed

lemma scaleEntry:
  assumes "0 \<le> sint d" "sint d \<le> 1000" "10 \<le> sint p" "sint p \<le> 1000"
  shows "sint (div32 (d * p) prioHigh) = sint d * sint p div 1000"
    and "0 \<le> sint d * sint p div 1000" and "sint d * sint p div 1000 \<le> 1000"
    and "900 \<le> sint d \<Longrightarrow> 9 \<le> sint d * sint p div 1000"
proof -
  have nn: "0 \<le> sint d * sint p" using assms by simp
  have le: "sint d * sint p \<le> 1000 * 1000" using assms by (intro mult_mono) simp_all
  have "sint (d * p) = sint d * sint p" using nn le by (intro sint_mult32) simp_all
  then show "sint (div32 (d * p) prioHigh) = sint d * sint p div 1000"
    using nn by (subst sint_div32) simp_all
  show "0 \<le> sint d * sint p div 1000" using nn by simp
  show "sint d * sint p div 1000 \<le> 1000" using le by simp
  assume "900 \<le> sint d"
  then have "900 * 10 \<le> sint d * sint p" using assms by (intro mult_mono) simp_all
  then show "9 \<le> sint d * sint p div 1000" by simp
qed

lemma scale_ok:
  assumes "matrixOk n 10 1000 st" and "selfOk n 900 st" and "matrixOk n 10 1000 dy"
  shows "matrixOk n 0 1000 (map2 scaleRow st dy)" and "selfOk n 9 (map2 scaleRow st dy)"
proof -
  have rows: "length (st ! i) = n" "rowOk 10 1000 (st ! i)" "length (dy ! i) = n" "rowOk 10 1000 (dy ! i)" if "i < n" for i
    using assms(1,3) that by (simp_all add: matrixOk_def)
  have len: "length st = n" "length dy = n" using assms(1,3) by (simp_all add: matrixOk_def)
  have entry: "0 \<le> sint (st ! i ! j)" "sint (st ! i ! j) \<le> 1000" "10 \<le> sint (dy ! i ! j)" "sint (dy ! i ! j) \<le> 1000"
    if "i < n" "j < n" for i j
    using rowOk_nth [OF rows(2) [OF that(1)], of j] rowOk_nth [OF rows(4) [OF that(1)], of j] rows [OF that(1)] that by simp_all
  have "rowOk 0 1000 (scaleRow (st ! i) (dy ! i))" if "i < n" for i
    using rows(1,3) [OF that] scaleEntry [OF entry [OF that]]
    by (auto simp: rowOk_def scaleRow_def in_set_conv_nth)
  then show "matrixOk n 0 1000 (map2 scaleRow st dy)"
    using rows len by (auto simp: matrixOk_def in_set_conv_nth scaleRow_def)
  show "selfOk n 9 (map2 scaleRow st dy)"
    using assms(2) rows len scaleEntry [OF entry] by (simp add: selfOk_def scaleRow_def)
qed

lemma CalculatePriorities_ok:
  assumes "rawStatic tt aux target = Some raw" and "matrixOk (length (tgt_Syscalls target)) 0 prioLimit raw"
    and "list_all (list_all (\<lambda>c. c < length (tgt_Syscalls target))) corpus"
    and "int (sum_list (map progPairs corpus)) \<le> prioLimit"
  shows "\<exists>m. CalculatePriorities tt aux target corpus = Some m \<and>
    matrixOk (length (tgt_Syscalls target)) 0 1000 m \<and> selfOk (length (tgt_Syscalls target)) 9 m"
proof -
  let ?n = "length (tgt_Syscalls target)" and ?st = "setSelf (normalizePrio raw)"
  have st: "calcStaticPriorities tt aux target = Some ?st" by (simp add: calcStaticPriorities_def assms(1))
  note ok = setSelf_ok [OF matrixOk_normalize [OF assms(2)]]
  show ?thesis
  proof (cases "corpus = []")
    case True
    then show ?thesis
      using st ok matrixOk_mono [OF ok(1), of 0 1000] by (auto simp: CalculatePriorities_def selfOk_def)
  next
    case False
    obtain dy where "calcDynamicPrio target corpus = Some dy" "matrixOk ?n 10 1000 dy"
      using calcDynamicPrio_ok [OF assms(3,4)] by blast
    then show ?thesis using False st scale_ok [OF ok] by (simp add: CalculatePriorities_def)
  qed
qed

subsection \<open>The running sums\<close>

fun intSums :: "nat list \<Rightarrow> nat \<Rightarrow> int \<Rightarrow> int list \<Rightarrow> int list" where
  "intSums enabled j acc [] = []"
| "intSums enabled j acc (p # ps) =
     (let acc = (if j \<in> set enabled then acc + p else acc) in acc # intSums enabled (Suc j) acc ps)"

lemma runSums_int:
  "rowOk 0 1000 row \<Longrightarrow> 0 \<le> sint acc \<Longrightarrow> sint acc + 1000 * int (length row) < 2 ^ 31 \<Longrightarrow>
   map sint (runSums enabled j acc row) = intSums enabled j (sint acc) (map sint row)"
proof (induction enabled j acc row rule: runSums.induct)
  case (2 enabled j acc p ps)
  have "0 \<le> sint p" "sint p \<le> 1000" "rowOk 0 1000 ps" using "2.prems"(1) by (simp_all add: rowOk_def)
  moreover from this have "sint (acc + p) = sint acc + sint p" using "2.prems" by (subst sint_add32) simp_all
  ultimately show ?case using 2 by (auto simp: Let_def)
qed simp

lemma intSums_ge: "list_all (\<lambda>p. 0 \<le> p) ps \<Longrightarrow> x \<in> set (intSums enabled j acc ps) \<Longrightarrow> acc \<le> x"
  by (induction enabled j acc ps rule: intSums.induct) (force simp: Let_def split: if_splits)+

lemma intSums_sorted: "list_all (\<lambda>p. 0 \<le> p) ps \<Longrightarrow> sorted (intSums enabled j acc ps)"
  by (induction enabled j acc ps rule: intSums.induct) (auto simp: Let_def intSums_ge)

lemma intSums_length [simp]: "length (intSums enabled j acc ps) = length ps"
  by (induction enabled j acc ps rule: intSums.induct) (simp_all add: Let_def)

text \<open>The first sum that reaches a number above the start is at an enabled call of positive priority.\<close>

lemma intSums_first:
  "acc < x \<Longrightarrow> k < length ps \<Longrightarrow> x \<le> intSums enabled j acc ps ! k \<Longrightarrow>
   (\<And>i. i < k \<Longrightarrow> intSums enabled j acc ps ! i < x) \<Longrightarrow> j + k \<in> set enabled \<and> 0 < ps ! k"
proof (induction enabled j acc ps arbitrary: k rule: intSums.induct)
  case (2 enabled j acc p ps)
  let ?acc = "if j \<in> set enabled then acc + p else acc"
  show ?case
  proof (cases k)
    case 0
    then show ?thesis using "2.prems" by (auto simp: Let_def split: if_splits)
  next
    case (Suc k')
    have "?acc < x" using "2.prems"(4) [of 0] Suc by (simp add: Let_def)
    moreover have "intSums enabled (Suc j) ?acc ps ! i < x" if "i < k'" for i
      using "2.prems"(4) [of "Suc i"] that Suc by (simp add: Let_def)
    ultimately show ?thesis using "2.IH" [OF refl, of k'] "2.prems"(2,3) Suc by (simp add: Let_def)
  qed
qed simp

lemma intSums_nth_ge:
  "list_all (\<lambda>p. 0 \<le> p) ps \<Longrightarrow> k < length ps \<Longrightarrow> j + k \<in> set enabled \<Longrightarrow> acc + ps ! k \<le> intSums enabled j acc ps ! k"
proof (induction enabled j acc ps arbitrary: k rule: intSums.induct)
  case (2 enabled j acc p ps)
  then show ?case
  proof (cases k)
    case (Suc k')
    then show ?thesis using "2.IH" [OF refl, of k'] "2.prems" by (fastforce simp: Let_def)
  qed (simp add: Let_def)
qed simp

subsection \<open>The choice\<close>

lemma buildRuns_nth:
  "i < length prios \<Longrightarrow> buildRuns gen prios ! i = (if i \<in> set gen then Some (runSums gen 0 0 (prios ! i)) else None)"
  by (simp add: buildRuns_def nth_enumerate_eq)

lemma runSums_length [simp]: "length (runSums enabled j acc row) = length row"
  by (induction enabled j acc row rule: runSums.induct) (simp_all add: Let_def)

text \<open>What the binary search finds for a number up to the total.\<close>

lemma search_run:
  assumes "rowOk 0 1000 row" and "1000 * int (length row) < 2 ^ 31" and "run = runSums gen 0 0 row"
    and "row \<noteq> []" and "0 < x" and "x \<le> sint (last run)"
  shows "sortSearch (length run) (\<lambda>i. x \<le> sint (run ! i)) < length row"
    and "sortSearch (length run) (\<lambda>i. x \<le> sint (run ! i)) \<in> set gen"
    and "0 < sint (row ! sortSearch (length run) (\<lambda>i. x \<le> sint (run ! i)))"
proof -
  let ?f = "\<lambda>i. x \<le> sint (run ! i)" and ?is = "intSums gen 0 0 (map sint row)"
  let ?k = "sortSearch (length run) ?f"
  have len: "length run = length row" by (simp add: assms(3))
  have int: "map sint run = ?is" using runSums_int [of row 0 gen 0] assms(1-3) by simp
  have nth: "sint (run ! i) = ?is ! i" if "i < length row" for i
    using arg_cong [OF int, of "\<lambda>xs. xs ! i"] that len by simp
  have "sorted ?is" using assms(1) by (intro intSums_sorted) (auto simp: rowOk_def list_all_iff)
  then have mono: "?f b" if "a \<le> b" "b < length run" "?f a" for a b
    using that nth [of a] nth [of b] len sorted_nth_mono [of ?is a b] by simp
  have top: "?f (length run - 1)" using assms(4,6) len by (simp add: last_conv_nth flip: length_greater_0_conv)
  have least: "?k \<le> length run \<and> (\<forall>a < ?k. \<not> ?f a) \<and> (?k < length run \<longrightarrow> ?f ?k)"
    by (rule iffD1 [OF sortSearch_least refl]) (rule mono)
  have "?k \<noteq> length run"
  proof
    assume "?k = length run"
    then have "\<not> ?f (length run - 1)" using least assms(4) len by simp
    with top show False by simp
  qed
  with least have k: "?k < length row" "?f ?k" "\<forall>a < ?k. \<not> ?f a" using len by auto
  then have "0 + ?k \<in> set gen \<and> 0 < map sint row ! ?k"
    by (intro intSums_first [where x = x and acc = 0]) (use assms(5) nth in auto)
  with k(1) show "?k < length row" "?k \<in> set gen" "0 < sint (row ! ?k)" by simp_all
qed

lemma choose_biased:
  assumes m: "matrixOk n 0 1000 prios" "selfOk n 9 prios" and n: "1000 * int n < 2 ^ 31" and gen: "set gen \<subseteq> {..<n}"
    and ct: "ct_runs ct = buildRuns gen prios" and b: "b \<in> set gen"
  shows "\<exists>res r'. ct_choose ct r (int b) = Some (res, r') \<and> res \<in> set gen \<and> 0 < sint (prios ! b ! res)"
proof -
  let ?row = "prios ! b" and ?run = "runSums gen 0 0 (prios ! b)"
  have bn: "b < n" using b gen by auto
  have row: "rowOk 0 1000 ?row" "length ?row = n" "length prios = n" using m(1) bn by (auto simp: matrixOk_def)
  have run: "ct_runs ct ! b = Some ?run" "?run \<noteq> []" "length (ct_runs ct) = n"
    using buildRuns_nth [of b prios gen] b bn row by (auto simp: ct buildRuns_def simp flip: length_0_conv)
  have "map sint ?run = intSums gen 0 0 (map sint ?row)"
    using runSums_int [of ?row 0 gen 0] row n by simp
  moreover have nonneg: "list_all (\<lambda>p. 0 \<le> p) (map sint ?row)" using row(1) by (auto simp: rowOk_def list_all_iff)
  have "9 \<le> intSums gen 0 0 (map sint ?row) ! b"
    using intSums_nth_ge [OF nonneg, of b 0 gen 0] b bn row m(2) by (fastforce simp: selfOk_def)
  moreover have "intSums gen 0 0 (map sint ?row) ! b \<le> intSums gen 0 0 (map sint ?row) ! (n - 1)"
    using intSums_sorted [OF nonneg] bn row by (intro sorted_nth_mono) simp_all
  moreover have "sint (last ?run) = map sint ?run ! (n - 1)"
    using run(2) row(2) bn by (simp add: last_conv_nth)
  ultimately have total: "9 \<le> sint (last ?run)" by simp
  then obtain k r' where k: "Intn (nat (sint (last ?run))) r = Some (k, r')" "k < nat (sint (last ?run))"
    using Intn_total [of "nat (sint (last ?run))" r] by auto
  have "sint (last ?run) < 2 ^ 31" using sint_lt [of "last ?run"] by simp
  then have x: "sint (word_of_nat (k + 1) :: int32) = int k + 1"
    using k(2) sint32 [of "int k + 1"] by (simp add: add.commute)
  let ?res = "sortSearch (length ?run) (\<lambda>i. int k + 1 \<le> sint (?run ! i))"
  have ne: "?row \<noteq> []" using row(2) bn by auto
  have pre: "1000 * int (length ?row) < 2 ^ 31" "0 < int k + 1" "int k + 1 \<le> sint (last ?run)"
    using n k(2) row(2) by auto
  have res: "?res < n" "?res \<in> set gen" "0 < sint (?row ! ?res)"
    using search_run [where x = "int k + 1" and gen = gen, OF row(1) _ refl ne] pre row(2) by simp_all
  have "ct_Generatable ct b = Some True" "ct_Generatable ct ?res = Some True"
    using run bn res buildRuns_nth [of ?res prios gen] row(3) by (simp_all add: ct_Generatable_def ct)
  then show ?thesis using run k res x by (simp add: ct_choose_def)
qed

lemma choose_any:
  assumes "set (ct_calls ct) = set gen" and "gen \<noteq> []"
  shows "\<exists>b r'. b \<in> set gen \<and> ct_choose ct r (-1) = ct_choose ct r' (int b)"
proof -
  have "0 < length (ct_calls ct)" using assms by auto
  then obtain k r' where k: "Intn (length (ct_calls ct)) r = Some (k, r')" "k < length (ct_calls ct)"
    using Intn_total by blast
  then have "ct_choose ct r (-1) = ct_choose ct r' (int (ct_calls ct ! k))" by (simp add: ct_choose_def)
  then show ?thesis using k(2) assms(1) nth_mem by blast
qed


text \<open>Two calls that take the same list.\<close>

definition exTarget1 :: Target where
  "exTarget1 = exTarget0\<lparr>tgt_Syscalls := [exMeta0, exMeta0\<lparr>sys_ID := 1, sys_Name := ''g''\<rparr>]\<rparr>"

lemmas exWalk_simps = foreachTypeImpl_def callItems_def exTypes0_def exMeta0_def typeAt_def typeChildren_def enterFields_def
  Field_Dir_def Optional_def Name_def usageVisit_def ptrUsage_def Let_def walkTypes_visit walkTypes_Nil noteUsage_def

lemma exTarget1_usage:
  "calcResourceUsage exTypes0 [] exTarget1 =
     Some [(''ptrto-list'', [(0, \<lparr>wt_call = 0, wt_in = 10, wt_inout = 10\<rparr>), (1, \<lparr>wt_call = 1, wt_in = 10, wt_inout = 10\<rparr>)])]"
  by (simp add: calcResourceUsage_def exTarget1_def exTarget0_def exWalk_simps)

lemma exTarget1_raw: "rawStatic exTypes0 [] exTarget1 = Some [[0, 250], [250, 0]]"
  unfolding rawStatic_def exTarget1_usage
  by (simp add: exTarget1_def exTarget0_def zeroPrios_def addPrio_def pairWeight_def div32_def numeral_2_eq_2)


text \<open>
  C38. Normalization brings priorities between 0 and 2169175 into the range from 10 to 1000. Beyond that
  the product overflows: the count 2169176 becomes the priority -979.
\<close>

theorem normalizePrio_range:
  "(matrixOk n 0 prioLimit m \<longrightarrow> matrixOk n 10 1000 (normalizePrio m)) \<and>
   map (map sint) (normalizePrio [[word_of_int (prioLimit + 1)]]) = [[-979]]"
proof
  show "matrixOk n 0 prioLimit m \<longrightarrow> matrixOk n 10 1000 (normalizePrio m)" using matrixOk_normalize by blast
  show "map (map sint) (normalizePrio [[word_of_int (prioLimit + 1)]]) = [[-979]]"
    by (simp add: normalizePrio_def normalizeRow_def prioLimit_def prioLow_def prioHigh_def div32_def)
qed

theorem normalizePrio_range_witness:
  "matrixOk 2 10 1000 (normalizePrio [[0, 7], [2169175, 1]])"
proof -
  have "matrixOk 2 0 prioLimit [[0, 7], [2169175, 1]]" by (simp add: matrixOk_def rowOk_def prioLimit_def)
  then show ?thesis using normalizePrio_range by blast
qed

end
