(* ===== verification/Clone.thy ===== *)
theory Clone
  imports Foreach
begin

text \<open>
  Cloning of programs, \<^verbatim>\<open>prog/clone.go\<close>. New objects come from a counter: every address and identity from
  \<open>cl_next\<close> on is unused. \<open>cl_newargs\<close> is the map from result arguments to their clones, None for
  \<^verbatim>\<open>nil\<close>. A None result is a panic, here the use of a missing clone.

  The theorem says that a clone is a faithful copy: the links between result arguments are renamed, in
  both directions, and the original is left alone.
\<close>

record cloneState =
  cl_next :: nat
  cl_heap :: heap
  cl_newargs :: "(nat \<rightharpoonup> nat) option"

definition newId :: "cloneState \<Rightarrow> nat \<times> cloneState" where
  "newId s = (cl_next s, s\<lparr>cl_next := Suc (cl_next s)\<rparr>)"

definition noteUse :: "nat \<Rightarrow> nat \<Rightarrow> heap \<Rightarrow> heap option" where
  "noteUse q a1 h = map_option (\<lambda>r. h(q \<mapsto> r\<lparr>ro_uses := insert a1 (ro_uses r)\<rparr>)) (h q)"

text \<open>A result argument: its reference goes to the clone of the referent, which notes the use.\<close>

definition cloneResult :: "nat \<Rightarrow> cloneState \<Rightarrow> (nat \<times> cloneState) option" where
  "cloneResult p s = do {
     a \<leftarrow> cl_heap s p;
     let (a1, s) = newId s;
     res \<leftarrow>
       (case ro_Res a of
          None \<Rightarrow> Some None
        | Some r \<Rightarrow>
            (case cl_newargs s of
               None \<Rightarrow> Some (Some r)
             | Some m \<Rightarrow> map_option Some (m r)));
     h \<leftarrow> (case res of None \<Rightarrow> Some (cl_heap s) | Some r \<Rightarrow> noteUse r a1 (cl_heap s));
     let h = h(a1 \<mapsto> a\<lparr>ro_Res := res, ro_uses := {}\<rparr>);
     Some (a1, s\<lparr>cl_heap := h, cl_newargs := map_option (\<lambda>m. m(p \<mapsto> a1)) (cl_newargs s)\<rparr>)
   }"

fun clone :: "Arg \<Rightarrow> cloneState \<Rightarrow> (Arg \<times> cloneState) option"
  and cloneArgs :: "Arg list \<Rightarrow> cloneState \<Rightarrow> (Arg list \<times> cloneState) option"
where
  "clone (ConstArg c v) s = (let (i, s) = newId s in Some (ConstArg (c\<lparr>arg_id := i\<rparr>) v, s))"
| "clone (PointerArg c addr vma res) s =
     (let (i, s) = newId s in
      case res of
        None \<Rightarrow> Some (PointerArg (c\<lparr>arg_id := i\<rparr>) addr vma None, s)
      | Some a \<Rightarrow> do {
          (a1, s) \<leftarrow> clone a s;
          Some (PointerArg (c\<lparr>arg_id := i\<rparr>) addr vma (Some a1), s)
        })"
| "clone (DataArg c d osz) s = (let (i, s) = newId s in Some (DataArg (c\<lparr>arg_id := i\<rparr>) d osz, s))"
| "clone (GroupArg c inner) s =
     (let (i, s) = newId s in
      do {
        (inner1, s) \<leftarrow> cloneArgs inner s;
        Some (GroupArg (c\<lparr>arg_id := i\<rparr>) inner1, s)
      })"
| "clone (UnionArg c opt k) s =
     (let (i, s) = newId s in
      do {
        (opt1, s) \<leftarrow> clone opt s;
        Some (UnionArg (c\<lparr>arg_id := i\<rparr>) opt1 k, s)
      })"
| "clone (ResultArg p) s = do {
     (a1, s) \<leftarrow> cloneResult p s;
     Some (ResultArg a1, s)
   }"
| "cloneArgs [] s = Some ([], s)"
| "cloneArgs (a # as) s = do {
     (a1, s) \<leftarrow> clone a s;
     (as1, s) \<leftarrow> cloneArgs as s;
     Some (a1 # as1, s)
   }"

definition cloneCall :: "Call \<Rightarrow> cloneState \<Rightarrow> (Call \<times> cloneState) option" where
  "cloneCall c s = do {
     (ret, s) \<leftarrow>
       (case call_Ret c of
          None \<Rightarrow> Some (None, s)
        | Some p \<Rightarrow> do { (a1, s) \<leftarrow> cloneResult p s; Some (Some a1, s) });
     (args, s) \<leftarrow> cloneArgs (call_Args c) s;
     Some (\<lparr>call_Meta = call_Meta c, call_Args = args, call_Ret = ret, call_Props = call_Props c, call_Comment = []\<rparr>, s)
   }"

fun cloneCalls :: "Call list \<Rightarrow> cloneState \<Rightarrow> (Call list \<times> cloneState) option" where
  "cloneCalls [] s = Some ([], s)"
| "cloneCalls (c # cs) s = do {
     (c1, s) \<leftarrow> cloneCall c s;
     (cs1, s) \<leftarrow> cloneCalls cs s;
     Some (c1 # cs1, s)
   }"

definition Prog_Clone :: "Call list \<Rightarrow> nat \<Rightarrow> heap \<Rightarrow> (Call list \<times> cloneState) option" where
  "Prog_Clone calls nx h = cloneCalls calls \<lparr>cl_next = nx, cl_heap = h, cl_newargs = Some Map.empty\<rparr>"

subsection \<open>Well-formed programs\<close>

text \<open>The result arguments of a program, in the order in which they are cloned.\<close>

fun argResults :: "Arg \<Rightarrow> nat list" where
  "argResults (ConstArg c v) = []"
| "argResults (PointerArg c addr vma res) = (case res of None \<Rightarrow> [] | Some a \<Rightarrow> argResults a)"
| "argResults (DataArg c d osz) = []"
| "argResults (GroupArg c inner) = concat (map argResults inner)"
| "argResults (UnionArg c opt k) = argResults opt"
| "argResults (ResultArg p) = [p]"

definition callResults :: "Call \<Rightarrow> nat list" where
  "callResults c = (case call_Ret c of None \<Rightarrow> [] | Some p \<Rightarrow> [p]) @ concat (map argResults (call_Args c))"

definition progResults :: "Call list \<Rightarrow> nat list" where
  "progResults calls = concat (map callResults calls)"

definition resOf :: "heap \<Rightarrow> nat \<Rightarrow> nat option" where
  "resOf h p = Option.bind (h p) ro_Res"

text \<open>
  Each result argument occurs once, refers to an earlier one if at all, and its uses are exactly the
  result arguments of the program that refer to it.
\<close>

definition linksOk :: "heap \<Rightarrow> nat list \<Rightarrow> bool" where
  "linksOk h ps \<longleftrightarrow> distinct ps \<and> (\<forall>p \<in> set ps. h p \<noteq> None) \<and>
     (\<forall>i < length ps. \<forall>q. resOf h (ps ! i) = Some q \<longrightarrow> q \<in> set (take i ps))"

definition usesOk :: "heap \<Rightarrow> nat list \<Rightarrow> bool" where
  "usesOk h ps \<longleftrightarrow> (\<forall>p \<in> set ps. \<forall>a. h p = Some a \<longrightarrow> ro_uses a = {p' \<in> set ps. resOf h p' = Some p})"

definition freshFrom :: "nat \<Rightarrow> heap \<Rightarrow> bool" where
  "freshFrom n h \<longleftrightarrow> (\<forall>a \<ge> n. h a = None)"

definition progOk :: "nat \<Rightarrow> heap \<Rightarrow> Call list \<Rightarrow> bool" where
  "progOk n h calls \<longleftrightarrow> linksOk h (progResults calls) \<and> usesOk h (progResults calls) \<and> freshFrom n h"

subsection \<open>What has been cloned so far\<close>

text \<open>
  After the result arguments \<open>ps\<close>: the map has their clones, which are new and different; each clone is a
  copy with renamed reference and the uses among \<open>ps\<close>; below \<open>n\<close> nothing has changed.
\<close>

definition clonedObj :: "(nat \<rightharpoonup> nat) \<Rightarrow> heap \<Rightarrow> nat list \<Rightarrow> nat \<Rightarrow> ResultObj \<Rightarrow> ResultObj" where
  "clonedObj m h ps p a =
     a\<lparr>ro_Res := map_option (\<lambda>q. the (m q)) (ro_Res a), ro_uses := (\<lambda>p'. the (m p')) ` {p' \<in> set ps. resOf h p' = Some p}\<rparr>"

definition cloneInv :: "nat \<Rightarrow> heap \<Rightarrow> nat list \<Rightarrow> (nat \<rightharpoonup> nat) \<Rightarrow> cloneState \<Rightarrow> bool" where
  "cloneInv n h ps m s \<longleftrightarrow>
     cl_newargs s = Some m \<and> dom m = set ps \<and> inj_on m (set ps) \<and> n \<le> cl_next s \<and>
     (\<forall>p a. m p = Some a \<longrightarrow> n \<le> a \<and> a < cl_next s) \<and>
     (\<forall>a < n. cl_heap s a = h a) \<and> freshFrom (cl_next s) (cl_heap s) \<and>
     (\<forall>p a. p \<in> set ps \<longrightarrow> h p = Some a \<longrightarrow> cl_heap s (the (m p)) = Some (clonedObj m h ps p a))"

lemma cloneInv_obj:
  "cloneInv n h ps m s \<Longrightarrow> p \<in> set ps \<Longrightarrow> h p = Some a \<Longrightarrow> cl_heap s (the (m p)) = Some (clonedObj m h ps p a)"
  by (simp add: cloneInv_def)

lemma cloneInv_addr:
  assumes "cloneInv n h ps m s" and "p \<in> set ps"
  shows "n \<le> the (m p) \<and> the (m p) < cl_next s"
proof -
  have "p \<in> dom m" using assms by (simp add: cloneInv_def)
  then obtain a where "m p = Some a" by blast
  then show ?thesis using assms(1) by (simp add: cloneInv_def)
qed

lemma cloneInv_inj:
  assumes "cloneInv n h ps m s" and "p \<in> set ps" and "q \<in> set ps" and "the (m p) = the (m q)"
  shows "p = q"
proof -
  have dom: "p \<in> dom m" "q \<in> dom m" using assms by (simp_all add: cloneInv_def)
  then have "m p = m q" using assms(4) by auto
  moreover have "inj_on m (set ps)" using assms(1) by (simp add: cloneInv_def)
  ultimately show ?thesis using assms(2,3) by (simp add: inj_on_def)
qed

lemma cloneInv_newId: "cloneInv n h ps m s \<Longrightarrow> cloneInv n h ps m (s\<lparr>cl_next := Suc (cl_next s)\<rparr>)"
  by (auto simp: cloneInv_def freshFrom_def less_Suc_eq)

lemma linksOkD: "linksOk h ps \<Longrightarrow> i < length ps \<Longrightarrow> resOf h (ps ! i) = Some q \<Longrightarrow> q \<in> set (take i ps)"
  by (simp add: linksOk_def)

lemma resOf_prefix:
  assumes "linksOk h (ps @ p # qs)" and "resOf h p' = Some q" and "p' \<in> set ps"
  shows "q \<in> set ps"
proof -
  obtain i where i: "i < length ps" "ps ! i = p'" using assms(3) by (auto simp: in_set_conv_nth)
  then have "q \<in> set (take i (ps @ p # qs))"
    using linksOkD [OF assms(1), of i q] assms(2) by (simp add: nth_append)
  then show ?thesis using i(1) by (auto dest: in_set_takeD)
qed

lemma resOf_next: "linksOk h (ps @ p # qs) \<Longrightarrow> resOf h p = Some q \<Longrightarrow> q \<in> set ps"
  using linksOkD [of h "ps @ p # qs" "length ps" q] by simp

text \<open>One more result argument in the table changes a clone only if it refers to it.\<close>

lemma clonedObj_snoc:
  assumes "linksOk h (ps @ p # qs)" and "p' \<in> set ps" and "h p' = Some a"
  shows "clonedObj (m(p \<mapsto> a1)) h (ps @ [p]) p' a =
    (if resOf h p = Some p' then (clonedObj m h ps p' a)\<lparr>ro_uses := insert a1 (ro_uses (clonedObj m h ps p' a))\<rparr>
     else clonedObj m h ps p' a)"
proof -
  have p: "p \<notin> set ps" using assms(1) by (auto simp: linksOk_def)
  have "map_option (\<lambda>q. the ((m(p \<mapsto> a1)) q)) (ro_Res a) = map_option (\<lambda>q. the (m q)) (ro_Res a)"
    using resOf_prefix [OF assms(1) _ assms(2)] assms(3) p by (cases "ro_Res a") (auto simp: resOf_def)
  moreover have "(\<lambda>x. the ((m(p \<mapsto> a1)) x)) ` {x \<in> set ps. resOf h x = Some p'} = (\<lambda>x. the (m x)) ` {x \<in> set ps. resOf h x = Some p'}"
    using p by (intro image_cong) auto
  moreover have "{x \<in> set (ps @ [p]). resOf h x = Some p'} =
      (if resOf h p = Some p' then insert p {x \<in> set ps. resOf h x = Some p'} else {x \<in> set ps. resOf h x = Some p'})"
    by auto
  ultimately show ?thesis by (simp add: clonedObj_def)
qed

lemma clonedObj_last:
  assumes "linksOk h (ps @ p # qs)" and "h p = Some a"
  shows "clonedObj (m(p \<mapsto> a1)) h (ps @ [p]) p a = a\<lparr>ro_Res := map_option (\<lambda>q. the (m q)) (ro_Res a), ro_uses := {}\<rparr>"
proof -
  have p: "p \<notin> set ps" using assms(1) by (auto simp: linksOk_def)
  have "map_option (\<lambda>q. the ((m(p \<mapsto> a1)) q)) (ro_Res a) = map_option (\<lambda>q. the (m q)) (ro_Res a)"
    using resOf_next [OF assms(1)] assms(2) p by (cases "ro_Res a") (auto simp: resOf_def)
  moreover have "{x \<in> set (ps @ [p]). resOf h x = Some p} = {}"
    using resOf_next [OF assms(1)] resOf_prefix [OF assms(1)] p by auto
  ultimately show ?thesis by (simp only: clonedObj_def) simp
qed

text \<open>What cloning a result argument does to the heap.\<close>

lemma cloneResult_run:
  assumes inv: "cloneInv n h ps m s" and links: "linksOk h (ps @ p # qs)" and fresh: "freshFrom n h"
  obtains a h1 where "h p = Some a"
    and "cloneResult p s = Some (cl_next s, s\<lparr>cl_next := Suc (cl_next s),
      cl_heap := h1(cl_next s \<mapsto> a\<lparr>ro_Res := map_option (\<lambda>q. the (m q)) (ro_Res a), ro_uses := {}\<rparr>),
      cl_newargs := Some (m(p \<mapsto> cl_next s))\<rparr>)"
    and "ro_Res a = None \<longrightarrow> h1 = cl_heap s"
    and "\<forall>q. ro_Res a = Some q \<longrightarrow> q \<in> set ps \<and>
      (\<exists>b. cl_heap s (the (m q)) = Some b \<and> h1 = (cl_heap s)(the (m q) \<mapsto> b\<lparr>ro_uses := insert (cl_next s) (ro_uses b)\<rparr>))"
proof -
  obtain a where a: "h p = Some a" using links by (auto simp: linksOk_def)
  then have "p < n" using fresh by (metis freshFrom_def not_le option.distinct(1))
  then have ap: "cl_heap s p = Some a" using inv a by (simp add: cloneInv_def)
  have args: "cl_newargs s = Some m" using inv by (simp add: cloneInv_def)
  show ?thesis
  proof (cases "ro_Res a")
    case None
    then show ?thesis using that [OF a, of "cl_heap s"] ap args by (simp add: cloneResult_def newId_def)
  next
    case (Some q)
    then have q: "q \<in> set ps" using resOf_next [OF links] a by (simp add: resOf_def)
    then have "q \<in> dom m" using inv by (simp add: cloneInv_def)
    then obtain q1 where q1: "m q = Some q1" by blast
    have "h q \<noteq> None" using links q by (simp add: linksOk_def)
    then obtain aq where "h q = Some aq" by blast
    then have "cl_heap s q1 = Some (clonedObj m h ps q aq)" using cloneInv_obj [OF inv q] q1 by simp
    then show ?thesis
      using that [OF a, of "(cl_heap s)(q1 \<mapsto> (clonedObj m h ps q aq)\<lparr>ro_uses := insert (cl_next s) (ro_uses (clonedObj m h ps q aq))\<rparr>)"]
        ap args Some q q1 by (simp add: cloneResult_def newId_def noteUse_def)
  qed
qed

lemma cloneResult_ok:
  assumes inv: "cloneInv n h ps m s" and links: "linksOk h (ps @ p # qs)" and fresh: "freshFrom n h"
  shows "\<exists>a1 s'. cloneResult p s = Some (a1, s') \<and> cloneInv n h (ps @ [p]) (m(p \<mapsto> a1)) s'"
proof -
  let ?nx = "cl_next s" and ?m = "m(p \<mapsto> cl_next s)"
  obtain a h1 where a: "h p = Some a"
    and run: "cloneResult p s = Some (?nx, s\<lparr>cl_next := Suc ?nx,
      cl_heap := h1(?nx \<mapsto> a\<lparr>ro_Res := map_option (\<lambda>q. the (m q)) (ro_Res a), ro_uses := {}\<rparr>), cl_newargs := Some ?m\<rparr>)"
      (is "_ = Some (_, ?s)")
    and h1: "ro_Res a = None \<longrightarrow> h1 = cl_heap s"
      "\<forall>q. ro_Res a = Some q \<longrightarrow> q \<in> set ps \<and>
        (\<exists>b. cl_heap s (the (m q)) = Some b \<and> h1 = (cl_heap s)(the (m q) \<mapsto> b\<lparr>ro_uses := insert ?nx (ro_uses b)\<rparr>))"
    using cloneResult_run [OF assms] by blast
  have p: "p \<notin> set ps" using links by (auto simp: linksOk_def)
  note I = inv [unfolded cloneInv_def]
  note addr = cloneInv_addr [OF inv] and inj = cloneInv_inj [OF inv]
  have res: "resOf h p = ro_Res a" using a by (simp add: resOf_def)
  have old: "h1 c = cl_heap s c" if "\<forall>q. ro_Res a = Some q \<longrightarrow> c \<noteq> the (m q)" for c
    using h1 that by (cases "ro_Res a") auto
  have low: "h1 c = cl_heap s c" if "c < n \<or> ?nx \<le> c" for c
    using old [of c] h1(2) addr that by fastforce
  have obj: "h1 (the (m p')) = Some (clonedObj ?m h (ps @ [p]) p' a')" if p': "p' \<in> set ps" "h p' = Some a'" for p' a'
  proof (cases "ro_Res a = Some p'")
    case True
    then obtain b where "cl_heap s (the (m p')) = Some b"
      "h1 = (cl_heap s)(the (m p') \<mapsto> b\<lparr>ro_uses := insert ?nx (ro_uses b)\<rparr>)" using h1(2) by blast
    then show ?thesis using True cloneInv_obj [OF inv p'] clonedObj_snoc [OF links p', of m ?nx] by (simp add: res)
  next
    case False
    have "h1 (the (m p')) = cl_heap s (the (m p'))"
      using False h1(2) inj p'(1) by (intro old) blast
    then show ?thesis using False cloneInv_obj [OF inv p'] clonedObj_snoc [OF links p', of m ?nx] by (simp add: res)
  qed
  have mbound: "n \<le> c \<and> c < ?nx" if "m q = Some c" for q c using I that by blast
  have le: "n \<le> ?nx" using I by blast
  have bound: "n \<le> a' \<and> a' < Suc ?nx" if "?m p' = Some a'" for p' a'
    using that mbound [of p' a'] le by (cases "p' = p") auto
  have "cloneInv n h (ps @ [p]) ?m ?s"
    unfolding cloneInv_def
  proof (intro conjI allI impI)
    show "inj_on ?m (set (ps @ [p]))"
    proof (rule inj_onI)
      fix x y assume xy: "x \<in> set (ps @ [p])" "y \<in> set (ps @ [p])" "?m x = ?m y"
      have "m z \<noteq> Some ?nx" for z using I by blast
      moreover have "inj_on m (set ps)" using I by simp
      ultimately show "x = y" using xy by (cases "x = p"; cases "y = p") (auto simp: inj_on_def)
    qed
    show "freshFrom (cl_next ?s) (cl_heap ?s)" using I low by (simp add: freshFrom_def)
    show "n \<le> a'" and "a' < cl_next ?s" if "?m p' = Some a'" for p' a' using bound [OF that] by simp_all
    fix p' a' assume p': "p' \<in> set (ps @ [p])" "h p' = Some a'"
    show "cl_heap ?s (the (?m p')) = Some (clonedObj ?m h (ps @ [p]) p' a')"
    proof (cases "p' = p")
      case True
      then show ?thesis using clonedObj_last [OF links a, of m ?nx] p'(2) a by simp
    next
      case False
      then show ?thesis using obj p' addr [of p'] by simp
    qed
  qed (use I le low in auto)
  with run show ?thesis by blast
qed

subsection \<open>Arguments, calls and programs\<close>

text \<open>An argument without identities, with its result arguments renamed.\<close>

fun skel :: "(nat \<Rightarrow> nat) \<Rightarrow> Arg \<Rightarrow> Arg" where
  "skel f (ConstArg c v) = ConstArg (c\<lparr>arg_id := 0\<rparr>) v"
| "skel f (PointerArg c addr vma res) = PointerArg (c\<lparr>arg_id := 0\<rparr>) addr vma (map_option (skel f) res)"
| "skel f (DataArg c d osz) = DataArg (c\<lparr>arg_id := 0\<rparr>) d osz"
| "skel f (GroupArg c inner) = GroupArg (c\<lparr>arg_id := 0\<rparr>) (map (skel f) inner)"
| "skel f (UnionArg c opt k) = UnionArg (c\<lparr>arg_id := 0\<rparr>) (skel f opt) k"
| "skel f (ResultArg p) = ResultArg (f p)"

definition skelCall :: "(nat \<Rightarrow> nat) \<Rightarrow> Call \<Rightarrow> Call" where
  "skelCall f c = c\<lparr>call_Args := map (skel f) (call_Args c), call_Ret := map_option f (call_Ret c), call_Comment := []\<rparr>"

lemma skel_cong: "(\<And>p. p \<in> set (argResults a) \<Longrightarrow> f p = g p) \<Longrightarrow> skel f a = skel g a"
  by (induction a) (auto intro!: option.map_cong)

lemma skels_cong: "(\<And>p. p \<in> set (concat (map argResults as)) \<Longrightarrow> f p = g p) \<Longrightarrow> map (skel f) as = map (skel g) as"
  by (auto intro!: skel_cong)

definition nameOf :: "(nat \<rightharpoonup> nat) \<Rightarrow> nat \<Rightarrow> nat" where
  "nameOf m p = the (m p)"

lemma nameOf_le: "m \<subseteq>\<^sub>m m' \<Longrightarrow> p \<in> dom m \<Longrightarrow> nameOf m' p = nameOf m p"
  by (simp add: nameOf_def map_le_def)

text \<open>A cloning step: it clones the result arguments \<open>ps'\<close> of what it is given and agrees with the map.\<close>

definition clones ::
  "nat \<Rightarrow> heap \<Rightarrow> nat list \<Rightarrow> nat list \<Rightarrow> (nat \<rightharpoonup> nat) \<Rightarrow> ('a \<times> cloneState) option \<Rightarrow> ((nat \<rightharpoonup> nat) \<Rightarrow> 'a \<Rightarrow> bool) \<Rightarrow> bool" where
  "clones n h ps ps' m run same \<longleftrightarrow>
     (\<exists>x s' m'. run = Some (x, s') \<and> cloneInv n h (ps @ ps') m' s' \<and> m \<subseteq>\<^sub>m m' \<and> same m' x)"

lemma cloneResult_clones:
  assumes "cloneInv n h ps m s" and "linksOk h (ps @ [p] @ qs)" and "freshFrom n h"
  shows "clones n h ps [p] m (cloneResult p s) (\<lambda>m' a1. a1 = nameOf m' p)"
proof -
  have "p \<notin> dom m" using assms(1,2) by (auto simp: cloneInv_def linksOk_def)
  then have "m \<subseteq>\<^sub>m m(p \<mapsto> a1)" for a1 by (auto simp: map_le_def)
  moreover obtain a1 s' where "cloneResult p s = Some (a1, s')" "cloneInv n h (ps @ [p]) (m(p \<mapsto> a1)) s'"
    using cloneResult_ok [OF assms(1) _ assms(3), of p qs] assms(2) by auto
  ultimately show ?thesis unfolding clones_def nameOf_def by fastforce
qed

lemma clones_seq:
  assumes "clones n h ps ps1 m run1 same1"
    and "\<And>m1 x s1. run1 = Some (x, s1) \<Longrightarrow> cloneInv n h (ps @ ps1) m1 s1 \<Longrightarrow> clones n h (ps @ ps1) ps2 m1 (run2 x s1) (same2 x)"
    and "\<And>m1 m2 x y. same1 m1 x \<Longrightarrow> dom m1 = set (ps @ ps1) \<Longrightarrow> m1 \<subseteq>\<^sub>m m2 \<Longrightarrow> same2 x m2 y \<Longrightarrow> same m2 y"
  shows "clones n h ps (ps1 @ ps2) m (Option.bind run1 (\<lambda>(x, s). run2 x s)) same"
proof -
  obtain x s1 m1 where 1: "run1 = Some (x, s1)" "cloneInv n h (ps @ ps1) m1 s1" "m \<subseteq>\<^sub>m m1" "same1 m1 x"
    using assms(1) unfolding clones_def by blast
  obtain y s2 m2 where 2: "run2 x s1 = Some (y, s2)" "cloneInv n h ((ps @ ps1) @ ps2) m2 s2" "m1 \<subseteq>\<^sub>m m2" "same2 x m2 y"
    using assms(2) [OF 1(1,2)] unfolding clones_def by blast
  have "dom m1 = set (ps @ ps1)" using 1(2) by (simp add: cloneInv_def)
  then have "same m2 y" using assms(3) [OF 1(4) _ 2(3,4)] by blast
  moreover have "m \<subseteq>\<^sub>m m2" using 1(3) 2(3) by (rule map_le_trans)
  ultimately show ?thesis using 1(1) 2(1,2) unfolding clones_def by (intro exI [of _ y] exI [of _ s2] exI [of _ m2]) simp
qed

lemma clones_return: "cloneInv n h ps m s \<Longrightarrow> same m x \<Longrightarrow> clones n h ps [] m (Some (x, s)) same"
  unfolding clones_def by (intro exI [of _ x] exI [of _ s] exI [of _ m]) simp

lemma clones_map:
  assumes "clones n h ps ps' m run same" and "\<And>m' x. same m' x \<Longrightarrow> same' m' (g x)"
  shows "clones n h ps ps' m (Option.bind run (\<lambda>(x, s). Some (g x, s))) same'"
  using assms unfolding clones_def by fastforce

lemma clone_clones:
  fixes a :: Arg and as :: "Arg list"
  shows "cloneInv n h ps m s \<Longrightarrow> linksOk h (ps @ argResults a @ qs) \<Longrightarrow> freshFrom n h \<Longrightarrow>
      clones n h ps (argResults a) m (clone a s) (\<lambda>m' a1. skel (\<lambda>p. p) a1 = skel (nameOf m') a)"
    and "cloneInv n h ps m s \<Longrightarrow> linksOk h (ps @ concat (map argResults as) @ qs) \<Longrightarrow> freshFrom n h \<Longrightarrow>
      clones n h ps (concat (map argResults as)) m (cloneArgs as s) (\<lambda>m' as1. map (skel (\<lambda>p. p)) as1 = map (skel (nameOf m')) as)"
proof (induction a s and as s arbitrary: ps m qs and ps m qs rule: clone_cloneArgs.induct)
  case (1 c v s)
  then show ?case by (auto simp: newId_def intro!: clones_return cloneInv_newId)
next
  case (2 c addr vma res s)
  note inv = cloneInv_newId [OF 2(2)]
  show ?case
  proof (cases res)
    case None
    then show ?thesis using inv by (auto simp: newId_def intro!: clones_return)
  next
    case (Some a)
    have "clones n h ps (argResults a) m (clone a (s\<lparr>cl_next := Suc (cl_next s)\<rparr>)) (\<lambda>m' a1. skel (\<lambda>p. p) a1 = skel (nameOf m') a)"
      using 2(1) [OF _ refl Some inv, of "cl_next s" qs] 2(3,4) Some by (simp add: newId_def)
    then show ?thesis using Some by (auto simp: newId_def intro!: clones_map)
  qed
next
  case (3 c d osz s)
  then show ?case by (auto simp: newId_def intro!: clones_return cloneInv_newId)
next
  case (4 c inner s)
  have "clones n h ps (concat (map argResults inner)) m (cloneArgs inner (s\<lparr>cl_next := Suc (cl_next s)\<rparr>))
      (\<lambda>m' as1. map (skel (\<lambda>p. p)) as1 = map (skel (nameOf m')) inner)"
    using 4(1) [OF _ refl cloneInv_newId [OF 4(2)], of "cl_next s" qs] 4(3,4) by (simp add: newId_def)
  then show ?case by (auto simp: newId_def intro!: clones_map)
next
  case (5 c opt k s)
  have "clones n h ps (argResults opt) m (clone opt (s\<lparr>cl_next := Suc (cl_next s)\<rparr>)) (\<lambda>m' a1. skel (\<lambda>p. p) a1 = skel (nameOf m') opt)"
    using 5(1) [OF _ refl cloneInv_newId [OF 5(2)], of "cl_next s" qs] 5(3,4) by (simp add: newId_def)
  then show ?case by (auto simp: newId_def intro!: clones_map)
next
  case (6 p s)
  then show ?case using cloneResult_clones [of n h ps m s p qs] by (auto intro!: clones_map)
next
  case (7 s)
  then show ?case by (auto intro!: clones_return)
next
  case (8 a as s)
  show ?case
    unfolding cloneArgs.simps list.map concat.simps
  proof (rule clones_seq)
    show "clones n h ps (argResults a) m (clone a s) (\<lambda>m' a1. skel (\<lambda>p. p) a1 = skel (nameOf m') a)"
      using 8(1) [OF 8(3), of "concat (map argResults as) @ qs"] 8(4,5) by simp
    show "clones n h (ps @ argResults a) (concat (map argResults as)) m1
        (Option.bind (cloneArgs as s1) (\<lambda>(as1, s). Some (x # as1, s))) (\<lambda>m' y. \<exists>as1. y = x # as1 \<and> map (skel (\<lambda>p. p)) as1 = map (skel (nameOf m')) as)"
      if "clone a s = Some (x, s1)" and "cloneInv n h (ps @ argResults a) m1 s1" for m1 x s1
      using 8(2) [OF that(1) refl that(2), of qs] 8(4,5) by (auto intro!: clones_map)
  qed (auto intro!: skel_cong simp: nameOf_le)
qed

lemma cloneCall_clones:
  assumes "cloneInv n h ps m s" and "linksOk h (ps @ callResults c @ qs)" and "freshFrom n h"
  shows "clones n h ps (callResults c) m (cloneCall c s) (\<lambda>m' c1. skelCall (\<lambda>p. p) c1 = skelCall (nameOf m') c)"
  unfolding cloneCall_def callResults_def
proof (rule clones_seq)
  let ?rets = "case call_Ret c of None \<Rightarrow> [] | Some p \<Rightarrow> [p]"
  let ?args = "concat (map argResults (call_Args c))"
  have links: "linksOk h (ps @ ?rets @ ?args @ qs)" using assms(2) by (simp add: callResults_def)
  show "clones n h ps ?rets m
      (case call_Ret c of None \<Rightarrow> Some (None, s) | Some p \<Rightarrow> Option.bind (cloneResult p s) (\<lambda>(a1, s). Some (Some a1, s)))
      (\<lambda>m' ret. ret = map_option (nameOf m') (call_Ret c))"
    using assms(1,3) links cloneResult_clones [of n h ps m s _ "?args @ qs"]
    by (cases "call_Ret c") (auto intro!: clones_return clones_map)
  show "clones n h (ps @ ?rets) ?args m1
      (Option.bind (cloneArgs (call_Args c) s1) (\<lambda>(args, s). Some (\<lparr>call_Meta = call_Meta c, call_Args = args, call_Ret = ret,
        call_Props = call_Props c, call_Comment = []\<rparr>, s)))
      (\<lambda>m' c1. \<exists>args. c1 = \<lparr>call_Meta = call_Meta c, call_Args = args, call_Ret = ret, call_Props = call_Props c, call_Comment = []\<rparr>
        \<and> map (skel (\<lambda>p. p)) args = map (skel (nameOf m')) (call_Args c))"
    if "cloneInv n h (ps @ ?rets) m1 s1" for m1 ret s1
    using clone_clones(2) [OF that, of "call_Args c" qs] links assms(3) by (auto intro!: clones_map)
  show "skelCall (\<lambda>p. p) c1 = skelCall (nameOf m2) c"
    if "ret = map_option (nameOf m1) (call_Ret c)" "dom m1 = set (ps @ ?rets)" "m1 \<subseteq>\<^sub>m m2"
      "\<exists>args. c1 = \<lparr>call_Meta = call_Meta c, call_Args = args, call_Ret = ret, call_Props = call_Props c, call_Comment = []\<rparr>
        \<and> map (skel (\<lambda>p. p)) args = map (skel (nameOf m2)) (call_Args c)" for m1 m2 ret c1
    using that nameOf_le [OF that(3)] by (cases "call_Ret c") (auto simp: skelCall_def)
qed

lemma skelCall_cong:
  assumes "\<And>p. p \<in> set (callResults c) \<Longrightarrow> f p = g p"
  shows "skelCall f c = skelCall g c"
proof -
  have "map (skel f) (call_Args c) = map (skel g) (call_Args c)" using assms by (intro skels_cong) (simp add: callResults_def)
  moreover have "map_option f (call_Ret c) = map_option g (call_Ret c)"
    using assms by (cases "call_Ret c") (simp_all add: callResults_def)
  ultimately show ?thesis by (simp add: skelCall_def)
qed

lemma cloneCalls_clones:
  "cloneInv n h ps m s \<Longrightarrow> linksOk h (ps @ progResults calls @ qs) \<Longrightarrow> freshFrom n h \<Longrightarrow>
   clones n h ps (progResults calls) m (cloneCalls calls s)
     (\<lambda>m' calls1. map (skelCall (\<lambda>p. p)) calls1 = map (skelCall (nameOf m')) calls)"
proof (induction calls arbitrary: ps m s qs)
  case Nil
  then show ?case by (auto simp: progResults_def intro!: clones_return)
next
  case (Cons c calls)
  have results: "progResults (c # calls) = callResults c @ progResults calls" by (simp add: progResults_def)
  have links: "linksOk h (ps @ callResults c @ progResults calls @ qs)" using Cons.prems(2) by (simp add: results)
  show ?case
    unfolding cloneCalls.simps results
  proof (rule clones_seq)
    show "clones n h ps (callResults c) m (cloneCall c s) (\<lambda>m' c1. skelCall (\<lambda>p. p) c1 = skelCall (nameOf m') c)"
      using Cons.prems(1) links Cons.prems(3) by (rule cloneCall_clones)
    show "clones n h (ps @ callResults c) (progResults calls) m1
        (Option.bind (cloneCalls calls s1) (\<lambda>(cs1, s). Some (c1 # cs1, s)))
        (\<lambda>m' y. \<exists>cs1. y = c1 # cs1 \<and> map (skelCall (\<lambda>p. p)) cs1 = map (skelCall (nameOf m')) calls)"
      if "cloneInv n h (ps @ callResults c) m1 s1" for m1 c1 s1
      using Cons.IH [OF that, of qs] links Cons.prems(3) by (auto intro!: clones_map)
  qed (auto intro!: skelCall_cong simp: nameOf_le)
qed

text \<open>A renaming of a well-formed program is well-formed.\<close>

lemma argResults_skel: "argResults (skel f a) = map f (argResults a)"
  by (induction a) (auto simp: map_concat comp_def split: option.splits intro!: arg_cong [of _ _ concat])

lemma callResults_skel: "callResults (skelCall f c) = map f (callResults c)"
  by (auto simp: callResults_def skelCall_def map_concat comp_def argResults_skel split: option.splits)

lemma progResults_skel: "progResults (map (skelCall f) calls) = map f (progResults calls)"
  by (simp add: progResults_def map_concat comp_def callResults_skel)

lemma clone_names:
  assumes "map (skelCall (\<lambda>p. p)) calls1 = map (skelCall f) calls"
  shows "progResults calls1 = map f (progResults calls)"
  using arg_cong [OF assms, of progResults] by (simp add: progResults_skel)

lemma cloned_resOf:
  assumes inv: "cloneInv n h ps m s" and "p \<in> set ps" and "h p \<noteq> None"
  shows "resOf (cl_heap s) (nameOf m p) = map_option (nameOf m) (resOf h p)"
proof -
  obtain a where a: "h p = Some a" using assms(3) by blast
  then show ?thesis using cloneInv_obj [OF inv assms(2) a]
    by (cases "ro_Res a") (simp_all add: resOf_def nameOf_def clonedObj_def)
qed

lemma cloned_links:
  assumes inv: "cloneInv n h ps m s" and links: "linksOk h ps"
  shows "linksOk (cl_heap s) (map (nameOf m) ps)"
  unfolding linksOk_def
proof (intro conjI ballI allI impI)
  have live: "h p \<noteq> None" if "p \<in> set ps" for p using links that by (simp add: linksOk_def)
  show "distinct (map (nameOf m) ps)"
    using links cloneInv_inj [OF inv] by (auto simp: distinct_map linksOk_def inj_on_def nameOf_def)
  show "cl_heap s a \<noteq> None" if "a \<in> set (map (nameOf m) ps)" for a
    using that live cloneInv_obj [OF inv] by (fastforce simp: nameOf_def)
  fix i q assume i: "i < length (map (nameOf m) ps)" "resOf (cl_heap s) (map (nameOf m) ps ! i) = Some q"
  then have "map_option (nameOf m) (resOf h (ps ! i)) = Some q"
    using cloned_resOf [OF inv, of "ps ! i"] live by simp
  then obtain q0 where "resOf h (ps ! i) = Some q0" "q = nameOf m q0" by auto
  then show "q \<in> set (take i (map (nameOf m) ps))" using linksOkD [OF links, of i q0] i(1) by (simp add: take_map)
qed

lemma cloned_uses:
  assumes inv: "cloneInv n h ps m s" and links: "linksOk h ps"
  shows "usesOk (cl_heap s) (map (nameOf m) ps)"
  unfolding usesOk_def
proof (intro ballI allI impI)
  fix p1 a1 assume "p1 \<in> set (map (nameOf m) ps)" and a1: "cl_heap s p1 = Some a1"
  then obtain p where p: "p \<in> set ps" "p1 = nameOf m p" by auto
  have live: "h p \<noteq> None" if "p \<in> set ps" for p using links that by (simp add: linksOk_def)
  then obtain a where a: "h p = Some a" using p by blast
  have uses: "ro_uses a1 = nameOf m ` {p' \<in> set ps. resOf h p' = Some p}"
  proof -
    have "a1 = clonedObj m h ps p a" using cloneInv_obj [OF inv p(1) a] a1 p(2) by (simp add: nameOf_def)
    then show ?thesis by (simp add: nameOf_def [abs_def] clonedObj_def)
  qed
  have "(resOf (cl_heap s) (nameOf m p') = Some p1) = (resOf h p' = Some p)" if p': "p' \<in> set ps" for p'
  proof -
    obtain i where i: "i < length ps" "ps ! i = p'" using p' by (auto simp: in_set_conv_nth)
    have "q \<in> set ps" if q: "resOf h p' = Some q" for q
      using linksOkD [OF links i(1), of q] i(2) q by (auto dest: in_set_takeD)
    then show ?thesis
      using cloned_resOf [OF inv p' live [OF p']] cloneInv_inj [OF inv _ p(1)] p(2) by (auto simp: nameOf_def)
  qed
  then show "ro_uses a1 = {p' \<in> set (map (nameOf m) ps). resOf (cl_heap s) p' = Some p1}" using uses by auto
qed

text \<open>
  A copy of a program: there is a renaming \<open>f\<close> of result arguments, one to one and into objects that did not
  exist, under which the copy has the same calls, arguments and properties; each new result argument has
  its reference and its uses renamed; the copy is well-formed again, and no object of the original has
  changed.
\<close>

definition isCopy :: "nat \<Rightarrow> heap \<Rightarrow> Call list \<Rightarrow> (nat \<Rightarrow> nat) \<Rightarrow> Call list \<Rightarrow> cloneState \<Rightarrow> bool" where
  "isCopy n h calls f calls1 s \<longleftrightarrow>
     map (skelCall (\<lambda>p. p)) calls1 = map (skelCall f) calls
     \<and> inj_on f (set (progResults calls)) \<and> f ` set (progResults calls) \<subseteq> {n ..< cl_next s}
     \<and> (\<forall>p \<in> set (progResults calls). cl_heap s (f p) =
          map_option (\<lambda>a. a\<lparr>ro_Res := map_option f (ro_Res a), ro_uses := f ` ro_uses a\<rparr>) (h p))
     \<and> progOk (cl_next s) (cl_heap s) calls1
     \<and> (\<forall>a < n. cl_heap s a = h a)"

lemma Clone_isCopy:
  assumes "progOk n h calls"
  obtains calls1 s f where "Prog_Clone calls n h = Some (calls1, s)" and "isCopy n h calls f calls1 s"
proof -
  let ?ps = "progResults calls"
  have ok: "linksOk h ?ps" "usesOk h ?ps" "freshFrom n h" using assms by (simp_all add: progOk_def)
  have start: "cloneInv n h [] Map.empty \<lparr>cl_next = n, cl_heap = h, cl_newargs = Some Map.empty\<rparr>"
    using ok(3) by (simp add: cloneInv_def)
  obtain calls1 s m where run: "Prog_Clone calls n h = Some (calls1, s)" and inv: "cloneInv n h ?ps m s"
    and same: "map (skelCall (\<lambda>p. p)) calls1 = map (skelCall (nameOf m)) calls"
    using cloneCalls_clones [OF start, of calls "[]"] ok(1,3) unfolding clones_def Prog_Clone_def by auto
  have "inj_on (nameOf m) (set ?ps)" using cloneInv_inj [OF inv] by (auto simp: inj_on_def nameOf_def)
  moreover have "nameOf m ` set ?ps \<subseteq> {n ..< cl_next s}" using cloneInv_addr [OF inv] by (auto simp: nameOf_def)
  moreover have "\<forall>p \<in> set ?ps. cl_heap s (nameOf m p) =
      map_option (\<lambda>a. a\<lparr>ro_Res := map_option (nameOf m) (ro_Res a), ro_uses := nameOf m ` ro_uses a\<rparr>) (h p)"
  proof
    fix p assume p: "p \<in> set ?ps"
    then obtain a where a: "h p = Some a" using ok(1) by (auto simp: linksOk_def)
    have "ro_uses a = {p' \<in> set ?ps. resOf h p' = Some p}" using ok(2) p a by (simp add: usesOk_def)
    then show "cl_heap s (nameOf m p) =
        map_option (\<lambda>a. a\<lparr>ro_Res := map_option (nameOf m) (ro_Res a), ro_uses := nameOf m ` ro_uses a\<rparr>) (h p)"
      using cloneInv_obj [OF inv p a] a by (simp add: clonedObj_def nameOf_def [abs_def])
  qed
  moreover have "progOk (cl_next s) (cl_heap s) calls1"
    using cloned_links [OF inv ok(1)] cloned_uses [OF inv ok(1)] inv clone_names [OF same]
    by (simp add: progOk_def cloneInv_def)
  moreover have "\<forall>a < n. cl_heap s a = h a" using inv by (simp add: cloneInv_def)
  ultimately have "isCopy n h calls (nameOf m) calls1 s" using same unfolding isCopy_def by blast
  then show ?thesis using that run by blast
qed

text \<open>What the users of \<^verbatim>\<open>Clone\<close> rely on.\<close>

locale copier =
  fixes copy :: "Call list \<Rightarrow> nat \<Rightarrow> heap \<Rightarrow> (Call list \<times> cloneState) option"
  assumes copies: "progOk n h calls \<Longrightarrow> \<exists>calls1 s f. copy calls n h = Some (calls1, s) \<and> isCopy n h calls f calls1 s"

interpretation cp: copier Prog_Clone
  by unfold_locales (rule Clone_isCopy, assumption, blast)

text \<open>
  C39. The clone of a well-formed program is a faithful copy. It never panics; there is a renaming of result
  arguments, one to one and into objects that did not exist, under which the clone has the same calls,
  arguments and properties; each new result argument has its reference and its uses renamed; the clone
  is well-formed again, and no object of the original has changed.
\<close>

theorem Clone_faithful:
  assumes "progOk n h calls"
  shows "\<exists>calls1 s f. Prog_Clone calls n h = Some (calls1, s)
    \<and> map (skelCall (\<lambda>p. p)) calls1 = map (skelCall f) calls
    \<and> inj_on f (set (progResults calls)) \<and> f ` set (progResults calls) \<subseteq> {n ..< cl_next s}
    \<and> (\<forall>p \<in> set (progResults calls). cl_heap s (f p) =
          map_option (\<lambda>a. a\<lparr>ro_Res := map_option f (ro_Res a), ro_uses := f ` ro_uses a\<rparr>) (h p))
    \<and> progOk (cl_next s) (cl_heap s) calls1
    \<and> (\<forall>a < n. cl_heap s a = h a)"
  using cp.copies [OF assms] unfolding isCopy_def .

text \<open>A call that returns a descriptor, and one that takes it.\<close>

definition exObj :: "Dir \<Rightarrow> nat option \<Rightarrow> nat set \<Rightarrow> ResultObj" where
  "exObj dir res us = \<lparr>ro_ref = 0, ro_dir = dir, ro_Res = res, ro_OpDiv = 0, ro_OpAdd = 0, ro_Val = 0, ro_uses = us\<rparr>"

definition exHeap :: heap where
  "exHeap = [0 \<mapsto> exObj DirOut None {1}, 1 \<mapsto> exObj DirIn (Some 0) {}]"

definition exOpen :: "Syscall \<Rightarrow> CallProps \<Rightarrow> Call" where
  "exOpen meta props = \<lparr>call_Meta = meta, call_Args = [], call_Ret = Some 0, call_Props = props, call_Comment = ''open''\<rparr>"

definition exRead :: "Syscall \<Rightarrow> CallProps \<Rightarrow> Call" where
  "exRead meta props = \<lparr>call_Meta = meta, call_Args = [ResultArg 1], call_Ret = None, call_Props = props, call_Comment = []\<rparr>"

lemma exProg_ok: "progOk 2 exHeap [exOpen m1 p1, exRead m2 p2]"
  by (auto simp: progOk_def linksOk_def usesOk_def freshFrom_def progResults_def callResults_def exOpen_def exRead_def
      exHeap_def exObj_def resOf_def less_Suc_eq nth_Cons split: nat.splits if_splits)

theorem Clone_faithful_witness:
  "\<forall>meta props. progOk 2 exHeap [exOpen meta props, exRead meta props] \<and>
     (\<exists>calls1 s. Prog_Clone [exOpen meta props, exRead meta props] 2 exHeap = Some (calls1, s) \<and>
        progOk (cl_next s) (cl_heap s) calls1)"
proof -
  have ok: "progOk 2 exHeap [exOpen meta props, exRead meta props]" for meta props by (rule exProg_ok)
  show ?thesis using Clone_faithful [OF ok] ok by meson
qed

end
