(* ===== verification/Collide.thy ===== *)
theory Collide
  imports Clone "HOL-Library.Multiset"
begin

text \<open>
  Transformations that run calls of a program at the same time, \<^verbatim>\<open>prog/collide.go\<close>. A set of result
  arguments is a set of addresses, with None for \<^verbatim>\<open>nil\<close>; a \<^verbatim>\<open>nil\<close> map is None, and writing to it
  panics.
\<close>

definition maxAsyncPerProg :: nat where "maxAsyncPerProg = 24"
definition MaxCalls :: nat where "MaxCalls = 40"

type_synonym resultSet = "nat option set"

definition setAsync :: "bool \<Rightarrow> Call \<Rightarrow> Call" where
  "setAsync b c = c\<lparr>call_Props := (call_Props c)\<lparr>cp_Async := b\<rparr>\<rparr>"

definition isAsync :: "Call \<Rightarrow> bool" where
  "isAsync c = cp_Async (call_Props c)"

definition asyncVisit :: "heap \<Rightarrow> resultSet option \<Rightarrow> Arg \<Rightarrow> ArgCtx \<Rightarrow> bool \<times> resultSet \<Rightarrow> (bool \<times> resultSet) option" where
  "asyncVisit h unassigned arg ctx st =
     (case arg of
        ResultArg p \<Rightarrow> do {
          res \<leftarrow> h p;
          let (producesUnassigned, consumes) = st;
          Some (producesUnassigned \<or> ro_dir res \<noteq> DirIn \<and> (case unassigned of None \<Rightarrow> False | Some u \<Rightarrow> Some p \<in> u),
                if ro_dir res \<noteq> DirOut then insert (ro_Res res) consumes else consumes)
        }
      | _ \<Rightarrow> Some st)"

definition addAll :: "resultSet \<Rightarrow> resultSet option \<Rightarrow> resultSet option option" where
  "addAll consumes unassigned =
     (case unassigned of
        None \<Rightarrow> if consumes = {} then Some None else None
      | Some u \<Rightarrow> Some (Some (u \<union> consumes)))"

text \<open>The loop from the last call to the first; the first argument is \<^verbatim>\<open>i+1\<close>.\<close>

fun asyncLoop :: "nat \<Rightarrow> Type list \<Rightarrow> heap \<Rightarrow> nat \<Rightarrow> resultSet option \<Rightarrow> rng \<Rightarrow> Call list \<Rightarrow> (Call list \<times> rng) option" where
  "asyncLoop 0 tt h leftAsync unassigned r calls = Some (calls, r)"
| "asyncLoop (Suc i) tt h leftAsync unassigned r calls =
     (if leftAsync = 0 then Some (calls, r)
      else do {
        let call = calls ! i;
        (producesUnassigned, consumes) \<leftarrow>
          ForeachArg tt (\<lambda>_. argSize tt h) (always (asyncVisit h unassigned)) call (False, {});
        (k, r) \<leftarrow> (if \<not> producesUnassigned \<and> i + 1 \<noteq> length calls then Intn 3 r else Some (0, r));
        if k \<noteq> 0 then do {
          unassigned \<leftarrow> addAll consumes unassigned;
          asyncLoop i tt h (leftAsync - 1) unassigned r (calls[i := setAsync True call])
        } else asyncLoop i tt h leftAsync (Some consumes) r (calls[i := setAsync False call])
      })"

definition AssignRandomAsync :: "Type list \<Rightarrow> Call list \<Rightarrow> nat \<Rightarrow> heap \<Rightarrow> rng \<Rightarrow> (Call list \<times> cloneState \<times> rng) option" where
  "AssignRandomAsync tt origProg nx h r = do {
     (calls, s) \<leftarrow> Prog_Clone origProg nx h;
     (calls, r) \<leftarrow> asyncLoop (length calls) tt (cl_heap s) maxAsyncPerProg None r calls;
     Some (calls, s, r)
   }"

definition rerunSteps :: "int list" where "rerunSteps = [32, 64]"

definition setRerun :: "int \<Rightarrow> Call \<Rightarrow> Call" where
  "setRerun k c = c\<lparr>call_Props := (call_Props c)\<lparr>cp_Rerun := k\<rparr>\<rparr>"

fun AssignRandomRerun :: "Call list \<Rightarrow> rng \<Rightarrow> (Call list \<times> rng) option" where
  "AssignRandomRerun (c0 # c1 # cs) r = do {
     (k, r) \<leftarrow> (if \<not> isAsync c0 then Some (1, r) else Intn 4 r);
     if k \<noteq> 0 then do { (cs, r) \<leftarrow> AssignRandomRerun (c1 # cs) r; Some (c0 # cs, r) }
     else do {
       (k, r) \<leftarrow> Intn (length rerunSteps) r;
       let rerun = rerunSteps ! k;
       (cs, r) \<leftarrow> AssignRandomRerun cs r;
       Some (setRerun rerun c0 # setRerun rerun c1 # cs, r)
     }
   }"
| "AssignRandomRerun cs r = Some (cs, r)"

text \<open>
  The duplicates refer to the result arguments of the first part: they are cloned without a map. An
  error is Inl.
\<close>

datatype collideError = TooBig | TooSmall | NoDuplicates

fun asyncPrefix :: "nat \<Rightarrow> Call list \<Rightarrow> Call list" where
  "asyncPrefix leftAsync [] = []"
| "asyncPrefix leftAsync (c # cs) = (if leftAsync = 0 then c # cs else setAsync True c # asyncPrefix (leftAsync - 1) cs)"

definition DoubleExecCollide :: "Call list \<Rightarrow> nat \<Rightarrow> heap \<Rightarrow> (collideError + (Call list \<times> cloneState)) option" where
  "DoubleExecCollide origProg nx h =
     (if length origProg * 2 > MaxCalls then Some (Inl TooBig)
      else do {
        (calls, s) \<leftarrow> Prog_Clone origProg nx h;
        (dupCalls, s) \<leftarrow> cloneCalls calls (s\<lparr>cl_newargs := None\<rparr>);
        Some (Inr (calls @ asyncPrefix maxAsyncPerProg dupCalls, s))
      })"

text \<open>\<^verbatim>\<open>rand.Perm\<close>: element \<open>i\<close> is put at a random place up to \<open>i\<close>, and what was there goes to \<open>i\<close>.\<close>

fun permLoop :: "nat \<Rightarrow> nat \<Rightarrow> nat list \<Rightarrow> rng \<Rightarrow> (nat list \<times> rng) option" where
  "permLoop 0 i m r = Some (m, r)"
| "permLoop (Suc n) i m r = do {
     (j, r) \<leftarrow> Intn (i + 1) r;
     permLoop n (Suc i) ((m @ [if j = i then i else m ! j])[j := i]) r
   }"

definition Perm :: "nat \<Rightarrow> rng \<Rightarrow> (nat list \<times> rng) option" where
  "Perm n r = permLoop n 0 [] r"

definition numDuplicates :: "nat \<Rightarrow> int" where
  "numDuplicates n =
     (let k = n div 3;
          k = (if k = 0 then 1 else k);
          k = (if k > maxAsyncPerProg then maxAsyncPerProg else k)
      in if k + n > MaxCalls then int MaxCalls - int n else int k)"

fun dupCalls :: "nat set \<Rightarrow> nat \<Rightarrow> Call list \<Rightarrow> cloneState \<Rightarrow> (Call list \<times> cloneState) option" where
  "dupCalls duplicate i [] s = Some ([], s)"
| "dupCalls duplicate i (c # cs) s = do {
     (dup, s) \<leftarrow>
       (if i \<in> duplicate then do { (c1, s) \<leftarrow> cloneCall c s; Some ([setAsync True c1], s) } else Some ([], s));
     (cs, s) \<leftarrow> dupCalls duplicate (Suc i) cs s;
     Some (dup @ c # cs, s)
   }"

definition DupCallCollide ::
  "Call list \<Rightarrow> nat \<Rightarrow> heap \<Rightarrow> rng \<Rightarrow> (collideError + (Call list \<times> cloneState \<times> rng)) option" where
  "DupCallCollide origProg nx h r =
     (if length origProg < 2 then Some (Inl TooSmall)
      else
        let k = numDuplicates (length origProg) in
        if k = 0 then Some (Inl NoDuplicates)
        else if k < 0 then None
        else do {
          (perm, r) \<leftarrow> Perm (length origProg) r;
          (calls, s) \<leftarrow> Prog_Clone origProg nx h;
          (calls, s) \<leftarrow> dupCalls (set (take (nat k) perm)) 0 calls (s\<lparr>cl_newargs := None\<rparr>);
          Some (Inr (calls, s, r))
        })"

subsection \<open>The result arguments that a call produces and consumes\<close>

definition produces :: "heap \<Rightarrow> Call \<Rightarrow> nat set" where
  "produces h c = {p \<in> set (callResults c). \<exists>res. h p = Some res \<and> ro_dir res \<noteq> DirIn}"

definition consumesOf :: "heap \<Rightarrow> Call \<Rightarrow> resultSet" where
  "consumesOf h c = {ro_Res res | res. \<exists>q \<in> set (callResults c). h q = Some res \<and> ro_dir res \<noteq> DirOut}"

definition visitResults :: "(Arg \<times> ArgCtx) list \<Rightarrow> nat list" where
  "visitResults vs = concat (map (\<lambda>(a, _). case a of ResultArg p \<Rightarrow> [p] | _ \<Rightarrow> []) vs)"

lemma visitResults_simps [simp]:
  "visitResults [] = []" "visitResults ((ResultArg p, ctx) # vs) = p # visitResults vs"
  "visitResults ((ConstArg c v, ctx) # vs) = visitResults vs" "visitResults ((DataArg c d sz, ctx) # vs) = visitResults vs"
  "visitResults ((PointerArg c addr vma res, ctx) # vs) = visitResults vs"
  "visitResults ((GroupArg c inner, ctx) # vs) = visitResults vs"
  "visitResults ((UnionArg c opt k, ctx) # vs) = visitResults vs"
  "visitResults (vs @ ws) = visitResults vs @ visitResults ws"
  by (simp_all add: visitResults_def)

lemma visits_results:
  "visits tt sz a ctx = Some vs \<Longrightarrow> visitResults vs = argResults a"
  "visitsInner tt sz i overlay off0 as ctx = Some vs \<Longrightarrow> visitResults vs = concat (map argResults as)"
  by (induction tt sz a ctx and tt sz i overlay off0 as ctx arbitrary: vs and vs rule: visits_visitsInner.induct)
    (auto simp: Let_def split: bind_splits option.splits)

lemma visitsTop_results: "visitsTop tt sz as ctx = Some vs \<Longrightarrow> visitResults vs = concat (map argResults as)"
  by (induction as arbitrary: vs) (auto simp: visits_results(1) split: bind_splits)

lemma callVisits_results: "callVisits tt sz c = Some vs \<Longrightarrow> visitResults vs = callResults c"
  by (auto simp: callVisits_def callResults_def visitsTop_results split: bind_splits option.splits)

lemma asyncVisit_run:
  assumes "\<forall>p \<in> set (visitResults vs). h p \<noteq> None"
  shows "runVisits (asyncVisit h un) vs (b, cs) = Some
    (b \<or> (\<exists>p \<in> set (visitResults vs). (\<exists>res. h p = Some res \<and> ro_dir res \<noteq> DirIn) \<and> (\<exists>u. un = Some u \<and> Some p \<in> u)),
     cs \<union> {ro_Res res | res. \<exists>q \<in> set (visitResults vs). h q = Some res \<and> ro_dir res \<noteq> DirOut})"
  using assms
proof (induction vs arbitrary: b cs)
  case (Cons v vs)
  obtain a ctx where v: "v = (a, ctx)" by (cases v)
  show ?case
  proof (cases a)
    case (ResultArg p)
    then obtain res where res: "h p = Some res" using Cons.prems v by auto
    show ?thesis
      using Cons.IH [of "b \<or> ro_dir res \<noteq> DirIn \<and> (case un of None \<Rightarrow> False | Some u \<Rightarrow> Some p \<in> u)"
          "if ro_dir res \<noteq> DirOut then insert (ro_Res res) cs else cs"] Cons.prems res
      by (simp add: v ResultArg asyncVisit_def) (auto split: option.splits)
  qed (use Cons in \<open>auto simp: v asyncVisit_def\<close>)
qed simp

lemma asyncVisit_call:
  assumes "callVisits tt (argSize tt h) c \<noteq> None" and "\<forall>p \<in> set (callResults c). h p \<noteq> None"
  shows "ForeachArg tt (\<lambda>_. argSize tt h) (always (asyncVisit h un)) c (False, {}) =
    Some (\<exists>p \<in> produces h c. \<exists>u. un = Some u \<and> Some p \<in> u, consumesOf h c)"
proof -
  obtain vs where vs: "callVisits tt (argSize tt h) c = Some vs" using assms(1) by blast
  have "visitResults vs = callResults c" using vs by (rule callVisits_results)
  then show ?thesis
    using asyncVisit_run [of vs h un False "{}"] assms(2) vs
    by (auto simp: ForeachArg_visits produces_def consumesOf_def)
qed

subsection \<open>Asynchronous calls\<close>

lemma setAsync_simps [simp]:
  "isAsync (setAsync b c) = b" "callResults (setAsync b c) = callResults c"
  "produces h (setAsync b c) = produces h c" "consumesOf h (setAsync b c) = consumesOf h c"
  "callVisits tt sz (setAsync b c) = callVisits tt sz c" "setAsync b' (setAsync b c) = setAsync b' c"
  by (simp_all add: isAsync_def setAsync_def callResults_def produces_def consumesOf_def callVisits_def)

lemma setAsync_same [simp]: "setAsync (isAsync c) c = c"
  by (simp add: isAsync_def setAsync_def)

lemma setAsync_False: "\<not> isAsync c \<Longrightarrow> setAsync False c = c"
  using setAsync_same [of c] by simp

text \<open>
  An asynchronous call from \<open>i\<close> on is separated by one that is not from every later call that consumes what
  it produces.
\<close>

definition spacedFrom :: "nat \<Rightarrow> heap \<Rightarrow> Call list \<Rightarrow> bool" where
  "spacedFrom i h calls \<longleftrightarrow>
     (\<forall>k m p. i \<le> k \<longrightarrow> k < m \<longrightarrow> m < length calls \<longrightarrow> isAsync (calls ! k) \<longrightarrow> p \<in> produces h (calls ! k) \<longrightarrow>
        Some p \<in> consumesOf h (calls ! m) \<longrightarrow> (\<exists>j. k < j \<and> j < m \<and> \<not> isAsync (calls ! j)))"

text \<open>What \<^verbatim>\<open>unassigned\<close> holds: all that is consumed up to the next call that is not asynchronous.\<close>

definition pendingIn :: "nat \<Rightarrow> heap \<Rightarrow> Call list \<Rightarrow> resultSet option \<Rightarrow> bool" where
  "pendingIn i h calls un \<longleftrightarrow>
     (case un of
        None \<Rightarrow> i = length calls
      | Some u \<Rightarrow>
          \<forall>m. i \<le> m \<longrightarrow> m < length calls \<longrightarrow> (\<forall>j. i \<le> j \<longrightarrow> j < m \<longrightarrow> isAsync (calls ! j)) \<longrightarrow> consumesOf h (calls ! m) \<subseteq> u)"

definition numAsync :: "Call list \<Rightarrow> nat" where
  "numAsync calls = length (filter isAsync calls)"

definition asyncInv :: "nat \<Rightarrow> heap \<Rightarrow> nat \<Rightarrow> resultSet option \<Rightarrow> Call list \<Rightarrow> bool" where
  "asyncInv i h leftAsync un calls \<longleftrightarrow>
     i \<le> length calls \<and> spacedFrom i h calls \<and> pendingIn i h calls un \<and> (\<forall>k < i. \<not> isAsync (calls ! k)) \<and>
     numAsync calls + leftAsync = maxAsyncPerProg \<and> (calls \<noteq> [] \<longrightarrow> \<not> isAsync (last calls))"

lemma numAsync_update:
  assumes "i < length calls" and "\<not> isAsync (calls ! i)"
  shows "numAsync (calls[i := setAsync True c]) = Suc (numAsync calls)"
proof -
  have "numAsync calls = numAsync (take i calls @ calls ! i # drop (Suc i) calls)"
    using assms(1) by (simp add: id_take_nth_drop [symmetric])
  then show ?thesis using assms by (simp add: numAsync_def upd_conv_take_nth_drop)
qed

lemma asyncInv_sync:
  assumes inv: "asyncInv (Suc i) h leftAsync un calls"
  shows "asyncInv i h leftAsync (Some (consumesOf h (calls ! i))) calls"
proof -
  have i: "i < length calls" "\<not> isAsync (calls ! i)" using inv by (simp_all add: asyncInv_def)
  have "spacedFrom i h calls"
    unfolding spacedFrom_def
  proof (intro allI impI)
    fix k m p
    assume k: "i \<le> k" "k < m" "m < length calls" "isAsync (calls ! k)" "p \<in> produces h (calls ! k)" "Some p \<in> consumesOf h (calls ! m)"
    then have "Suc i \<le> k" using i(2) by (metis Suc_leI le_neq_implies_less)
    then show "\<exists>j > k. j < m \<and> \<not> isAsync (calls ! j)" using inv k unfolding asyncInv_def spacedFrom_def by blast
  qed
  moreover have "pendingIn i h calls (Some (consumesOf h (calls ! i)))"
    unfolding pendingIn_def option.case
  proof (intro allI impI)
    fix m assume m: "i \<le> m" "\<forall>j. i \<le> j \<longrightarrow> j < m \<longrightarrow> isAsync (calls ! j)"
    then have "m = i" using i(2) by (metis le_neq_implies_less le_refl)
    then show "consumesOf h (calls ! m) \<subseteq> consumesOf h (calls ! i)" by simp
  qed
  ultimately show ?thesis using inv by (simp add: asyncInv_def)
qed

lemma asyncInv_async:
  assumes inv: "asyncInv (Suc i) h leftAsync (Some u) calls" and left: "0 < leftAsync" and last: "Suc i \<noteq> length calls"
    and free: "\<forall>p \<in> produces h (calls ! i). Some p \<notin> u"
  shows "asyncInv i h (leftAsync - 1) (Some (u \<union> consumesOf h (calls ! i))) (calls[i := setAsync True (calls ! i)])"
proof -
  let ?calls = "calls[i := setAsync True (calls ! i)]"
  have i: "i < length calls" "\<not> isAsync (calls ! i)" using inv by (simp_all add: asyncInv_def)
  have same: "produces h (?calls ! k) = produces h (calls ! k)" "consumesOf h (?calls ! k) = consumesOf h (calls ! k)" for k
    using i(1) by (cases "k = i"; simp)+
  have later: "isAsync (?calls ! k) = isAsync (calls ! k)" if "Suc i \<le> k" for k using that by simp
  have pend: "consumesOf h (calls ! m) \<subseteq> u"
    if "Suc i \<le> m" "m < length calls" "\<forall>j. Suc i \<le> j \<longrightarrow> j < m \<longrightarrow> isAsync (calls ! j)" for m
    using inv that by (simp add: asyncInv_def pendingIn_def)
  have "spacedFrom i h ?calls"
    unfolding spacedFrom_def
  proof (intro allI impI)
    fix k m p
    assume k: "i \<le> k" "k < m" "m < length ?calls" "isAsync (?calls ! k)" "p \<in> produces h (?calls ! k)"
      "Some p \<in> consumesOf h (?calls ! m)"
    show "\<exists>j > k. j < m \<and> \<not> isAsync (?calls ! j)"
    proof (cases "k = i")
      case True
      then have "\<not> consumesOf h (calls ! m) \<subseteq> u" using k(5,6) free by (auto simp: same)
      then obtain j where "Suc i \<le> j" "j < m" "\<not> isAsync (calls ! j)" using pend [of m] k(2,3) True by auto
      then have "k < j \<and> j < m \<and> \<not> isAsync (?calls ! j)" using True later [of j] by simp
      then show ?thesis by blast
    next
      case False
      then have "Suc i \<le> k" using k(1) by simp
      then obtain j where "k < j" "j < m" "\<not> isAsync (calls ! j)"
        using inv k unfolding asyncInv_def spacedFrom_def by (simp add: same) blast
      then have "k < j \<and> j < m \<and> \<not> isAsync (?calls ! j)" using \<open>Suc i \<le> k\<close> later [of j] by simp
      then show ?thesis by blast
    qed
  qed
  moreover have "pendingIn i h ?calls (Some (u \<union> consumesOf h (calls ! i)))"
    unfolding pendingIn_def option.case
  proof (intro allI impI)
    fix m assume m: "i \<le> m" "m < length ?calls" "\<forall>j. i \<le> j \<longrightarrow> j < m \<longrightarrow> isAsync (?calls ! j)"
    have "\<forall>j. Suc i \<le> j \<longrightarrow> j < m \<longrightarrow> isAsync (calls ! j)" using m(3) later by (metis Suc_leD)
    then show "consumesOf h (?calls ! m) \<subseteq> u \<union> consumesOf h (calls ! i)"
      using pend [of m] m(1,2) by (cases "m = i") (auto simp: same)
  qed
  moreover have "last ?calls = last calls" using i(1) last by (subst last_list_update) auto
  moreover have "numAsync ?calls = Suc (numAsync calls)" using i by (rule numAsync_update)
  ultimately show ?thesis using inv left i(1) by (auto simp: asyncInv_def)
qed

text \<open>What the loop leaves.\<close>

definition asyncOk :: "heap \<Rightarrow> Call list \<Rightarrow> Call list \<Rightarrow> bool" where
  "asyncOk h calls calls' \<longleftrightarrow>
     map (setAsync False) calls' = map (setAsync False) calls \<and> spacedFrom 0 h calls' \<and>
     numAsync calls' \<le> maxAsyncPerProg \<and> (calls' \<noteq> [] \<longrightarrow> \<not> isAsync (last calls'))"

lemma asyncInv_done: "asyncInv i h leftAsync un calls \<Longrightarrow> asyncOk h calls calls"
  unfolding asyncInv_def asyncOk_def spacedFrom_def by (metis le_add1 not_le_imp_less)

definition visitable :: "Type list \<Rightarrow> heap \<Rightarrow> Call \<Rightarrow> bool" where
  "visitable tt h c \<longleftrightarrow> callVisits tt (argSize tt h) c \<noteq> None \<and> (\<forall>p \<in> set (callResults c). h p \<noteq> None)"

lemma visitable_setAsync [simp]: "visitable tt h (setAsync b c) = visitable tt h c"
  by (simp add: visitable_def)

lemma Intn3: "\<exists>k r'. (if b then Intn 3 r else Some (0, r)) = Some (k, r')"
  by (auto simp: Intn_def split: list.splits)

lemma asyncLoop_ok:
  "asyncInv i h leftAsync un calls \<Longrightarrow> \<forall>c \<in> set calls. visitable tt h c \<Longrightarrow>
   \<exists>calls' r'. asyncLoop i tt h leftAsync un r calls = Some (calls', r') \<and> asyncOk h calls calls'"
proof (induction i arbitrary: leftAsync un r calls)
  case 0
  then show ?case using asyncInv_done by auto
next
  case (Suc i)
  show ?case
  proof (cases "leftAsync = 0")
    case True
    then show ?thesis using asyncInv_done [OF Suc.prems(1)] by simp
  next
    case False
    let ?c = "calls ! i"
    let ?prod = "\<exists>p \<in> produces h ?c. \<exists>u. un = Some u \<and> Some p \<in> u"
    have i: "i < length calls" "\<not> isAsync ?c" using Suc.prems(1) by (simp_all add: asyncInv_def)
    then have "visitable tt h ?c" using Suc.prems(2) by simp
    then have visit: "ForeachArg tt (\<lambda>_. argSize tt h) (always (asyncVisit h un)) ?c (False, {}) = Some (?prod, consumesOf h ?c)"
      unfolding visitable_def using asyncVisit_call by blast
    obtain k r' where k: "(if \<not> ?prod \<and> i + 1 \<noteq> length calls then Intn 3 r else Some (0, r)) = Some (k, r')"
      using Intn3 by blast
    show ?thesis
    proof (cases "k = 0")
      case True
      obtain calls' r'' where "asyncLoop i tt h leftAsync (Some (consumesOf h ?c)) r' calls = Some (calls', r'')" "asyncOk h calls calls'"
        using Suc.IH [OF asyncInv_sync [OF Suc.prems(1)] Suc.prems(2), of r'] by blast
      then show ?thesis using False visit k True i by (simp add: setAsync_False del: One_nat_def)
    next
      case kn: False
      then have free: "\<not> ?prod" and last: "Suc i \<noteq> length calls" using k by (auto split: if_splits)
      obtain u where u: "un = Some u" using Suc.prems(1) last by (auto simp: asyncInv_def pendingIn_def split: option.splits)
      let ?calls = "calls[i := setAsync True ?c]"
      have vis: "\<forall>c \<in> set ?calls. visitable tt h c"
        using Suc.prems(2) i(1) by (auto dest!: subsetD [OF set_update_subset_insert])
      have "asyncInv i h (leftAsync - 1) (Some (u \<union> consumesOf h ?c)) ?calls"
        using Suc.prems(1) False last free u by (intro asyncInv_async) auto
      then obtain calls' r'' where run: "asyncLoop i tt h (leftAsync - 1) (Some (u \<union> consumesOf h ?c)) r' ?calls = Some (calls', r'')"
        and ok: "asyncOk h ?calls calls'"
        using Suc.IH vis by blast
      have "map (setAsync False) ?calls = map (setAsync False) calls" using i(1) by (simp add: map_update list_update_same_conv)
      then have "asyncOk h calls calls'" using ok by (simp add: asyncOk_def)
      then show ?thesis using False visit k kn u run by (simp add: addAll_def del: One_nat_def)
    qed
  qed
qed

subsection \<open>On the clone\<close>

text \<open>Sizes, and so the traversal, depend on the types of the result arguments only.\<close>

definition sameTypes :: "heap \<Rightarrow> heap \<Rightarrow> (nat \<Rightarrow> nat) \<Rightarrow> nat list \<Rightarrow> bool" where
  "sameTypes h h' f ps \<longleftrightarrow> (\<forall>p \<in> set ps. map_option ro_ref (h' (f p)) = map_option ro_ref (h p))"

lemma sameTypes_append [simp]: "sameTypes h h' f (ps @ qs) \<longleftrightarrow> sameTypes h h' f ps \<and> sameTypes h h' f qs"
  by (auto simp: sameTypes_def)

lemma sameTypes_concat: "sameTypes h h' f (concat pss) \<Longrightarrow> ps \<in> set pss \<Longrightarrow> sameTypes h h' f ps"
  by (auto simp: sameTypes_def)

lemma argSize_skel:
  "sameTypes h h' f (argResults a) \<Longrightarrow> argSize tt h' (skel f a) = argSize tt h a"
  "sameTypes h h' f (concat (map argResults as)) \<Longrightarrow> argSizes tt h' (map (skel f) as) = argSizes tt h as"
proof (induction tt h a and tt h as rule: argSize_argSizes.induct)
  case (4 tt h c inner)
  then show ?case by (cases "typeAt tt (arg_ref c)") (auto split: bind_splits Type.splits)
next
  case (5 tt h c opt i)
  then show ?case by (cases "typeAt tt (arg_ref c)") auto
next
  case (6 tt h p)
  then show ?case by (simp add: sameTypes_def)
next
  case (8 tt h a as)
  then show ?case by (cases "argSize tt h a") auto
qed auto

lemma visitsInner_skel:
  assumes "\<And>a ctx ctx'. a \<in> set as \<Longrightarrow> (visits tt sz' (skel f a) ctx' = None) = (visits tt sz a ctx = None)"
    and "\<And>a. a \<in> set as \<Longrightarrow> sz' (skel f a) = sz a"
  shows "(visitsInner tt sz' i overlay off' (map (skel f) as) ctx' = None) = (visitsInner tt sz i overlay off as ctx = None)"
  using assms
proof (induction as arbitrary: i ctx ctx')
  case (Cons a as)
  define b where "b = (visits tt sz a noCtx = None)"
  define bs where "bs = (visitsInner tt sz (Suc i) overlay off as noCtx = None)"
  have a': "(visits tt sz' (skel f a) c' = None) = b" for c' using Cons.prems(1) [of a c' noCtx] by (simp add: b_def)
  then have a: "(visits tt sz a c = None) = b" for c using Cons.prems(1) [of a noCtx c] by simp
  have as': "(visitsInner tt sz' (Suc i) overlay off' (map (skel f) as) c' = None) = bs" for c'
    using Cons.IH [of "Suc i" c' noCtx] Cons.prems by (simp add: bs_def)
  then have as: "(visitsInner tt sz (Suc i) overlay off as c = None) = bs" for c
    using Cons.IH [of "Suc i" noCtx c] Cons.prems by simp
  have "sz' (skel f a) = sz a" using Cons.prems(2) by simp
  then show ?case
    by (simp only: list.map visitsInner.simps Let_def Option.bind_eq_None_conv option.distinct simp_thms a a' as as')
qed simp

lemma visits_skel:
  "sameTypes h h' f (argResults a) \<Longrightarrow>
   (visits tt (argSize tt h') (skel f a) ctx' = None) = (visits tt (argSize tt h) a ctx = None)"
proof (induction a arbitrary: ctx ctx')
  case (PointerArg c addr vma res)
  then show ?case by (cases res) (auto simp: Option.bind_eq_None_conv)
next
  case (GroupArg c inner)
  have "sameTypes h h' f (argResults a)" if "a \<in> set inner" for a
    using GroupArg.prems that by (auto intro: sameTypes_concat)
  then have "(visitsInner tt (argSize tt h') i ov off' (map (skel f) inner) c' = None) =
      (visitsInner tt (argSize tt h) i ov off inner c = None)" for i ov off off' c c'
    using GroupArg.IH argSize_skel(1) by (intro visitsInner_skel) auto
  then show ?case by (cases "typeAt tt (arg_ref c)") (auto simp: Option.bind_eq_None_conv)
next
  case (UnionArg c opt k)
  then show ?case by (auto simp: Option.bind_eq_None_conv)
qed auto

lemma visitsTop_skel:
  "sameTypes h h' f (concat (map argResults as)) \<Longrightarrow>
   (visitsTop tt (argSize tt h') (map (skel f) as) ctx' = None) = (visitsTop tt (argSize tt h) as ctx = None)"
proof (induction as)
  case (Cons a as)
  then show ?case using visits_skel [of h h' f a tt ctx' ctx] by (simp add: Option.bind_eq_None_conv)
qed simp

lemma callVisits_skel:
  assumes "sameTypes h h' f (callResults c)"
  shows "(callVisits tt (argSize tt h') (skelCall f c) = None) = (callVisits tt (argSize tt h) c = None)"
proof -
  have "sameTypes h h' f (concat (map argResults (call_Args c)))" using assms by (simp add: callResults_def)
  then show ?thesis using visitsTop_skel [of h h' f "call_Args c" tt]
    by (simp add: callVisits_def skelCall_def Option.bind_eq_None_conv)
qed

lemma callVisits_skel_id: "(callVisits tt (argSize tt h) (skelCall (\<lambda>p. p) c) = None) = (callVisits tt (argSize tt h) c = None)"
  by (rule callVisits_skel) (simp add: sameTypes_def)

lemma isAsync_skel [simp]: "isAsync (skelCall f c) = isAsync c"
  by (simp add: isAsync_def skelCall_def)

lemma copy_call:
  assumes "isCopy n h calls f calls1 s" and "c1 \<in> set calls1"
  obtains c where "c \<in> set calls" and "skelCall (\<lambda>p. p) c1 = skelCall f c"
proof -
  have "skelCall (\<lambda>p. p) c1 \<in> set (map (skelCall (\<lambda>p. p)) calls1)" using assms(2) by simp
  also have "map (skelCall (\<lambda>p. p)) calls1 = map (skelCall f) calls" using assms(1) by (simp add: isCopy_def)
  finally show ?thesis using that by auto
qed

lemma copy_visitable:
  assumes copy: "isCopy n h calls f calls1 s" and vis: "\<forall>c \<in> set calls. callVisits tt (argSize tt h) c \<noteq> None"
  shows "\<forall>c \<in> set calls1. visitable tt (cl_heap s) c"
proof
  fix c1 assume c1: "c1 \<in> set calls1"
  then obtain c where c: "c \<in> set calls" "skelCall (\<lambda>p. p) c1 = skelCall f c" by (rule copy_call [OF copy])
  have "sameTypes h (cl_heap s) f (progResults calls)"
    using copy by (auto simp: isCopy_def sameTypes_def option.map_comp comp_def)
  then have "sameTypes h (cl_heap s) f (callResults c)"
    unfolding progResults_def by (rule sameTypes_concat) (simp add: c(1))
  then have "callVisits tt (argSize tt (cl_heap s)) (skelCall f c) \<noteq> None" using callVisits_skel vis c(1) by blast
  then have "callVisits tt (argSize tt (cl_heap s)) c1 \<noteq> None" using callVisits_skel_id c(2) by metis
  moreover have "\<forall>p \<in> set (callResults c1). cl_heap s p \<noteq> None"
    using copy c1 by (auto simp: isCopy_def progOk_def linksOk_def progResults_def)
  ultimately show "visitable tt (cl_heap s) c1" by (simp add: visitable_def)
qed

lemma copy_sync: "isCopy n h calls f calls1 s \<Longrightarrow> \<forall>c \<in> set calls. \<not> isAsync c \<Longrightarrow> \<forall>c \<in> set calls1. \<not> isAsync c"
  by (metis copy_call isAsync_skel)

lemma asyncInv_start:
  assumes "\<forall>c \<in> set calls. \<not> isAsync c"
  shows "asyncInv (length calls) h maxAsyncPerProg None calls"
  using assms by (auto simp: asyncInv_def spacedFrom_def pendingIn_def numAsync_def)

context copier
begin

text \<open>The loop on a copy.\<close>

lemma copy_then_async:
  assumes "progOk n h calls" and "\<forall>c \<in> set calls. callVisits tt (argSize tt h) c \<noteq> None"
    and "\<forall>c \<in> set calls. \<not> isAsync c"
  obtains copied s f calls1 r' where "copy calls n h = Some (copied, s)" and "isCopy n h calls f copied s"
    and "asyncLoop (length copied) tt (cl_heap s) maxAsyncPerProg None r copied = Some (calls1, r')"
    and "asyncOk (cl_heap s) copied calls1" and "map (setAsync False) calls1 = copied"
proof -
  obtain copied s f where run: "copy calls n h = Some (copied, s)" and copy: "isCopy n h calls f copied s"
    using copies [OF assms(1)] by blast
  have sync: "\<forall>c \<in> set copied. \<not> isAsync c" using copy_sync [OF copy assms(3)] .
  obtain calls1 r' where loop: "asyncLoop (length copied) tt (cl_heap s) maxAsyncPerProg None r copied = Some (calls1, r')"
    and ok: "asyncOk (cl_heap s) copied calls1"
    using asyncLoop_ok [OF asyncInv_start [OF sync] copy_visitable [OF copy assms(2)]] by blast
  have "map (setAsync False) copied = copied" using sync by (simp add: map_idI setAsync_False)
  then show ?thesis using that [OF run copy loop ok] ok by (simp add: asyncOk_def)
qed

end

text \<open>
  The number of duplicates keeps a program within its limit. A program beyond the limit would give a negative
  number, and the slice of the permutation a panic; the fuzzer takes no such program into its corpus.
\<close>

lemma numDuplicates_range:
  assumes "2 \<le> n" and "n \<le> MaxCalls"
  shows "0 \<le> numDuplicates n" and "numDuplicates n \<le> int n" and "int n + numDuplicates n \<le> int MaxCalls"
  using assms by (auto simp: numDuplicates_def Let_def MaxCalls_def maxAsyncPerProg_def)

lemma numDuplicates_beyond: "MaxCalls < n \<Longrightarrow> numDuplicates n < 0"
  by (auto simp: numDuplicates_def Let_def MaxCalls_def maxAsyncPerProg_def)

lemma perm_step:
  assumes "mset m = mset [0..<i]" and "j \<le> i"
  shows "mset ((m @ [if j = i then i else m ! j])[j := i]) = mset [0..<Suc i]"
proof -
  have len: "length m = i" using mset_eq_length [OF assms(1)] by simp
  show ?thesis
  proof (cases "j = i")
    case True
    then show ?thesis using assms(1) len by (simp add: list_update_append)
  next
    case False
    then have j: "j < length m" using assms(2) len by simp
    then have "mset (m[j := i]) = add_mset i (mset m - {#m ! j#})" by (rule mset_update)
    moreover have "m ! j \<in># mset m" using j by simp
    ultimately show ?thesis using assms(1) False j by (simp add: list_update_append)
  qed
qed

lemma Intn_Suc: "\<exists>j r'. Intn (i + 1) r = Some (j, r') \<and> j \<le> i"
  by (auto simp: Intn_def less_Suc_eq_le [symmetric] split: list.splits)

lemma permLoop_perm:
  "mset m = mset [0..<i] \<Longrightarrow> \<exists>m' r'. permLoop n i m r = Some (m', r') \<and> mset m' = mset [0..<i + n]"
proof (induction n arbitrary: i m r)
  case (Suc n)
  obtain j r1 where "Intn (i + 1) r = Some (j, r1)" "j \<le> i" using Intn_Suc by blast
  then show ?case using Suc.IH [OF perm_step [OF Suc.prems], of j r1] by simp
qed simp

lemma Perm_permutation: "\<exists>m r'. Perm n r = Some (m, r') \<and> mset m = mset [0..<n]"
  using permLoop_perm [of "[]" 0 n r] by (simp add: Perm_def)

text \<open>
  C40. Let a program be well-formed, its arguments have sizes, and none of its calls be asynchronous. Then
  making calls asynchronous never panics, whatever the choices; the result is a copy of the program
  in which nothing but that property has changed. The last call is not asynchronous, at most 24 calls are,
  and between an asynchronous call that produces a resource and a later call that consumes it there is a call that is
  not asynchronous.
\<close>

theorem AssignRandomAsync_spaced:
  assumes "progOk n h calls" and "\<forall>c \<in> set calls. callVisits tt (argSize tt h) c \<noteq> None"
    and "\<forall>c \<in> set calls. \<not> isAsync c"
  shows "\<exists>calls1 copied s r' f. AssignRandomAsync tt calls n h r = Some (calls1, s, r')
    \<and> isCopy n h calls f copied s \<and> map (setAsync False) calls1 = copied
    \<and> (calls1 \<noteq> [] \<longrightarrow> \<not> isAsync (last calls1)) \<and> length (filter isAsync calls1) \<le> 24
    \<and> (\<forall>k m p. k < m \<longrightarrow> m < length calls1 \<longrightarrow> isAsync (calls1 ! k) \<longrightarrow> p \<in> produces (cl_heap s) (calls1 ! k) \<longrightarrow>
         Some p \<in> consumesOf (cl_heap s) (calls1 ! m) \<longrightarrow> (\<exists>j. k < j \<and> j < m \<and> \<not> isAsync (calls1 ! j)))"
proof -
  obtain copied s f calls1 r' where run: "Prog_Clone calls n h = Some (copied, s)" and copy: "isCopy n h calls f copied s"
    and loop: "asyncLoop (length copied) tt (cl_heap s) maxAsyncPerProg None r copied = Some (calls1, r')"
    and ok: "asyncOk (cl_heap s) copied calls1" and same: "map (setAsync False) calls1 = copied"
    by (rule cp.copy_then_async [OF assms])
  have "AssignRandomAsync tt calls n h r = Some (calls1, s, r')" by (simp add: AssignRandomAsync_def run loop)
  moreover note same
  moreover have "calls1 \<noteq> [] \<longrightarrow> \<not> isAsync (last calls1)" "length (filter isAsync calls1) \<le> 24"
    using ok by (simp_all add: asyncOk_def numAsync_def maxAsyncPerProg_def)
  moreover have "\<forall>k m p. k < m \<longrightarrow> m < length calls1 \<longrightarrow> isAsync (calls1 ! k) \<longrightarrow> p \<in> produces (cl_heap s) (calls1 ! k) \<longrightarrow>
      Some p \<in> consumesOf (cl_heap s) (calls1 ! m) \<longrightarrow> (\<exists>j. k < j \<and> j < m \<and> \<not> isAsync (calls1 ! j))"
    using ok by (simp add: asyncOk_def spacedFrom_def)
  ultimately show ?thesis using copy
    by (intro exI [of _ calls1] exI [of _ copied] exI [of _ s] exI [of _ r'] exI [of _ f] conjI)
qed

definition exProps :: CallProps where
  "exProps = \<lparr>cp_FailNth = 0, cp_Async = False, cp_Rerun = 0\<rparr>"

theorem AssignRandomAsync_spaced_witness:
  "\<forall>meta. \<exists>calls1 s r'. AssignRandomAsync [] [exOpen meta exProps, exRead meta exProps] 2 exHeap [1] = Some (calls1, s, r')
     \<and> length (filter isAsync calls1) \<le> 24"
proof
  fix meta
  let ?calls = "[exOpen meta exProps, exRead meta exProps]"
  have "\<forall>c \<in> set ?calls. callVisits [] (argSize [] exHeap) c \<noteq> None"
    by (simp add: callVisits_def exOpen_def exRead_def)
  moreover have "\<forall>c \<in> set ?calls. \<not> isAsync c" by (simp add: isAsync_def exOpen_def exRead_def exProps_def)
  ultimately show "\<exists>calls1 s r'. AssignRandomAsync [] ?calls 2 exHeap [1] = Some (calls1, s, r') \<and> length (filter isAsync calls1) \<le> 24"
    using AssignRandomAsync_spaced [OF exProg_ok] by blast
qed

end
