(* ===== verification/Spec2Isabelle.thy ===== *)
theory Spec2Isabelle
  imports StructOps_Props Alloc Heatmap Defaults ExecRound Hints WorkQueue Fallback Prio Collide
begin

text \<open>
  Verification of BRF, the BPF runtime fuzzer built on syzkaller.

  \<^bold>\<open>The program.\<close> A manager starts virtual machines; a fuzzer in each of them builds programs (sequences of
  system calls with argument trees), serializes them for an executor, and keeps those that reach new kernel code.
  Package \<^verbatim>\<open>prog\<close> holds the data structures and the algorithms on programs, \<^verbatim>\<open>pkg/signal\<close> the feedback,
  \<^verbatim>\<open>syz-fuzzer\<close> the state the processes of a fuzzer share. BRF adds generators of BPF programs; its newest part
  writes struct_ops schedulers for multipath TCP in C (\<^verbatim>\<open>prog/brf_structops.go\<close>). The development models the
  deterministic core of these packages.

  \<^bold>\<open>Conventions.\<close> An index out of range, a nil dereference, a write to a nil map and an explicit \<^verbatim>\<open>panic\<close> are the
  value None of an option. Errors that the code returns are values of a sum type or a field of the state. The
  random source is a tape of choices (\<open>rng\<close>), of which each draw takes the next modulo its range; a theorem
  about all tapes is one about all runs. Integers that can overflow are words of their width; lengths and counters
  that cannot are natural numbers. Maps are association lists or partial functions, and where the order in
  which Go walks over a map matters it is a parameter. A pointer that is only followed is a reference into a table
  (types) or a heap (result arguments). Loops whose end is not evident are partial functions into the option
  type, with a theorem that they end. There is no fuel but in \<open>DefaultArg\<close>, where it bounds the depth of a type;
  the theorem asks for as much fuel as the rank of the type, and no other value of it changes the result.

  \<^bold>\<open>The theories, in the order of the code.\<close>
  \<^item> \<open>Prelude\<close>: words, the random tape, binary search (\<^verbatim>\<open>sort.Search\<close>), elimination rules for option binds.
  \<^item> \<open>StructOps_Model\<close>, \<open>StructOps_Gen\<close>, \<open>StructOps_Render\<close>: the tables, the generator and the renderer of
    \<^verbatim>\<open>prog/brf_structops.go\<close>, statement by statement and byte for byte. \<open>StructOps_Types\<close> has a checker for
    generated bodies (types, scopes, NULL guards), \<open>StructOps_Paths\<close> their control-flow paths, and
    \<open>StructOps_Inv\<close> the induction over the generator as the locale \<open>body_invariant\<close>, which \<open>StructOps_Types\<close> and
    \<open>StructOps_Shape\<close> interpret three times; \<open>StructOps_Total\<close> shows that the generator never panics.
    \<open>StructOps_Props\<close>: every generated scheduler is well typed (C1), keeps the iterator protocol and the meaning of
    its result on every path (C2), has unique names (C3), bounded size (C4), a write (C5), a good name (C6), exactly
    the externs it needs (C7), and balanced C text (C8).
  \<^item> \<open>Alloc\<close>: the two allocators of \<^verbatim>\<open>prog/alloc.go\<close>, behind the locale \<open>unit_tracker\<close>. The bitmap refines first fit
    over a set of granules (C9) and is safe (C10); the page allocator is safe when pages are left (C11) and panics
    on a request for all of them (C12).
  \<^item> \<open>Heatmap\<close>: \<^verbatim>\<open>prog/heatmap.go\<close>, the choice among interesting positions (C13).
  \<^item> \<open>ProgTypes\<close>, \<open>ProgArgs\<close>, \<open>Foreach\<close>, \<open>Defaults\<close>: types (\<^verbatim>\<open>prog/types.go\<close>), arguments and calls
    (\<^verbatim>\<open>prog/prog.go\<close>), their traversal (\<^verbatim>\<open>prog/analysis.go\<close>) and default arguments (C15, C16).
  \<^item> \<open>Fallback\<close>: the signal of a kernel without coverage and the features a program needs, from
    \<^verbatim>\<open>prog/analysis.go\<close>. The signals of a call decode to its number and its error (C23).
  \<^item> \<open>Resources\<close>, \<open>TypeWalk\<close>, \<open>Prio\<close>: \<^verbatim>\<open>prog/resources.go\<close>, the type traversal of \<^verbatim>\<open>prog/types.go\<close> and
    \<^verbatim>\<open>prog/prio.go\<close>. The enabled calls are the least set closed under creation of resources (C36). The traversal
    ends on recursive types and visits what is reachable (C29). A choice by priority gives a call that may be
    generated (C37); priorities stay in their range up to a limit, beyond which they overflow (C38).
  \<^item> \<open>Clone\<close>, \<open>Collide\<close>: \<^verbatim>\<open>prog/clone.go\<close> and \<^verbatim>\<open>prog/collide.go\<close>. A clone is a faithful copy, links in both
    directions included (C39); what its users rely on is the locale \<open>copier\<close>. Where calls are made
    asynchronous, a synchronous call stays between one that produces a resource and one that consumes it (C40).
  \<^item> \<open>Bytes\<close>, \<open>Checksum\<close>, \<open>ExecDec\<close>, \<open>ExecEnc\<close>, \<open>ExecWire\<close>, \<open>ExecLower\<close>, \<open>ExecRound\<close>: the exec format,
    \<^verbatim>\<open>prog/encodingexec.go\<close>, \<^verbatim>\<open>prog/decodeexec.go\<close>, \<^verbatim>\<open>prog/checksum.go\<close>. \<open>ExecWire\<close> and \<open>ExecLower\<close> are the
    specification: the bytes of a call and the calls of a program. Serialization refines it (C18), decoding inverts it
    (C17), indexes are consecutive (C19) and none dangles (C20), the decoder ends (C21) but trusts the length it
    reads (C22). The checksum plan (C24); the byte order is behind the locale \<open>byte_order\<close>.
  \<^item> \<open>RandInt\<close>, \<open>MutateData\<close>, \<open>Hints\<close>: the integer draws of \<^verbatim>\<open>prog/rand.go\<close>, data mutation of
    \<^verbatim>\<open>prog/mutation.go\<close> (C25, C26; integers C28) and comparison hints of \<^verbatim>\<open>prog/hints.go\<close> (C30 to C33).
  \<^item> \<open>Signal\<close>, \<open>FuzzerState\<close>, \<open>WorkQueue\<close>: \<^verbatim>\<open>pkg/signal/signal.go\<close> and the state of \<^verbatim>\<open>syz-fuzzer/fuzzer.go\<close> as a transition
    system, a step for each section under a lock. Corpus minimization keeps the signal (C34); in every
    interleaving no signal is lost (C35) and the corpus can be drawn from by weight (C14). The work queue of
    \<^verbatim>\<open>syz-fuzzer/workqueue.go\<close> refines a single list of items with ranks, from which nothing gets lost (C27). Invariants are
    proved through the locale \<open>system_invariant\<close>.

  \<^bold>\<open>Bounds.\<close> The numbers of the source are kept: 24 asynchronous calls, 40 calls in a program, 1000 copyouts, 64-byte
  granules, priorities from 10 to 1000. The limit 2169175 of C38 is the largest number whose product with
  990 is an \<^verbatim>\<open>int32\<close>. Floating-point draws are exact multiples of \<open>2 ^ -53\<close>; rounding is not modelled. Memory does not
  run out. Checks that only run under the \<^verbatim>\<open>debug\<close> flag are left out.

  \<^bold>\<open>Not modelled.\<close>
  \<^item> The older BPF generator (\<^verbatim>\<open>prog/brf.go\<close>, \<^verbatim>\<open>brf_legacy.go\<close>, \<^verbatim>\<open>brf_prog.go\<close>, \<^verbatim>\<open>brf_types.go\<close>): it runs a compiler
    and works from tables of the running kernel in every step.
  \<^item> The text format (\<^verbatim>\<open>encoding.go\<close>, \<^verbatim>\<open>parse.go\<close>), with its repair of malformed arguments; length fields
    (\<^verbatim>\<open>size.go\<close>); validation; squashing of arguments (\<^verbatim>\<open>any.go\<close>, of which only the test is modelled).
  \<^item> Generation, mutation and minimization of whole programs: they call target-specific code through function
    fields, or the executor through a predicate, in every step.
  \<^item> The processes of the fuzzer, the manager, the hub, continuous integration, virtual machines, the dashboard and
    the tools: input and output, networks and files.
  \<^item> The description compiler and the descriptions of systems, which only the build runs; the executor, which is
    C++ code around system calls.
\<close>

end
